(* ===== verification/Prelude.thy ===== *)
theory Prelude
  imports Main "HOL-Library.Word" "HOL-Library.Sublist" "HOL-Library.AList"
begin

text \<open>
  Shared vocabulary of the development: bytes and strings, the outcome of a Rust function
  (a value, an error value, a panic) threaded through a state, \<open>for\<close> loops with the
  question-mark operator, and the parts of the standard library's string and slice
  functions that several components use (splitting, joining, searching, lines, trimming,
  UTF-8 validity). The collections \<open>prog_simps\<close> and \<open>prog_intros\<close> gather the
  facts the component proofs rest on.
\<close>

named_theorems prog_simps \<open>computation rules of the program combinators\<close>
named_theorems prog_intros \<open>invariant rules of the program combinators\<close>

section \<open>Bytes and strings\<close>

text \<open>
  A Rust \<open>Vec<u8>\<close> is a list of 8-bit words. A Rust \<open>String\<close> is a list of
  \<open>char\<close>, which are bytes in HOL too: the list is the string's UTF-8 encoding.
\<close>

type_synonym byte = "8 word"
type_synonym bytes = "byte list"

definition to_bytes :: "string \<Rightarrow> bytes" where
  "to_bytes s = map of_char s"

definition of_bytes :: "bytes \<Rightarrow> string" where
  "of_bytes b = map (\<lambda>w. char_of (unat w)) b"

lemma unat_of_char_byte [simp]: "unat (of_char c :: byte) = of_char c"
proof -
  have "unat (of_nat (of_char c) :: byte) = of_char c"
    by (simp add: unat_of_nat)
  then show ?thesis by (simp only: of_nat_of_char)
qed

lemma of_char_byte_inject [simp]: "(of_char c :: byte) = of_char d \<longleftrightarrow> c = d"
  by (metis char_of_char unat_of_char_byte)

lemma of_bytes_to_bytes [simp]: "of_bytes (to_bytes s) = s"
  by (simp add: of_bytes_def to_bytes_def comp_def)

lemma to_bytes_append [simp]: "to_bytes (s @ t) = to_bytes s @ to_bytes t"
  by (simp add: to_bytes_def)

lemma to_bytes_Nil [simp]: "to_bytes [] = []"
  by (simp add: to_bytes_def)

lemma to_bytes_Cons [simp]: "to_bytes (c # s) = of_char c # to_bytes s"
  by (simp add: to_bytes_def)

lemma length_to_bytes [simp]: "length (to_bytes s) = length s"
  by (simp add: to_bytes_def)

lemma to_bytes_inject [simp]: "to_bytes s = to_bytes t \<longleftrightarrow> s = t"
  by (metis of_bytes_to_bytes)

lemma set_to_bytes: "of_char c \<in> set (to_bytes s) \<longleftrightarrow> c \<in> set s"
  by (auto simp: to_bytes_def)

section \<open>Outcomes and programs\<close>

text \<open>
  A Rust function over a mutable state returns a value, an error value, or panics; the
  state it leaves behind is part of the result in all three cases. \<open>and_then\<close> is
  sequencing with the question-mark operator, \<open>map_err\<close> rewrites the error value,
  \<open>for_each\<close> is a \<open>for\<close> loop whose body may leave early.
\<close>

datatype ('e, 'a) res = Ok 'a | Err 'e | Panic

type_synonym ('s, 'e, 'a) prog = "'s \<Rightarrow> ('e, 'a) res \<times> 's"

definition ret :: "'a \<Rightarrow> ('s, 'e, 'a) prog" where
  "ret a = (\<lambda>s. (Ok a, s))"

definition throw :: "'e \<Rightarrow> ('s, 'e, 'a) prog" where
  "throw e = (\<lambda>s. (Err e, s))"

definition panic :: "('s, 'e, 'a) prog" where
  "panic = (\<lambda>s. (Panic, s))"

definition and_then ::
    "('s, 'e, 'a) prog \<Rightarrow> ('a \<Rightarrow> ('s, 'e, 'b) prog) \<Rightarrow> ('s, 'e, 'b) prog" where
  "and_then m f = (\<lambda>s. case m s of
     (Ok a, s') \<Rightarrow> f a s'
   | (Err e, s') \<Rightarrow> (Err e, s')
   | (Panic, s') \<Rightarrow> (Panic, s'))"

definition map_err :: "('e \<Rightarrow> 'f) \<Rightarrow> ('s, 'e, 'a) prog \<Rightarrow> ('s, 'f, 'a) prog" where
  "map_err g m = (\<lambda>s. case m s of
     (Ok a, s') \<Rightarrow> (Ok a, s')
   | (Err e, s') \<Rightarrow> (Err (g e), s')
   | (Panic, s') \<Rightarrow> (Panic, s'))"

definition gets :: "('s \<Rightarrow> 'a) \<Rightarrow> ('s, 'e, 'a) prog" where
  "gets f = (\<lambda>s. (Ok (f s), s))"

definition lift_res :: "('e, 'a) res \<Rightarrow> ('s, 'e, 'a) prog" where
  "lift_res r = (\<lambda>s. (r, s))"

fun for_each :: "('x \<Rightarrow> ('s, 'e, unit) prog) \<Rightarrow> 'x list \<Rightarrow> ('s, 'e, unit) prog" where
  "for_each body [] = ret ()"
| "for_each body (x # xs) = and_then (body x) (\<lambda>_. for_each body xs)"

lemma ret_apply [prog_simps]: "ret a s = (Ok a, s)"
  by (simp add: ret_def)

lemma throw_apply [prog_simps]: "throw e s = (Err e, s)"
  by (simp add: throw_def)

lemma panic_apply [prog_simps]: "panic s = (Panic, s)"
  by (simp add: panic_def)

lemma gets_apply [prog_simps]: "gets f s = (Ok (f s), s)"
  by (simp add: gets_def)

lemma lift_res_apply [prog_simps]: "lift_res r s = (r, s)"
  by (simp add: lift_res_def)

lemma and_then_apply [prog_simps]:
  "and_then m f s =
     (case fst (m s) of
        Ok a \<Rightarrow> f a (snd (m s))
      | Err e \<Rightarrow> (Err e, snd (m s))
      | Panic \<Rightarrow> (Panic, snd (m s)))"
  by (simp add: and_then_def case_prod_unfold split: res.splits)

lemma and_then_Ok_eq: "m s = (Ok a, s') \<Longrightarrow> and_then m f s = f a s'"
  by (simp add: and_then_def)

lemma and_then_Err_eq: "m s = (Err e, s') \<Longrightarrow> and_then m f s = (Err e, s')"
  by (simp add: and_then_def)

lemma and_then_Panic_eq: "m s = (Panic, s') \<Longrightarrow> and_then m f s = (Panic, s')"
  by (simp add: and_then_def)

lemma and_then_ret_left [simp]: "and_then (ret a) f = f a"
  by (simp add: and_then_def ret_def)

lemma and_then_Pair [prog_simps]:
  "and_then (Pair (Ok a)) f = f a"
  "and_then (Pair (Err e)) f = Pair (Err e)"
  "and_then (Pair Panic) f = Pair Panic"
  by (auto simp: and_then_def)

lemma and_then_assoc:
  "and_then (and_then m f) g = and_then m (\<lambda>a. and_then (f a) g)"
  by (rule ext) (simp add: and_then_def split: res.splits prod.splits)

lemma and_then_OkE:
  assumes "and_then m f s = (Ok b, t)"
  obtains a s' where "m s = (Ok a, s')" "f a s' = (Ok b, t)"
  using assms by (cases "m s"; cases "fst (m s)") (auto simp: and_then_def)

lemma and_then_Ok_iff:
  "and_then m f s = (Ok b, t) \<longleftrightarrow> (\<exists>a s'. m s = (Ok a, s') \<and> f a s' = (Ok b, t))"
  by (auto simp: and_then_def split: res.splits prod.splits)

lemma map_err_Ok_iff [prog_simps]: "map_err g m s = (Ok a, t) \<longleftrightarrow> m s = (Ok a, t)"
  by (auto simp: map_err_def split: res.splits prod.splits)

lemma map_err_apply:
  "map_err g m s =
     (case fst (m s) of
        Ok a \<Rightarrow> (Ok a, snd (m s))
      | Err e \<Rightarrow> (Err (g e), snd (m s))
      | Panic \<Rightarrow> (Panic, snd (m s)))"
  by (simp add: map_err_def case_prod_unfold split: res.splits)

text \<open>A state relation that every step of a program respects, whatever its outcome.\<close>

definition keeps :: "('s \<Rightarrow> 's \<Rightarrow> bool) \<Rightarrow> ('s, 'e, 'a) prog \<Rightarrow> bool" where
  "keeps R m \<longleftrightarrow> (\<forall>s. R s (snd (m s)))"

lemma keepsI [intro]: "(\<And>s. R s (snd (m s))) \<Longrightarrow> keeps R m"
  by (simp add: keeps_def)

lemma keepsD: "keeps R m \<Longrightarrow> R s (snd (m s))"
  by (simp add: keeps_def)

lemma keeps_ret [prog_intros]: "reflp R \<Longrightarrow> keeps R (ret a)"
  by (simp add: keeps_def reflpD prog_simps)

lemma keeps_lift_res [prog_intros]: "reflp R \<Longrightarrow> keeps R (lift_res r)"
  by (simp add: keeps_def reflpD prog_simps)

lemma keeps_gets [prog_intros]: "reflp R \<Longrightarrow> keeps R (gets f)"
  by (simp add: keeps_def reflpD prog_simps)

lemma keeps_throw [prog_intros]: "reflp R \<Longrightarrow> keeps R (throw e)"
  by (simp add: keeps_def reflpD prog_simps)

lemma keeps_panic [prog_intros]: "reflp R \<Longrightarrow> keeps R panic"
  by (simp add: keeps_def reflpD prog_simps)

lemma keeps_and_then [prog_intros]:
  assumes "transp R" "keeps R m" "\<And>a. keeps R (f a)"
  shows "keeps R (and_then m f)"
proof (rule keepsI)
  fix s
  have "R s (snd (m s))" using assms(2) by (rule keepsD)
  moreover have "R (snd (m s)) (snd (f a (snd (m s))))" for a
    using assms(3) by (rule keepsD)
  ultimately show "R s (snd (and_then m f s))"
    using assms(1) by (auto simp: and_then_apply split: res.splits dest: transpD)
qed

lemma keeps_map_err [prog_intros]: "keeps R m \<Longrightarrow> keeps R (map_err g m)"
  by (auto simp: keeps_def map_err_def split: res.splits prod.splits)
     (metis snd_conv)+

lemma keeps_for_each [prog_intros]:
  assumes "reflp R" "transp R" "\<And>x. keeps R (body x)"
  shows "keeps R (for_each body xs)"
  by (induction xs) (auto intro!: keeps_ret keeps_and_then assms)

lemma for_each_append:
  "for_each body (xs @ ys) = and_then (for_each body xs) (\<lambda>_. for_each body ys)"
  by (induction xs) (simp_all add: and_then_assoc)

section \<open>Splitting and joining\<close>

text \<open>\<open>str::split(char)\<close>: at least one piece; \<open>[String]::join\<close>.\<close>

fun split_on :: "'a \<Rightarrow> 'a list \<Rightarrow> 'a list list" where
  "split_on d [] = [[]]"
| "split_on d (x # xs) =
     (if x = d then [] # split_on d xs
      else (case split_on d xs of [] \<Rightarrow> [[x]] | p # ps \<Rightarrow> (x # p) # ps))"

fun join_with :: "'a list \<Rightarrow> 'a list list \<Rightarrow> 'a list" where
  "join_with sep [] = []"
| "join_with sep [p] = p"
| "join_with sep (p # q # ps) = p @ sep @ join_with sep (q # ps)"

lemma split_on_nonempty [simp]: "split_on d xs \<noteq> []"
  by (induction xs) (auto split: list.splits)

lemma split_on_no_sep: "d \<notin> set xs \<Longrightarrow> split_on d xs = [xs]"
  by (induction xs) auto

lemma split_on_append_sep:
  "d \<notin> set xs \<Longrightarrow> split_on d (xs @ d # ys) = xs # split_on d ys"
  by (induction xs) auto

lemma split_on_join:
  assumes "ps \<noteq> []" "\<forall>p \<in> set ps. d \<notin> set p"
  shows "split_on d (join_with [d] ps) = ps"
  using assms
proof (induction "[d]" ps rule: join_with.induct)
  case (3 p q ps)
  then show ?case by (simp add: split_on_append_sep)
qed (simp_all add: split_on_no_sep)

lemma split_on_join_empty [simp]: "split_on d (join_with [d] []) = [[]]"
  by simp

lemma join_split_on: "join_with [d] (split_on d xs) = xs"
proof (induction xs)
  case (Cons x xs)
  obtain p ps where "split_on d xs = p # ps"
    by (cases "split_on d xs") auto
  with Cons show ?case by (cases ps) auto
qed simp

lemma split_on_pieces_no_sep: "p \<in> set (split_on d xs) \<Longrightarrow> d \<notin> set p"
  by (induction xs arbitrary: p) (auto split: if_splits list.splits)

end
