(* ===== verification/Journal.thy ===== *)
theory Journal
  imports Prelude
begin

text \<open>
  Tables that only grow: both databases of the program (the client's registry and the
  server's metadata) are journals of file records. A row is never removed; the current
  record of a path is the row with the largest id among those of its path, which both
  programs select with the same SQL: \<open>id IN (SELECT max(id) .. GROUP BY path)\<close>.

  Ids come from the database engine. It hands out an id above all ids of the table; how
  far above is a parameter (\<open>gap\<close>: always 0 for SQLite's row ids, anything for a
  sequence that skips numbers).
\<close>

section \<open>Ids and the subquery\<close>

definition next_id :: "(int list \<Rightarrow> nat) \<Rightarrow> int list \<Rightarrow> int" where
  "next_id gap ids = fold max ids 0 + 1 + int (gap ids)"

text \<open>\<open>SELECT max(id) FROM rows GROUP BY key\<close>.\<close>

definition max_ids :: "('r \<Rightarrow> int) \<Rightarrow> ('r \<Rightarrow> 'k) \<Rightarrow> 'r list \<Rightarrow> int list" where
  "max_ids rid key rows =
     map (\<lambda>k. Max (set (map rid (filter (\<lambda>r. key r = k) rows)))) (remdups (map key rows))"

lemma fold_max_bounds: "(a::int) \<le> fold max xs a \<and> (\<forall>x \<in> set xs. x \<le> fold max xs a)"
proof (induction xs arbitrary: a)
  case (Cons x xs)
  from Cons.IH [of "max x a"] show ?case by auto
qed simp

lemma next_id_above: "i \<in> set ids \<Longrightarrow> i < next_id gap ids"
  using fold_max_bounds [of 0 ids] by (force simp: next_id_def)

lemma next_id_pos: "0 < next_id gap ids"
  using fold_max_bounds [of 0 ids] by (simp add: next_id_def)

section \<open>The journal and its current rows\<close>

text \<open>The abstract content of a journal: the last row of each key.\<close>

definition latest :: "('r \<Rightarrow> 'k) \<Rightarrow> 'r list \<Rightarrow> 'k \<Rightarrow> 'r option" where
  "latest key rows = map_of (rev (map (\<lambda>r. (key r, r)) rows))"

lemma latest_Nil [simp]: "latest key [] = Map.empty"
  by (simp add: latest_def)

lemma latest_snoc [simp]: "latest key (rows @ [r]) = (latest key rows)(key r \<mapsto> r)"
  by (simp add: latest_def)

lemma latest_append: "latest key (rows @ new) = latest key rows ++ latest key new"
  by (simp add: latest_def)

lemma latest_SomeD: "latest key rows k = Some r \<Longrightarrow> r \<in> set rows \<and> key r = k"
  by (auto simp: latest_def dest!: map_of_SomeD)

lemma latest_None_iff: "latest key rows k = None \<longleftrightarrow> k \<notin> key ` set rows"
  by (force simp: latest_def map_of_eq_None_iff)

lemma dom_latest: "dom (latest key rows) = key ` set rows"
  using latest_None_iff [of key rows] by (auto simp: dom_def)

text \<open>Rewriting rows in place without touching their keys.\<close>

lemma latest_map:
  assumes "\<And>r. key (g r) = key r"
  shows "latest key (map g rows) k = map_option g (latest key rows k)"
  by (induction rows rule: rev_induct) (simp_all add: assms)

definition ids_sorted :: "('r \<Rightarrow> int) \<Rightarrow> 'r list \<Rightarrow> bool" where
  "ids_sorted rid rows \<longleftrightarrow> sorted_wrt (<) (map rid rows)"

lemma ids_sorted_filter: "ids_sorted rid rows \<Longrightarrow> ids_sorted rid (filter P rows)"
  by (simp add: ids_sorted_def sorted_wrt_map sorted_wrt_filter)

lemma ids_sorted_map: "(\<And>r. rid (g r) = rid r) \<Longrightarrow> ids_sorted rid (map g rows) = ids_sorted rid rows"
  by (simp add: ids_sorted_def comp_def)

lemma ids_sorted_inj:
  assumes "ids_sorted rid rows" "r \<in> set rows" "q \<in> set rows" "rid r = rid q"
  shows "r = q"
proof -
  have "distinct (map rid rows)"
    using assms(1) by (simp add: ids_sorted_def strict_sorted_iff)
  with assms(2-4) show ?thesis by (auto simp: distinct_map dest: inj_onD)
qed

lemma latest_is_max:
  assumes "ids_sorted rid rows" "latest key rows k = Some r"
  shows "Max (set (map rid (filter (\<lambda>q. key q = k) rows))) = rid r"
  using assms
proof (induction rows rule: rev_induct)
  case (snoc q rows)
  have sorted: "ids_sorted rid rows" and above: "\<And>p. p \<in> set rows \<Longrightarrow> rid p < rid q"
    using snoc.prems(1) by (auto simp: ids_sorted_def sorted_wrt_append)
  show ?case
  proof (cases "key q = k")
    case True
    with snoc.prems(2) have "r = q" by simp
    with True above show ?thesis by (force intro!: Max_eqI)
  next
    case False
    with snoc.prems(2) snoc.IH [OF sorted] show ?thesis by simp
  qed
qed simp

text \<open>The subquery picks the ids of the current rows.\<close>

lemma set_max_ids:
  assumes "ids_sorted rid rows"
  shows "set (max_ids rid key rows) = rid ` ran (latest key rows)"
proof -
  have "set (max_ids rid key rows) =
      (\<lambda>k. Max (set (map rid (filter (\<lambda>q. key q = k) rows)))) ` dom (latest key rows)"
    by (simp add: max_ids_def dom_latest)
  also have "\<dots> = (\<lambda>k. rid (the (latest key rows k))) ` dom (latest key rows)"
    using latest_is_max [OF assms] by (intro image_cong) auto
  also have "\<dots> = rid ` ran (latest key rows)"
    by (auto simp: ran_def dom_def image_def)
  finally show ?thesis .
qed

lemma max_ids_iff:
  assumes "ids_sorted rid rows" "r \<in> set rows"
  shows "rid r \<in> set (max_ids rid key (filter P rows)) \<longleftrightarrow>
    P r \<and> latest key (filter P rows) (key r) = Some r"
proof -
  have in_rows: "q \<in> set rows" if "latest key (filter P rows) k = Some q" for q k
    using latest_SomeD [OF that] by simp
  have "rid r \<in> rid ` ran (latest key (filter P rows)) \<longleftrightarrow> r \<in> ran (latest key (filter P rows))"
  proof
    assume "rid r \<in> rid ` ran (latest key (filter P rows))"
    then obtain q k where q: "latest key (filter P rows) k = Some q" "rid r = rid q"
      by (auto simp: ran_def)
    have "r = q" using assms(1,2) in_rows [OF q(1)] q(2) by (rule ids_sorted_inj)
    with q(1) show "r \<in> ran (latest key (filter P rows))" by (auto simp: ran_def)
  qed simp
  also have "r \<in> ran (latest key (filter P rows)) \<longleftrightarrow>
      P r \<and> latest key (filter P rows) (key r) = Some r"
  proof
    assume "r \<in> ran (latest key (filter P rows))"
    then obtain k where k: "latest key (filter P rows) k = Some r" by (auto simp: ran_def)
    from latest_SomeD [OF k] have "key r = k" "P r" by simp_all
    with k show "P r \<and> latest key (filter P rows) (key r) = Some r" by simp
  next
    assume "P r \<and> latest key (filter P rows) (key r) = Some r"
    then show "r \<in> ran (latest key (filter P rows))" unfolding ran_def by blast
  qed
  finally show ?thesis
    by (simp only: set_max_ids [OF ids_sorted_filter [OF assms(1)]])
qed

text \<open>
  A query for the current rows with some property, in the order of the ids: it has exactly
  the current rows with that property, each once.
\<close>

definition current :: "('r \<Rightarrow> int) \<Rightarrow> ('r \<Rightarrow> 'k) \<Rightarrow> ('r \<Rightarrow> bool) \<Rightarrow> ('r \<Rightarrow> bool) \<Rightarrow> 'r list \<Rightarrow> 'r list" where
  "current rid key P Q rows =
     filter (\<lambda>r. Q r \<and> rid r \<in> set (max_ids rid key (filter P rows))) rows"

lemma set_current:
  assumes "ids_sorted rid rows"
  shows "set (current rid key P Q rows) = {r. Q r \<and> latest key (filter P rows) (key r) = Some r}"
proof (rule set_eqI)
  fix r
  show "r \<in> set (current rid key P Q rows) \<longleftrightarrow>
      r \<in> {r. Q r \<and> latest key (filter P rows) (key r) = Some r}"
  proof (cases "r \<in> set rows")
    case True
    from max_ids_iff [OF assms this] have
      "rid r \<in> set (max_ids rid key (filter P rows)) \<longleftrightarrow>
        P r \<and> latest key (filter P rows) (key r) = Some r" .
    moreover have "P r" if "latest key (filter P rows) (key r) = Some r"
      using latest_SomeD [OF that] by simp
    ultimately show ?thesis using True unfolding current_def by auto
  next
    case False
    then have "latest key (filter P rows) (key r) \<noteq> Some r"
      using latest_SomeD [of key "filter P rows" "key r" r] by auto
    with False show ?thesis by (simp add: current_def)
  qed
qed

lemma sort_key_current [simp]:
  assumes "ids_sorted rid rows"
  shows "sort_key rid (current rid key P Q rows) = current rid key P Q rows"
proof (rule sort_key_id_if_sorted)
  have "sorted_wrt (<) (map rid (current rid key P Q rows))"
    using ids_sorted_filter [OF assms] by (simp add: current_def ids_sorted_def)
  then show "sorted (map rid (current rid key P Q rows))" by (simp add: strict_sorted_iff)
qed

lemma distinct_keys_current:
  assumes "ids_sorted rid rows"
  shows "distinct (map key (current rid key P Q rows))"
proof -
  have "distinct (map rid (current rid key P Q rows))"
    using ids_sorted_filter [OF assms] by (simp add: current_def ids_sorted_def strict_sorted_iff)
  then have "distinct (current rid key P Q rows)" by (simp add: distinct_map)
  moreover have "inj_on key (set (current rid key P Q rows))"
    unfolding set_current [OF assms]
    by (intro inj_onI) (metis (mono_tags, lifting) mem_Collect_eq option.inject)
  ultimately show ?thesis by (simp add: distinct_map)
qed

section \<open>The interface\<close>

text \<open>
  What a journal's insert promises, whatever is inserted: one new row at the end, made from
  the form with an id above all others.
\<close>

locale journal =
  fixes rid :: "'r \<Rightarrow> int"
    and key :: "'r \<Rightarrow> 'k"
    and make :: "int \<Rightarrow> 'f \<Rightarrow> 'r"
    and ins :: "'f list \<Rightarrow> 'r list \<Rightarrow> 'r list"
    and keyf :: "'f \<Rightarrow> 'k"
  assumes ins_Nil: "ins [] rows = rows"
    and ins_Cons: "\<exists>i. (\<forall>q \<in> set rows. rid q < i) \<and>
      ins (f # fs) rows = ins fs (rows @ [make i f])"
    and rid_make: "rid (make i f) = i"
    and key_make: "key (make i f) = keyf f"
begin

lemma ids_sorted_ins: "ids_sorted rid rows \<Longrightarrow> ids_sorted rid (ins fs rows)"
proof (induction fs arbitrary: rows)
  case (Cons f fs)
  obtain i where i: "\<forall>q \<in> set rows. rid q < i" "ins (f # fs) rows = ins fs (rows @ [make i f])"
    using ins_Cons by blast
  with Cons.prems have "ids_sorted rid (rows @ [make i f])"
    by (auto simp: ids_sorted_def sorted_wrt_append rid_make)
  with Cons.IH i(2) show ?case by metis
qed (simp add: ins_Nil)

lemma ins_appends: "\<exists>new. ins fs rows = rows @ new \<and> list_all2 (\<lambda>f r. \<exists>i. r = make i f) fs new"
proof (induction fs arbitrary: rows)
  case (Cons f fs)
  obtain i where i: "ins (f # fs) rows = ins fs (rows @ [make i f])"
    using ins_Cons by blast
  obtain new where new: "ins fs (rows @ [make i f]) = (rows @ [make i f]) @ new"
    "list_all2 (\<lambda>f r. \<exists>i. r = make i f) fs new"
    using Cons.IH by blast
  have "ins (f # fs) rows = rows @ (make i f # new)" using i new(1) by simp
  moreover have "list_all2 (\<lambda>f r. \<exists>i. r = make i f) (f # fs) (make i f # new)"
    using new(2) by auto
  ultimately show ?case by blast
qed (simp add: ins_Nil)

text \<open>
  Insertion into a part of the table the filter selects: untouched when no form is in that
  part; otherwise each inserted key now shows a row of its form.
\<close>

lemma latest_ins_other:
  assumes "\<And>f i. f \<in> set fs \<Longrightarrow> \<not> P (make i f)"
  shows "filter P (ins fs rows) = filter P rows"
proof -
  obtain new where new: "ins fs rows = rows @ new" "list_all2 (\<lambda>f r. \<exists>i. r = make i f) fs new"
    using ins_appends by blast
  from new(2) assms have "\<forall>r \<in> set new. \<not> P r"
    by (fastforce simp: list_all2_conv_all_nth in_set_conv_nth)
  with new(1) show ?thesis by simp
qed

lemma latest_ins_untouched:
  assumes "k \<notin> keyf ` set fs"
  shows "latest key (filter P (ins fs rows)) k = latest key (filter P rows) k"
proof -
  obtain new where new: "ins fs rows = rows @ new" "list_all2 (\<lambda>f r. \<exists>i. r = make i f) fs new"
    using ins_appends by blast
  from new(2) have "key ` set new \<subseteq> keyf ` set fs"
    by (fastforce simp: list_all2_conv_all_nth in_set_conv_nth key_make image_iff)
  with assms have "k \<notin> key ` set (filter P new)" by auto
  then have "latest key (filter P new) k = None" by (simp only: latest_None_iff not_False_eq_True)
  with new(1) show ?thesis by (simp add: latest_append map_add_def)
qed

lemma latest_ins_touched:
  assumes "distinct (map keyf fs)" "f \<in> set fs" "\<And>f i. f \<in> set fs \<Longrightarrow> P (make i f)"
  shows "\<exists>i. latest key (filter P (ins fs rows)) (keyf f) = Some (make i f)"
proof -
  obtain new where new: "ins fs rows = rows @ new" "list_all2 (\<lambda>f r. \<exists>i. r = make i f) fs new"
    using ins_appends by blast
  have P: "\<forall>r \<in> set new. P r"
    using new(2) assms(3) by (fastforce simp: list_all2_conv_all_nth in_set_conv_nth)
  obtain j where j: "j < length fs" "fs ! j = f" using assms(2) by (auto simp: in_set_conv_nth)
  then obtain i where i: "j < length new" "new ! j = make i f"
    using new(2) by (auto simp: list_all2_conv_all_nth)
  have "map key new = map keyf fs"
    using new(2) by (auto simp: list_all2_conv_all_nth key_make intro!: nth_equalityI)
  then have "distinct (map fst (map (\<lambda>r. (key r, r)) new))"
    using assms(1) by (simp add: comp_def)
  moreover have "(keyf f, make i f) \<in> set (map (\<lambda>r. (key r, r)) new)"
    using i by (force simp: in_set_conv_nth key_make)
  ultimately have "map_of (map (\<lambda>r. (key r, r)) new) (keyf f) = Some (make i f)"
    by (rule map_of_is_SomeI)
  moreover have "latest key new = map_of (map (\<lambda>r. (key r, r)) new)"
    unfolding latest_def
    using \<open>distinct (map fst (map (\<lambda>r. (key r, r)) new))\<close>
    by (subst map_of_inject_set) (simp_all flip: rev_map)
  ultimately have "latest key new (keyf f) = Some (make i f)" by simp
  with new(1) P have "latest key (filter P (ins fs rows)) (keyf f) = Some (make i f)"
    by (simp add: latest_append map_add_def)
  then show ?thesis by (rule exI)
qed

end

text \<open>The engine's insert of a batch of rows, and why it is a journal.\<close>

fun insert_rows :: "(int list \<Rightarrow> nat) \<Rightarrow> ('r \<Rightarrow> int) \<Rightarrow> (int \<Rightarrow> 'f \<Rightarrow> 'r) \<Rightarrow> 'f list \<Rightarrow> 'r list \<Rightarrow> 'r list" where
  "insert_rows gap rid make [] rows = rows"
| "insert_rows gap rid make (f # fs) rows =
     insert_rows gap rid make fs (rows @ [make (next_id gap (map rid rows)) f])"

lemma journal_insert_rows:
  assumes "\<And>i f. rid (make i f) = i" "\<And>i f. key (make i f) = keyf f"
  shows "journal rid key make (insert_rows gap rid make) keyf"
proof
  fix f fs rows
  show "\<exists>i. (\<forall>q \<in> set rows. rid q < i) \<and>
      insert_rows gap rid make (f # fs) rows = insert_rows gap rid make fs (rows @ [make i f])"
    by (rule exI [of _ "next_id gap (map rid rows)"]) (auto intro: next_id_above)
qed (simp_all add: assms)

end
