(* ===== verification/StdText.thy ===== *)
theory StdText
  imports Prelude
begin

text \<open>
  The parts of Rust's standard library on slices and strings that the components use:
  the position of the first matching window of a slice (\<open>windows(n).position(..)\<close>),
  splitting by a string, \<open>str::lines\<close>, \<open>str::trim\<close>, ASCII lower-casing and
  classes, hexadecimal formatting, and validity of UTF-8. All are executable; the lemmas
  on the first matching window are what the multipart parser's correctness rests on.
\<close>

section \<open>First matching window\<close>

fun find_window :: "'a list \<Rightarrow> 'a list \<Rightarrow> nat option" where
  "find_window w [] = (if w = [] then Some 0 else None)"
| "find_window w (x # xs) =
     (if prefix w (x # xs) then Some 0 else map_option Suc (find_window w xs))"

lemma find_window_SomeE:
  assumes "find_window w xs = Some i"
  obtains u v where "xs = u @ w @ v" "length u = i"
proof -
  from assms have "\<exists>u v. xs = u @ w @ v \<and> length u = i"
  proof (induction xs arbitrary: i)
    case Nil
    then show ?case by (simp split: if_splits)
  next
    case (Cons x xs)
    show ?case
    proof (cases "prefix w (x # xs)")
      case True
      with Cons.prems show ?thesis by (auto simp: prefix_def)
    next
      case False
      with Cons.prems obtain j where j: "find_window w xs = Some j" "i = Suc j" by auto
      from Cons.IH [OF j(1)] obtain u v where "xs = u @ w @ v" "length u = j" by blast
      with j(2) have "x # xs = (x # u) @ w @ v \<and> length (x # u) = i" by simp
      then show ?thesis by blast
    qed
  qed
  with that show thesis by blast
qed

lemma find_window_bound: "find_window w xs = Some i \<Longrightarrow> i + length w \<le> length xs"
  by (erule find_window_SomeE) auto

lemma find_window_first:
  "find_window w xs = Some i \<Longrightarrow> j < i \<Longrightarrow> \<not> prefix w (drop j xs)"
proof (induction xs arbitrary: i j)
  case Nil
  then show ?case by (simp split: if_splits)
next
  case (Cons x xs)
  then show ?case by (cases j) (auto split: if_splits)
qed

lemma find_window_None_iff: "find_window w xs = None \<longleftrightarrow> \<not> sublist w xs"
  by (induction xs) (auto simp: sublist_Cons_right)

lemma prefix_append_long:
  "length w \<le> length xs \<Longrightarrow> prefix w (xs @ ys) \<longleftrightarrow> prefix w xs"
  by (metis append_Nil2 prefixI prefix_append prefix_length_prefix)

lemma find_window_append_stable:
  "find_window w xs = Some i \<Longrightarrow> find_window w (xs @ ys) = Some i"
proof (induction xs arbitrary: i)
  case Nil
  then show ?case by (cases ys) (auto split: if_splits)
next
  case (Cons x xs)
  have "length w \<le> length (x # xs)"
    using find_window_bound [OF Cons.prems] by simp
  then have same: "prefix w ((x # xs) @ ys) \<longleftrightarrow> prefix w (x # xs)"
    by (rule prefix_append_long)
  show ?case
  proof (cases "prefix w (x # xs)")
    case True
    with Cons.prems same show ?thesis by simp
  next
    case False
    with Cons.prems obtain j where j: "find_window w xs = Some j" "i = Suc j" by auto
    from Cons.IH [OF j(1)] j(2) False same show ?thesis by simp
  qed
qed

text \<open>
  The first match is where the pattern stands, when the pattern occurs neither in what
  comes before it nor across its start.
\<close>

lemma find_window_at:
  assumes "w \<noteq> []" "\<not> sublist w (p @ butlast w)"
  shows "find_window w (p @ w @ q) = Some (length p)"
  using assms(2)
proof (induction p)
  case Nil
  obtain x xs where "w = x # xs" using assms(1) by (cases w) auto
  then show ?case by simp
next
  case (Cons x p)
  have "\<not> sublist w (p @ butlast w)" using Cons.prems by (auto simp: sublist_Cons_right)
  then have IH: "find_window w (p @ w @ q) = Some (length p)" by (rule Cons.IH)
  have "\<not> prefix w (x # p @ w @ q)"
  proof
    assume pre: "prefix w (x # p @ w @ q)"
    have "x # p @ w @ q = (x # p @ butlast w) @ (last w # q)"
      using assms(1) by (metis append.assoc append_Cons append_Nil append_butlast_last_id)
    moreover have "length w \<le> length (x # p @ butlast w)"
      using assms(1) by (cases w) auto
    ultimately have "prefix w (x # p @ butlast w)"
      using pre prefix_append_long by metis
    then have "sublist w ((x # p) @ butlast w)" by (simp add: prefix_imp_sublist)
    with Cons.prems show False by simp
  qed
  with IH show ?case by simp
qed

lemma find_window_at_start: "w \<noteq> [] \<Longrightarrow> find_window w (w @ q) = Some 0"
  by (cases w) auto

text \<open>A pattern without a given element cannot occur across that element.\<close>

lemma sublist_across:
  assumes "c \<notin> set w" "sublist w (xs @ c # ys)"
  shows "sublist w xs \<or> sublist w ys"
  using assms(2)
proof (induction xs)
  case Nil
  then show ?case using assms(1) by (cases w) (auto simp: sublist_Cons_right)
next
  case (Cons x xs)
  then consider "prefix w (x # xs @ c # ys)" | "sublist w (xs @ c # ys)"
    by (auto simp: sublist_Cons_right)
  then show ?case
  proof cases
    case 1
    then obtain zs where zs: "(x # xs) @ c # ys = w @ zs" by (auto simp: prefix_def)
    have "length w \<le> length (x # xs)"
    proof (rule ccontr)
      assume "\<not> length w \<le> length (x # xs)"
      then have "w ! length (x # xs) = c"
        using zs by (metis linorder_not_le nth_append nth_append_length)
      moreover have "w ! length (x # xs) \<in> set w"
        using \<open>\<not> length w \<le> length (x # xs)\<close> by (intro nth_mem) simp
      ultimately show False using assms(1) by simp
    qed
    then have "prefix w (x # xs)"
      using 1 prefix_append_long [of w "x # xs" "c # ys"] by simp
    then show ?thesis by (simp add: prefix_imp_sublist)
  next
    case 2
    with Cons.IH show ?thesis by (auto simp: sublist_Cons_right)
  qed
qed

lemma sublist_length: "sublist w xs \<Longrightarrow> length w \<le> length xs"
  by (auto simp: sublist_def)

lemma find_window_after_crlf:
  assumes w: "w \<noteq> []" "c \<notin> set w" "d \<notin> set w" and u: "\<not> sublist w u"
  shows "find_window w (u @ [c, d] @ w @ q) = Some (length u + 2)"
proof -
  have "\<not> sublist w ((u @ [c, d]) @ butlast w)"
  proof
    assume "sublist w ((u @ [c, d]) @ butlast w)"
    then have "sublist w (u @ c # (d # butlast w))" by simp
    with w(2) u have "sublist w ([] @ d # butlast w)" by (auto dest: sublist_across)
    with w(3) have "sublist w [] \<or> sublist w (butlast w)" by (intro sublist_across)
    with w(1) show False by (auto dest!: sublist_length) (cases w; simp)
  qed
  from find_window_at [OF w(1) this, of q] show ?thesis by simp
qed

section \<open>Splitting by a string, lines, trimming\<close>

text \<open>\<open>str::split(&str)\<close> for a pattern that is not empty.\<close>

function split_str :: "'a list \<Rightarrow> 'a list \<Rightarrow> 'a list list" where
  "split_str pat s =
     (if pat = [] then [s]
      else (case find_window pat s of
              None \<Rightarrow> [s]
            | Some i \<Rightarrow> take i s # split_str pat (drop (i + length pat) s)))"
  by pat_completeness auto
termination
proof (relation "measure (\<lambda>(pat, s). length s)")
  fix pat s :: "'a list" and i
  assume "pat \<noteq> []" "find_window pat s = Some i"
  moreover from this(2) have "i + length pat \<le> length s" by (rule find_window_bound)
  ultimately show "((pat, drop (i + length pat) s), (pat, s)) \<in> measure (\<lambda>(pat, s). length s)"
    by (cases pat) auto
qed simp

declare split_str.simps [simp del]

lemma split_str_absent: "\<not> sublist pat s \<Longrightarrow> split_str pat s = [s]"
  by (subst split_str.simps) (simp add: find_window_None_iff [THEN iffD2])

lemma split_str_at:
  assumes "pat \<noteq> []" "\<not> sublist pat (p @ butlast pat)"
  shows "split_str pat (p @ pat @ q) = p # split_str pat q"
  using find_window_at [OF assms, of q] assms(1) by (subst split_str.simps) simp

text \<open>\<open>Iterator::nth\<close>.\<close>

definition nth_opt :: "'a list \<Rightarrow> nat \<Rightarrow> 'a option" where
  "nth_opt xs n = (if n < length xs then Some (xs ! n) else None)"

lemma nth_opt_simps [simp]:
  "nth_opt [] n = None"
  "nth_opt (x # xs) 0 = Some x"
  "nth_opt (x # xs) (Suc n) = nth_opt xs n"
  by (simp_all add: nth_opt_def)

text \<open>
  \<open>str::lines\<close>: the terminator of a line is removed, with a carriage return before it;
  an empty last line is not a line.
\<close>

definition LF :: char where "LF = CHR 0x0A"
definition CR :: char where "CR = CHR 0x0D"

definition strip_cr :: "string \<Rightarrow> string" where
  "strip_cr l = (if l \<noteq> [] \<and> last l = CR then butlast l else l)"

definition str_lines :: "string \<Rightarrow> string list" where
  "str_lines s =
     (let ps = split_on LF s in
      map strip_cr (butlast ps) @ (if last ps = [] then [] else [last ps]))"

text \<open>
  \<open>str::trim\<close>: the characters with the Unicode property White_Space, as their UTF-8
  encodings.
\<close>

definition white_space :: "string list" where
  "white_space = map (map char_of)
     ([[9::nat], [10], [11], [12], [13], [32], [0xC2, 0x85], [0xC2, 0xA0], [0xE1, 0x9A, 0x80],
       [0xE2, 0x80, 0xA8], [0xE2, 0x80, 0xA9], [0xE2, 0x80, 0xAF], [0xE2, 0x81, 0x9F],
       [0xE3, 0x80, 0x80]] @ map (\<lambda>i. [0xE2, 0x80, i]) [0x80..<0x8B])"

fun first_match :: "'a list list \<Rightarrow> 'a list \<Rightarrow> nat" where
  "first_match [] s = 0"
| "first_match (w # ws) s = (if prefix w s then length w else first_match ws s)"

fun strip_starts :: "nat \<Rightarrow> string list \<Rightarrow> string \<Rightarrow> string" where
  "strip_starts 0 ws s = s"
| "strip_starts (Suc n) ws s =
     (case first_match ws s of 0 \<Rightarrow> s | k \<Rightarrow> strip_starts n ws (drop k s))"

definition trim :: "string \<Rightarrow> string" where
  "trim s =
     (let t = strip_starts (length s) white_space s in
      rev (strip_starts (length t) (map rev white_space) (rev t)))"

lemma first_match_0: "(\<And>w. w \<in> set ws \<Longrightarrow> \<not> prefix w s) \<Longrightarrow> first_match ws s = 0"
  by (induction ws) auto

text \<open>Text with no white space at either end is left alone.\<close>

definition ws_bytes :: "char list" where
  "ws_bytes = map hd white_space @ map last white_space"

lemma strip_starts_none:
  assumes "\<And>w. w \<in> set ws \<Longrightarrow> w \<noteq> [] \<and> hd w \<noteq> hd s"
  shows "strip_starts n ws s = s"
proof (cases n)
  case (Suc m)
  have "\<not> prefix w s" if "w \<in> set ws" for w
    using assms [OF that] by (auto simp: prefix_def hd_append)
  then show ?thesis using Suc by (simp add: first_match_0)
qed simp

lemma white_space_nonempty: "w \<in> set white_space \<Longrightarrow> w \<noteq> []"
  by (auto simp: white_space_def)

lemma white_space_ends:
  "w \<in> set white_space \<Longrightarrow> hd w \<in> set ws_bytes"
  "w \<in> set white_space \<Longrightarrow> last w \<in> set ws_bytes"
  by (simp_all add: ws_bytes_def)

lemma trim_id:
  assumes "hd s \<notin> set ws_bytes" "last s \<notin> set ws_bytes"
  shows "trim s = s"
proof -
  have "w \<noteq> [] \<and> hd w \<noteq> hd s" if "w \<in> set white_space" for w
    using that assms(1) white_space_nonempty white_space_ends(1) by metis
  then have 1: "strip_starts (length s) white_space s = s" by (rule strip_starts_none)
  have "w \<noteq> [] \<and> hd w \<noteq> hd (rev s)" if "w \<in> set (map rev white_space)" for w
  proof -
    from that obtain v where v: "v \<in> set white_space" "w = rev v" by auto
    then have "hd w = last v" using white_space_nonempty by (simp add: hd_rev)
    with v assms(2) white_space_nonempty white_space_ends(2) show ?thesis
      by (metis hd_rev rev_is_Nil_conv)
  qed
  then have 2: "strip_starts (length s) (map rev white_space) (rev s) = rev s"
    by (rule strip_starts_none)
  show ?thesis by (simp add: trim_def 1 2)
qed

section \<open>ASCII\<close>

definition ascii_lower :: "char \<Rightarrow> char" where
  "ascii_lower c =
     (let n = (of_char c :: nat) in if 65 \<le> n \<and> n \<le> 90 then char_of (n + 32) else c)"

definition to_ascii_lowercase :: "string \<Rightarrow> string" where
  "to_ascii_lowercase s = map ascii_lower s"

definition eq_ignore_ascii_case :: "string \<Rightarrow> string \<Rightarrow> bool" where
  "eq_ignore_ascii_case s t \<longleftrightarrow> to_ascii_lowercase s = to_ascii_lowercase t"

definition is_ascii_alphanumeric :: "char \<Rightarrow> bool" where
  "is_ascii_alphanumeric c \<longleftrightarrow>
     (let n = (of_char c :: nat) in
      (48 \<le> n \<and> n \<le> 57) \<or> (65 \<le> n \<and> n \<le> 90) \<or> (97 \<le> n \<and> n \<le> 122))"

text \<open>\<open>format!("{:x}", ..)\<close> of a byte array: two lower-case digits per byte.\<close>

definition hex_digit :: "nat \<Rightarrow> char" where
  "hex_digit n = (if n < 10 then char_of (48 + n) else char_of (87 + n))"

definition hex_string :: "bytes \<Rightarrow> string" where
  "hex_string bs = concat (map (\<lambda>b. [hex_digit (unat b div 16), hex_digit (unat b mod 16)]) bs)"

lemma length_hex_string [simp]: "length (hex_string bs) = 2 * length bs"
  by (induction bs) (simp_all add: hex_string_def)

lemma hex_digit_alnum: "n < 16 \<Longrightarrow> is_ascii_alphanumeric (hex_digit n)"
  by (auto simp: is_ascii_alphanumeric_def hex_digit_def Let_def)

lemma hex_string_alnum: "\<forall>c \<in> set (hex_string bs). is_ascii_alphanumeric c"
proof -
  have "unat b div 16 < 16" for b :: byte
  proof -
    have "unat b < 256" using unsigned_less [of b] by simp
    then show ?thesis by (simp add: less_mult_imp_div_less)
  qed
  then show ?thesis by (auto simp: hex_string_def intro: hex_digit_alnum)
qed

section \<open>UTF-8 validity\<close>

definition is_cont :: "byte \<Rightarrow> bool" where
  "is_cont b \<longleftrightarrow> 0x80 \<le> b \<and> b \<le> 0xBF"

fun utf8_ok :: "bytes \<Rightarrow> bool" where
  "utf8_ok [] = True"
| "utf8_ok (a # r) =
     (if a < 0x80 then utf8_ok r
      else (case r of
        [] \<Rightarrow> False
      | b # r2 \<Rightarrow>
         if 0xC2 \<le> a \<and> a \<le> 0xDF then is_cont b \<and> utf8_ok r2
         else (case r2 of
           [] \<Rightarrow> False
         | c # r3 \<Rightarrow>
            if 0xE0 \<le> a \<and> a \<le> 0xEF then
              is_cont b \<and> (a = 0xE0 \<longrightarrow> 0xA0 \<le> b) \<and> (a = 0xED \<longrightarrow> b \<le> 0x9F)
              \<and> is_cont c \<and> utf8_ok r3
            else (case r3 of
              [] \<Rightarrow> False
            | d # r4 \<Rightarrow>
               0xF0 \<le> a \<and> a \<le> 0xF4 \<and> is_cont b \<and> (a = 0xF0 \<longrightarrow> 0x90 \<le> b)
               \<and> (a = 0xF4 \<longrightarrow> b \<le> 0x8F) \<and> is_cont c \<and> is_cont d \<and> utf8_ok r4))))"

lemma utf8_ok_ascii: "\<forall>b \<in> set bs. b < 0x80 \<Longrightarrow> utf8_ok bs"
  by (induction bs) auto

lemma utf8_ok_ascii_append: "\<forall>b \<in> set bs. b < 0x80 \<Longrightarrow> utf8_ok (bs @ cs) = utf8_ok cs"
  by (induction bs) auto

lemma of_char_less_128: "(of_char c :: nat) < 128 \<Longrightarrow> (of_char c :: byte) < 0x80"
  by (simp add: word_less_nat_alt)

end
