(* ===== verification/Paths.thy ===== *)
theory Paths
  imports StdText
begin

text \<open>
  Paths as the Rust standard library sees them on Unix (\<open>std::path\<close>), as far as the
  client uses them: a path is the list of its components; \<open>components\<close> parses a
  string, \<open>push_path\<close> is \<open>PathBuf::push\<close>, \<open>parent\<close>, \<open>file_name\<close> and
  \<open>extension\<close> are the methods of \<open>Path\<close>. The second part holds the file-kind
  tests \<open>is_text\<close> and \<open>is_binary\<close> of client/src/chunker.rs.
\<close>

section \<open>Components\<close>

datatype component = RootDir | CurDir | ParentDir | Normal string

type_synonym pathbuf = "component list"

definition SLASH :: char where "SLASH = CHR ''/''"
definition DOT :: char where "DOT = CHR ''.''"

definition segment :: "string \<Rightarrow> pathbuf" where
  "segment s =
     (if s = [] \<or> s = [DOT] then [] else if s = [DOT, DOT] then [ParentDir] else [Normal s])"

definition is_absolute :: "string \<Rightarrow> bool" where
  "is_absolute p \<longleftrightarrow> prefix [SLASH] p"

definition components :: "string \<Rightarrow> pathbuf" where
  "components p =
     (let ps = split_on SLASH p in
      (if is_absolute p then [RootDir]
       else if hd ps = [DOT] then [CurDir] else segment (hd ps)) @ concat (map segment (tl ps)))"

definition push_path :: "pathbuf \<Rightarrow> string \<Rightarrow> pathbuf" where
  "push_path base p =
     (if is_absolute p \<or> base = [] then components p
      else base @ filter (\<lambda>c. c \<noteq> CurDir) (components p))"

definition parent :: "pathbuf \<Rightarrow> pathbuf option" where
  "parent p = (if p = [] \<or> last p = RootDir then None else Some (butlast p))"

definition file_name :: "pathbuf \<Rightarrow> string option" where
  "file_name p = (if p = [] then None else case last p of Normal n \<Rightarrow> Some n | _ \<Rightarrow> None)"

text \<open>
  \<open>rsplit_file_at_dot\<close>: the name before and after the last dot; a name whose only dot
  is its first character has no extension.
\<close>

definition rsplit_at_dot :: "string \<Rightarrow> string option \<times> string" where
  "rsplit_at_dot n =
     (let ps = split_on DOT n in
      if length ps = 1 then (None, n)
      else (Some (join_with [DOT] (butlast ps)), last ps))"

definition extension :: "pathbuf \<Rightarrow> string option" where
  "extension p =
     (case file_name p of
        None \<Rightarrow> None
      | Some n \<Rightarrow>
          (case rsplit_at_dot n of
             (None, _) \<Rightarrow> None
           | (Some before, after) \<Rightarrow> if before = [] then None else Some after))"

text \<open>The string of a relative path: its names joined by the separator.\<close>

definition normal_name :: "component \<Rightarrow> string" where
  "normal_name c =
     (case c of Normal n \<Rightarrow> n | RootDir \<Rightarrow> [] | CurDir \<Rightarrow> [DOT] | ParentDir \<Rightarrow> [DOT, DOT])"

definition path_string :: "pathbuf \<Rightarrow> string" where
  "path_string p = join_with [SLASH] (map normal_name p)"

text \<open>\<open>Path::strip_prefix\<close>.\<close>

definition strip_prefix :: "pathbuf \<Rightarrow> pathbuf \<Rightarrow> pathbuf option" where
  "strip_prefix base p = (if prefix base p then Some (drop (length base) p) else None)"

text \<open>
  A plain relative path: non-empty names without separators, none of them a dot or two
  dots. These are the paths the indexer produces and the server hands back.
\<close>

definition plain_name :: "string \<Rightarrow> bool" where
  "plain_name n \<longleftrightarrow> n \<noteq> [] \<and> n \<noteq> [DOT] \<and> n \<noteq> [DOT, DOT] \<and> SLASH \<notin> set n"

definition plain_path :: "string \<Rightarrow> bool" where
  "plain_path p \<longleftrightarrow> (\<forall>n \<in> set (split_on SLASH p). plain_name n)"

lemma segment_plain [simp]: "plain_name n \<Longrightarrow> segment n = [Normal n]"
  by (simp add: plain_name_def segment_def)

lemma plain_path_not_absolute:
  assumes "plain_path p"
  shows "\<not> is_absolute p"
proof
  assume "is_absolute p"
  then obtain q where "p = SLASH # q" by (auto simp: is_absolute_def prefix_def)
  then have "[] \<in> set (split_on SLASH p)" by simp
  with assms have "plain_name []" by (simp only: plain_path_def)
  then show False by (simp add: plain_name_def)
qed

lemma concat_map_segment_plain:
  "\<forall>n \<in> set ns. plain_name n \<Longrightarrow> concat (map segment ns) = map Normal ns"
  by (induction ns) auto

lemma components_plain:
  assumes "plain_path p"
  shows "components p = map Normal (split_on SLASH p)"
proof -
  obtain n ns where ns: "split_on SLASH p = n # ns"
    by (cases "split_on SLASH p") auto
  with assms have "plain_name n" "\<forall>m \<in> set ns. plain_name m"
    by (auto simp: plain_path_def)
  moreover from this(1) have "n \<noteq> [DOT]" by (simp add: plain_name_def)
  ultimately show ?thesis
    using plain_path_not_absolute [OF assms] ns
    by (simp add: components_def concat_map_segment_plain)
qed

lemma push_path_plain:
  assumes "plain_path p"
  shows "push_path base p = base @ map Normal (split_on SLASH p)"
proof -
  have "filter (\<lambda>c. c \<noteq> CurDir) (map Normal ns) = map Normal ns" for ns
    by (induction ns) simp_all
  then show ?thesis
    using plain_path_not_absolute [OF assms] by (simp add: push_path_def components_plain [OF assms])
qed

lemma push_path_plain_ne: "plain_path p \<Longrightarrow> push_path base p \<noteq> base"
  by (simp add: push_path_plain)

lemma path_string_plain:
  "path_string (map Normal (split_on SLASH p)) = p"
proof -
  have "map normal_name (map Normal ns) = ns" for ns
    by (induction ns) (simp_all add: normal_name_def)
  then show ?thesis by (simp only: path_string_def join_split_on)
qed

lemma push_path_inject:
  assumes "plain_path p" "plain_path q"
  shows "push_path base p = push_path base q \<longleftrightarrow> p = q"
proof
  assume "push_path base p = push_path base q"
  then have "map Normal (split_on SLASH p) = map Normal (split_on SLASH q)"
    using assms by (simp add: push_path_plain)
  then show "p = q" by (metis path_string_plain)
qed simp

lemma parent_push_plain:
  assumes "plain_path p"
  shows "parent (push_path base p) = Some (base @ map Normal (butlast (split_on SLASH p)))"
proof -
  have "last (map Normal (split_on SLASH p)) = Normal (last (split_on SLASH p))"
    by (simp add: last_map)
  then show ?thesis using assms by (simp add: parent_def push_path_plain butlast_append map_butlast)
qed

lemma length_parent: "parent p = Some q \<Longrightarrow> length q < length p"
  by (cases p) (auto simp: parent_def split: if_splits)

section \<open>File kinds\<close>

definition is_binary :: "pathbuf \<Rightarrow> bool" where
  "is_binary p =
     (case extension p of
        Some ext \<Rightarrow>
          (let ext = to_ascii_lowercase ext in ext = ''jpg'' \<or> ext = ''jpeg'' \<or> ext = ''png'')
      | None \<Rightarrow> False)"

definition is_text :: "pathbuf \<Rightarrow> bool" where
  "is_text p =
     ((case file_name p of
         Some n \<Rightarrow> n = ''.shopping-list'' \<or> n = ''.shopping-checked'' \<or> n = ''.bookmarks''
       | None \<Rightarrow> False)
      \<or> (case extension p of
           Some ext \<Rightarrow>
             (let ext = to_ascii_lowercase ext in
              ext = ''cook'' \<or> ext = ''conf'' \<or> ext = ''yaml'' \<or> ext = ''yml'' \<or> ext = ''md''
              \<or> ext = ''menu'' \<or> ext = ''jinja'' \<or> ext = ''j2'')
         | None \<Rightarrow> False))"

lemma is_text_examples:
  "is_text (components ''recipes/dinner.cook'')"
  "is_text (components ''README.MD'')"
  "is_text (components ''a/.shopping-list'')"
  "\<not> is_text (components ''file.unknown'')"
  "\<not> is_text (components ''.cook'')"
  "is_binary (components ''image.JPEG'')"
  "\<not> is_binary (components ''recipe.cook'')"
  by code_simp+

text \<open>No path is of both kinds, so the order of the two tests in \<open>hashify\<close> is free.\<close>

lemma special_name_no_extension:
  "file_name p = Some ''.shopping-list'' \<Longrightarrow> extension p = None"
  "file_name p = Some ''.shopping-checked'' \<Longrightarrow> extension p = None"
  "file_name p = Some ''.bookmarks'' \<Longrightarrow> extension p = None"
proof -
  have "fst (rsplit_at_dot ''.shopping-list'') = Some []"
    "fst (rsplit_at_dot ''.shopping-checked'') = Some []"
    "fst (rsplit_at_dot ''.bookmarks'') = Some []"
    by code_simp+
  then show
    "file_name p = Some ''.shopping-list'' \<Longrightarrow> extension p = None"
    "file_name p = Some ''.shopping-checked'' \<Longrightarrow> extension p = None"
    "file_name p = Some ''.bookmarks'' \<Longrightarrow> extension p = None"
    by (auto simp: extension_def split: prod.splits option.splits)
qed

lemma text_not_binary: "is_text p \<Longrightarrow> \<not> is_binary p"
  by (auto simp: is_text_def is_binary_def Let_def special_name_no_extension
      split: option.splits)

end
