(* ===== verification/World.thy ===== *)
theory World
  imports Paths
begin

text \<open>
  The file system the client works on and its errors. \<open>world\<close> holds the nodes below and
  above the storage root, keyed by path, with the operations of \<open>std::fs\<close> and
  \<open>tokio::fs\<close> the client calls (open, read, create, write, remove a file, make and
  remove directories, metadata). Paths name files lexically: no symbolic links and no
  parent components, which is the contract client/src/chunker.rs states for the paths it
  is given. Faults of the device itself (a full disk, revoked permissions) do not occur in
  the model; every error it does return follows from the tree.
  \<open>sync_error\<close> is the error type of client/src/errors.rs.
\<close>

section \<open>Errors\<close>

datatype io_kind =
    NotFound | AlreadyExists | NotADirectory | IsADirectory | DirectoryNotEmpty
  | OtherIo string

definition io_message :: "io_kind \<Rightarrow> string" where
  "io_message k =
     (case k of
        NotFound \<Rightarrow> ''No such file or directory (os error 2)''
      | AlreadyExists \<Rightarrow> ''File exists (os error 17)''
      | NotADirectory \<Rightarrow> ''Not a directory (os error 20)''
      | IsADirectory \<Rightarrow> ''Is a directory (os error 21)''
      | DirectoryNotEmpty \<Rightarrow> ''Directory not empty (os error 39)''
      | OtherIo m \<Rightarrow> m)"

text \<open>
  Errors of foreign crates are carried as their messages. The file operations below never
  return \<open>OtherIo\<close>; the system can, when a runtime is to be started.
\<close>

datatype sync_error =
    IoError string io_kind
  | IoErrorGeneric io_kind
  | NotifyError string
  | StripPrefix
  | SystemTime
  | Convert
  | DBQueryError string
  | ReqwestError string
  | ChannelSendError string
  | ConnectionInitError string
  | Unauthorized
  | PaymentRequired
  | BodyExtractError
  | GetFromCacheError
  | UnlistedFileFormat string
  | Unknown string
  | BatchDownloadError string

definition from_io_error :: "string \<Rightarrow> io_kind \<Rightarrow> sync_error" where
  "from_io_error path e = IoError path e"

definition display_error :: "sync_error \<Rightarrow> string" where
  "display_error e =
     (case e of
        IoError path k \<Rightarrow> ''IO error in file '' @ path @ '': '' @ io_message k
      | IoErrorGeneric k \<Rightarrow> ''IO error '' @ io_message k
      | NotifyError m \<Rightarrow> ''Notify error '' @ m
      | StripPrefix \<Rightarrow> ''Strip prefix error prefix not found''
      | SystemTime \<Rightarrow> ''System time error second time provided was later than self''
      | Convert \<Rightarrow> ''Conversion error out of range integral type conversion attempted''
      | DBQueryError m \<Rightarrow> ''Database query error '' @ m
      | ReqwestError m \<Rightarrow> ''Reqwest error '' @ m
      | ChannelSendError m \<Rightarrow> ''Error sending value to a channel '' @ m
      | ConnectionInitError m \<Rightarrow> ''Connection init error '' @ m
      | Unauthorized \<Rightarrow> ''Unauthorized token''
      | PaymentRequired \<Rightarrow> ''Sync requires a paid plan''
      | BodyExtractError \<Rightarrow> ''Can'' @ [CHR 0x27] @ ''t parse the response''
      | GetFromCacheError \<Rightarrow> ''Can'' @ [CHR 0x27] @ ''t find in cache''
      | UnlistedFileFormat f \<Rightarrow> ''Unlisted file format '' @ f
      | Unknown m \<Rightarrow> ''Unknown error: '' @ m
      | BatchDownloadError m \<Rightarrow> ''Batch download error '' @ m)"

section \<open>The file tree\<close>

datatype timestamp = Timestamp (unix_seconds: int) (nanosecond: nat)

datatype node = File bytes timestamp | Dir

record world =
  files :: "(pathbuf \<times> node) list"
  dir_meta :: "pathbuf \<Rightarrow> nat \<times> timestamp"
  clock :: timestamp

definition node_at :: "'z world_scheme \<Rightarrow> pathbuf \<Rightarrow> node option" where
  "node_at w p = map_of (files w) p"

definition dir_at :: "'z world_scheme \<Rightarrow> pathbuf \<Rightarrow> bool" where
  "dir_at w p \<longleftrightarrow> p = [] \<or> node_at w p = Some Dir"

definition content_at :: "'z world_scheme \<Rightarrow> pathbuf \<Rightarrow> bytes option" where
  "content_at w p = (case node_at w p of Some (File b t) \<Rightarrow> Some b | _ \<Rightarrow> None)"

definition put_node :: "pathbuf \<Rightarrow> node \<Rightarrow> 'z world_scheme \<Rightarrow> 'z world_scheme" where
  "put_node p n w = w\<lparr>files := AList.update p n (files w)\<rparr>"

definition drop_node :: "pathbuf \<Rightarrow> 'z world_scheme \<Rightarrow> 'z world_scheme" where
  "drop_node p w = w\<lparr>files := AList.delete p (files w)\<rparr>"

lemma node_at_put [simp]: "node_at (put_node p n w) q = (if q = p then Some n else node_at w q)"
  by (simp add: node_at_def put_node_def update_conv')

lemma node_at_drop [simp]: "node_at (drop_node p w) q = (if q = p then None else node_at w q)"
  by (simp add: node_at_def drop_node_def delete_conv')

lemma put_node_fields [simp]:
  "dir_meta (put_node p n w) = dir_meta w" "clock (put_node p n w) = clock w"
  "world.more (put_node p n w) = world.more w"
  by (simp_all add: put_node_def)

lemma drop_node_fields [simp]:
  "dir_meta (drop_node p w) = dir_meta w" "clock (drop_node p w) = clock w"
  "world.more (drop_node p w) = world.more w"
  by (simp_all add: drop_node_def)

definition has_child :: "'z world_scheme \<Rightarrow> pathbuf \<Rightarrow> bool" where
  "has_child w p = list_ex (\<lambda>(q, n). q \<noteq> [] \<and> butlast q = p) (files w)"

lemma has_child_iff: "has_child w p \<longleftrightarrow> (\<exists>c. node_at w (p @ [c]) \<noteq> None)"
proof
  assume "has_child w p"
  then obtain q n where "(q, n) \<in> set (files w)" "q \<noteq> []" "butlast q = p"
    by (auto simp: has_child_def list_ex_iff)
  then have "p @ [last q] \<in> fst ` set (files w)"
    by (metis append_butlast_last_id fst_conv image_eqI)
  then show "\<exists>c. node_at w (p @ [c]) \<noteq> None"
    by (auto simp: node_at_def map_of_eq_None_iff)
next
  assume "\<exists>c. node_at w (p @ [c]) \<noteq> None"
  then obtain c n where "(p @ [c], n) \<in> set (files w)"
    by (auto simp: node_at_def dest: map_of_SomeD)
  then show "has_child w p"
    by (force simp: has_child_def list_ex_iff)
qed

section \<open>Operations\<close>

type_synonym ('z, 'a) io = "('z world_scheme, io_kind, 'a) prog"

text \<open>The error of a lookup that finds nothing: an ancestor may be a file.\<close>

definition missing_kind :: "'z world_scheme \<Rightarrow> pathbuf \<Rightarrow> io_kind" where
  "missing_kind w p =
     (if list_ex (\<lambda>q. content_at w q \<noteq> None) (butlast (prefixes p)) then NotADirectory
      else NotFound)"

definition exists_path :: "pathbuf \<Rightarrow> 'z world_scheme \<Rightarrow> bool" where
  "exists_path p w \<longleftrightarrow> node_at w p \<noteq> None"

text \<open>
  \<open>File::open\<close> succeeds on a directory; reading from it is what fails.
\<close>

definition open_file :: "pathbuf \<Rightarrow> ('z, node) io" where
  "open_file p = (\<lambda>w. case node_at w p of
     None \<Rightarrow> (Err (missing_kind w p), w)
   | Some n \<Rightarrow> (Ok n, w))"

definition read_handle :: "node \<Rightarrow> ('z, bytes) io" where
  "read_handle n = (case n of File b t \<Rightarrow> ret b | Dir \<Rightarrow> throw IsADirectory)"

definition create_file :: "pathbuf \<Rightarrow> ('z, unit) io" where
  "create_file p = (\<lambda>w.
     if node_at w p = Some Dir then (Err IsADirectory, w)
     else (case parent p of
             None \<Rightarrow> (Err NotFound, w)
           | Some d \<Rightarrow>
               if dir_at w d then (Ok (), put_node p (File [] (clock w)) w)
               else (Err (missing_kind w p), w)))"

definition write_file :: "pathbuf \<Rightarrow> bytes \<Rightarrow> 'z world_scheme \<Rightarrow> 'z world_scheme" where
  "write_file p b w = put_node p (File b (clock w)) w"

fun make_dirs :: "pathbuf list \<Rightarrow> ('z, unit) io" where
  "make_dirs [] = ret ()"
| "make_dirs (q # qs) = (\<lambda>w. case node_at w q of
     None \<Rightarrow> make_dirs qs (put_node q Dir w)
   | Some Dir \<Rightarrow> make_dirs qs w
   | Some (File b t) \<Rightarrow> (Err (if qs = [] then AlreadyExists else NotADirectory), w))"

definition create_dir_all :: "pathbuf \<Rightarrow> ('z, unit) io" where
  "create_dir_all p = make_dirs (tl (prefixes p))"

definition remove_file :: "pathbuf \<Rightarrow> ('z, unit) io" where
  "remove_file p = (\<lambda>w. case node_at w p of
     None \<Rightarrow> (Err (missing_kind w p), w)
   | Some Dir \<Rightarrow> (Err IsADirectory, w)
   | Some (File b t) \<Rightarrow> (Ok (), drop_node p w))"

definition remove_dir :: "pathbuf \<Rightarrow> ('z, unit) io" where
  "remove_dir p = (\<lambda>w. case node_at w p of
     None \<Rightarrow> (Err (missing_kind w p), w)
   | Some (File b t) \<Rightarrow> (Err NotADirectory, w)
   | Some Dir \<Rightarrow> if has_child w p then (Err DirectoryNotEmpty, w) else (Ok (), drop_node p w))"

definition metadata :: "pathbuf \<Rightarrow> ('z, nat \<times> timestamp) io" where
  "metadata p = (\<lambda>w. case node_at w p of
     None \<Rightarrow> (Err (missing_kind w p), w)
   | Some (File b t) \<Rightarrow> (Ok (length b, t), w)
   | Some Dir \<Rightarrow> (Ok (dir_meta w p), w))"

text \<open>A well-formed tree: whatever exists stands in an existing directory.\<close>

definition wf_world :: "'z world_scheme \<Rightarrow> bool" where
  "wf_world w \<longleftrightarrow> (\<forall>p n. node_at w p = Some n \<longrightarrow> p \<noteq> [] \<and> dir_at w (butlast p))"

lemma wf_worldD: "wf_world w \<Longrightarrow> node_at w p = Some n \<Longrightarrow> p \<noteq> [] \<and> dir_at w (butlast p)"
  by (simp add: wf_world_def)

text \<open>In a well-formed tree every proper prefix of an existing path is a directory.\<close>

lemma wf_world_ancestors:
  assumes "wf_world w"
  shows "node_at w (p @ q) = Some n \<Longrightarrow> q \<noteq> [] \<Longrightarrow> dir_at w p"
proof (induction q arbitrary: n rule: rev_induct)
  case (snoc c q)
  have d: "dir_at w (p @ q)"
    using wf_worldD [OF assms snoc.prems(1)] by (simp flip: append_assoc)
  show ?case
  proof (cases "q = []")
    case True
    with d show ?thesis by simp
  next
    case False
    with d have "node_at w (p @ q) = Some Dir" by (simp add: dir_at_def)
    then show ?thesis using False by (rule snoc.IH)
  qed
qed simp

end
