(* ===== verification/Http.thy ===== *)
theory Http
  imports StdText
begin

text \<open>
  HTTP messages as both sides see them: a request, a response with its status and content
  type, and a body as the pieces in which it is delivered. Shared by the client's
  \<open>Remote\<close> and by the server.
\<close>

datatype http_method = GET | POST

record request =
  req_method :: http_method
  req_url :: string
  req_headers :: "(string \<times> string) list"
  req_body :: bytes

datatype stream_item = Data bytes | Broken string

record response =
  resp_status :: nat
  resp_content_type :: "string option"
  resp_body :: "stream_item list"

text \<open>The body of a response as a whole; a failure on the way is an error.\<close>

fun whole_body :: "stream_item list \<Rightarrow> (string, bytes) res" where
  "whole_body [] = Ok []"
| "whole_body (Data b # r) = (case whole_body r of Ok c \<Rightarrow> Ok (b @ c) | Err e \<Rightarrow> Err e | Panic \<Rightarrow> Panic)"
| "whole_body (Broken e # r) = Err e"

lemma whole_body_append:
  "whole_body (xs @ ys) = (case whole_body xs of
     Ok b \<Rightarrow> (case whole_body ys of Ok c \<Rightarrow> Ok (b @ c) | Err e \<Rightarrow> Err e | Panic \<Rightarrow> Panic)
   | Err e \<Rightarrow> Err e | Panic \<Rightarrow> Panic)"
  by (induction xs rule: whole_body.induct) (auto split: res.splits)

lemma whole_body_Data [simp]: "whole_body (map Data bs) = Ok (concat bs)"
  by (induction bs) auto

lemma whole_body_OkD: "whole_body items = Ok b \<Longrightarrow> \<exists>bs. items = map Data bs \<and> b = concat bs"
proof (induction items arbitrary: b rule: whole_body.induct)
  case (2 c r)
  then obtain d where "whole_body r = Ok d" "b = c @ d" by (auto split: res.splits)
  with 2 obtain bs where "r = map Data bs" "d = concat bs" by blast
  with \<open>b = c @ d\<close> have "Data c # r = map Data (c # bs) \<and> b = concat (c # bs)" by simp
  then show ?case by (rule exI [of _ "c # bs"])
qed auto

end
