(* ===== verification/ChunkStore.thy ===== *)
theory ChunkStore
  imports World Http
begin

text \<open>
  The server's chunk storage: server/src/chunk_id.rs (where the chunk of an id is stored)
  and server/src/chunks (the upload, retrieve and download handlers and the multipart
  response). The state is the server's file tree.

  Parameters (\<open>store_env\<close>): the environment variable with the upload directory; the multer
  crate's parser, as the list of fields it yields for a boundary and a stream, each with the
  pieces it delivers and whether it came to its end; \<open>parse_boundary\<close>; form decoding; and
  which writes to a file fail.
\<close>

section \<open>Chunk ids\<close>

definition char_boundary :: "string \<Rightarrow> nat \<Rightarrow> bool" where
  "char_boundary s i \<longleftrightarrow> i = length s \<or> (i < length s \<and> \<not> is_cont (of_char (s ! i)))"

text \<open>
  \<open>ChunkId::file_path\<close>. Slicing a string inside a character panics.
\<close>

definition file_path :: "string option \<Rightarrow> string \<Rightarrow> ('e, pathbuf) res" where
  "file_path upload_dir id_str =
     (let root = components (case upload_dir of Some d \<Rightarrow> d | None \<Rightarrow> ''./upload'') in
      if length id_str < 2 then Ok (push_path (push_path root ''null'') id_str)
      else if \<not> char_boundary id_str 1 \<or> \<not> char_boundary id_str 2 then Panic
      else Ok (push_path (push_path (push_path root (take 1 id_str)) (take 1 (drop 1 id_str))) id_str))"

definition is_present :: "string option \<Rightarrow> string \<Rightarrow> 'z world_scheme \<Rightarrow> ('e, bool) res" where
  "is_present upload_dir chunk w =
     (if chunk = [] then Ok True
      else (case file_path upload_dir chunk of
              Ok p \<Rightarrow> Ok (exists_path p w) | Err e \<Rightarrow> Err e | Panic \<Rightarrow> Panic))"

definition from_param :: "string \<Rightarrow> (string, string) res" where
  "from_param param = (if list_all is_ascii_alphanumeric param then Ok param else Err param)"

section \<open>Request bodies\<close>

definition DATA_FORM_LIMIT :: nat where "DATA_FORM_LIMIT = 5 * 1024 * 1024"
definition FORM_LIMIT :: nat where "FORM_LIMIT = 1024 * 1024"
definition MULTIPART_FORM_DATA :: string where "MULTIPART_FORM_DATA = ''multipart/form-data''"
definition URLENCODED_FORM :: string where "URLENCODED_FORM = ''application/x-www-form-urlencoded''"

text \<open>\<open>capped_data_stream\<close>: the stream ends, without an error, at the limit.\<close>

fun capped_data_stream :: "nat \<Rightarrow> nat \<Rightarrow> stream_item list \<Rightarrow> stream_item list" where
  "capped_data_stream limit seen [] = []"
| "capped_data_stream limit seen (Broken e # r) = [Broken e]"
| "capped_data_stream limit seen (Data b # r) =
     (let remaining = limit - seen in
      if remaining \<le> length b then [Data (take remaining b)]
      else Data b # capped_data_stream limit (seen + length b) r)"

record field =
  field_name :: "string option"
  field_pieces :: "bytes list"
  field_complete :: bool

record store_env =
  upload_dir :: "string option"
  multer :: "string \<Rightarrow> stream_item list \<Rightarrow> field list"
  parse_boundary :: "string \<Rightarrow> string option"
  form_decode :: "bytes \<Rightarrow> (string \<times> string) list option"
  write_fails :: "pathbuf \<Rightarrow> nat \<Rightarrow> bool"

datatype chunk_error = UnmatchedFormat | Io io_kind

type_synonym ('z, 'a) handler = "('z world_scheme, chunk_error, 'a) prog"

section \<open>Upload\<close>

text \<open>
  Writing the pieces of a field. A failed write removes the file and is otherwise ignored:
  the loop goes on, writing to a file that is no longer in the tree (\<open>linked\<close> is false).
\<close>

fun write_pieces ::
    "store_env \<Rightarrow> pathbuf \<Rightarrow> bytes list \<Rightarrow> nat \<Rightarrow> bytes \<Rightarrow> bool \<Rightarrow> 'z world_scheme \<Rightarrow> 'z world_scheme" where
  "write_pieces x p [] n written linked w = w"
| "write_pieces x p (b # bs) n written linked w =
     (if write_fails x p n then
        write_pieces x p bs (Suc n) written False (if linked then snd (remove_file p w) else w)
      else
        write_pieces x p bs (Suc n) (written @ b) linked
          (if linked then write_file p (written @ b) w else w))"

definition store_field :: "store_env \<Rightarrow> field \<Rightarrow> ('z, unit) handler" where
  "store_field x f =
     (case field_name f of
        None \<Rightarrow> panic
      | Some chunk_id \<Rightarrow>
          if chunk_id = [] then ret ()
          else
            and_then (lift_res (file_path (upload_dir x) chunk_id)) (\<lambda>full_path.
            and_then (case parent full_path of
                        Some d \<Rightarrow> map_err Io (create_dir_all d) | None \<Rightarrow> ret ()) (\<lambda>_.
            and_then (map_err Io (create_file full_path)) (\<lambda>_ w.
              (let w' = write_pieces x full_path (field_pieces f) 0 [] True w in
               if field_complete f then (Ok (), w') else (Panic, snd (remove_file full_path w')))))))"

definition upload_chunks :: "store_env \<Rightarrow> string \<Rightarrow> stream_item list \<Rightarrow> ('z, unit) handler" where
  "upload_chunks x content_type body =
     (if \<not> prefix MULTIPART_FORM_DATA content_type then throw UnmatchedFormat
      else (case parse_boundary x content_type of
              None \<Rightarrow> panic
            | Some boundary \<Rightarrow>
                for_each (store_field x) (multer x boundary (capped_data_stream DATA_FORM_LIMIT 0 body))))"

text \<open>The deprecated route's handler has the same body.\<close>

definition upload_chunks_deprecated :: "store_env \<Rightarrow> string \<Rightarrow> stream_item list \<Rightarrow> ('z, unit) handler" where
  "upload_chunks_deprecated x content_type body =
     (if \<not> prefix MULTIPART_FORM_DATA content_type then throw UnmatchedFormat
      else (case parse_boundary x content_type of
              None \<Rightarrow> panic
            | Some boundary \<Rightarrow>
                for_each (store_field x) (multer x boundary (capped_data_stream DATA_FORM_LIMIT 0 body))))"

section \<open>Retrieve and download\<close>

definition plain_response :: "nat \<Rightarrow> response" where
  "plain_response status = \<lparr>resp_status = status, resp_content_type = None, resp_body = []\<rparr>"

text \<open>The stream of an open file; reading a directory fails.\<close>

definition reader_stream :: "node \<Rightarrow> stream_item list" where
  "reader_stream n = (case n of File b t \<Rightarrow> [Data b] | Dir \<Rightarrow> [Broken (io_message IsADirectory)])"

definition retrieve :: "store_env \<Rightarrow> string \<Rightarrow> 'z world_scheme \<Rightarrow> (chunk_error, response) res" where
  "retrieve x chunk w =
     (case from_param chunk of
        Ok c \<Rightarrow>
          if c = [] then Ok (plain_response 404)
          else (case file_path (upload_dir x) c of
                  Ok p \<Rightarrow>
                    (case open_file p w of
                       (Ok n, _) \<Rightarrow> Ok \<lparr>resp_status = 200,
                         resp_content_type = Some ''text/plain; charset=utf-8'',
                         resp_body = reader_stream n\<rparr>
                     | (_, _) \<Rightarrow> Ok (plain_response 404))
                | Err e \<Rightarrow> Err e | Panic \<Rightarrow> Panic)
      | _ \<Rightarrow> Ok (plain_response 422))"

fun chunk_paths :: "store_env \<Rightarrow> (string \<times> string) list \<Rightarrow> (chunk_error, (string \<times> pathbuf) list) res" where
  "chunk_paths x [] = Ok []"
| "chunk_paths x ((key, value) # r) =
     (case file_path (upload_dir x) value of
        Ok p \<Rightarrow> (case chunk_paths x r of
                  Ok ps \<Rightarrow> Ok ((value, p) # ps) | Err e \<Rightarrow> Err e | Panic \<Rightarrow> Panic)
      | Err e \<Rightarrow> Err e | Panic \<Rightarrow> Panic)"

definition requested_chunks :: "store_env \<Rightarrow> bytes \<Rightarrow> (chunk_error, (string \<times> pathbuf) list) res" where
  "requested_chunks x body =
     chunk_paths x (case form_decode x body of Some pairs \<Rightarrow> pairs | None \<Rightarrow> [])"

definition SECTION_CONTENT_TYPE :: string where
  "SECTION_CONTENT_TYPE = ''text/plain; charset=utf-8''"

definition BOUNDARY_LEN :: nat where "BOUNDARY_LEN = 15"

record multipart_mixed =
  mm_boundary :: string
  mm_chunks :: "(string \<times> pathbuf) list"

text \<open>\<open>new_random\<close>: the boundary is the first 15 characters of a random stream.\<close>

definition new_random :: "(nat \<Rightarrow> char) \<Rightarrow> (string \<times> pathbuf) list \<Rightarrow> multipart_mixed" where
  "new_random rng chunks = \<lparr>mm_boundary = map rng [0..<BOUNDARY_LEN], mm_chunks = chunks\<rparr>"

definition section_header :: "string \<Rightarrow> string \<Rightarrow> bytes" where
  "section_header boundary chunk_id =
     to_bytes ([CR, LF] @ ''--'' @ boundary @ [CR, LF] @ ''Content-Type: '' @ SECTION_CONTENT_TYPE
       @ [CR, LF] @ ''X-Chunk-ID: '' @ chunk_id @ [CR, LF, CR, LF])"

definition closing :: "string \<Rightarrow> bytes" where
  "closing boundary = to_bytes ([CR, LF] @ ''--'' @ boundary @ ''--'' @ [CR, LF])"

text \<open>
  The response's stream. A file that is not there is a panic inside the stream: what was
  yielded before has been sent, then the connection breaks.
\<close>

fun section_stream :: "string \<Rightarrow> (string \<times> pathbuf) list \<Rightarrow> 'z world_scheme \<Rightarrow> stream_item list" where
  "section_stream boundary [] w = [Data (closing boundary)]"
| "section_stream boundary ((chunk_id, p) # r) w =
     (case open_file p w of
        (Ok n, _) \<Rightarrow>
          Data (section_header boundary chunk_id) # reader_stream n @
            (case n of File b t \<Rightarrow> section_stream boundary r w | Dir \<Rightarrow> [])
      | (_, _) \<Rightarrow> [Broken ''file present''])"

definition multipart_response :: "multipart_mixed \<Rightarrow> 'z world_scheme \<Rightarrow> response" where
  "multipart_response m w =
     \<lparr>resp_status = 200,
      resp_content_type = Some (''multipart/mixed; boundary='' @ mm_boundary m),
      resp_body = section_stream (mm_boundary m) (mm_chunks m) w\<rparr>"

definition download_chunks ::
    "store_env \<Rightarrow> (nat \<Rightarrow> char) \<Rightarrow> string \<Rightarrow> bytes \<Rightarrow> (chunk_error, multipart_mixed) res" where
  "download_chunks x rng content_type body =
     (if \<not> prefix URLENCODED_FORM content_type then Err UnmatchedFormat
      else (case requested_chunks x body of
              Ok chunks \<Rightarrow> Ok (new_random rng chunks) | Err e \<Rightarrow> Err e | Panic \<Rightarrow> Panic))"

definition error_status :: "chunk_error \<Rightarrow> nat" where
  "error_status e = (case e of UnmatchedFormat \<Rightarrow> 404 | Io _ \<Rightarrow> 500)"

end
