(* ===== verification/Metadata.thy ===== *)
theory Metadata
  imports Journal ChunkStore "HOL-Library.Multiset"
begin

text \<open>
  server/src/metadata: the journal of committed file records, the handlers that commit, list
  and look for files, and the notification of clients that are polling. \<open>server\<close> is the
  whole state of the server: the file tree with the chunks, the rows of the database and the
  notifier.

  Parameters: the gaps the engine leaves between ids, and the order in which a query without
  ORDER BY returns its rows (\<open>row_order\<close>). Integers are unbounded (\<open>i32\<close> in the code).
\<close>

section \<open>The database\<close>

record server_record =
  sr_id :: int
  sr_user_id :: int
  sr_chunk_ids :: string
  sr_deleted :: bool
  sr_path :: string

record new_file_record =
  nf_user_id :: int
  nf_chunk_ids :: string
  nf_deleted :: bool
  nf_path :: string

definition inserted_row :: "int \<Rightarrow> new_file_record \<Rightarrow> server_record" where
  "inserted_row i f =
     \<lparr>sr_id = i, sr_user_id = nf_user_id f, sr_chunk_ids = nf_chunk_ids f,
      sr_deleted = nf_deleted f, sr_path = nf_path f\<rparr>"

definition insert_records ::
    "(int list \<Rightarrow> nat) \<Rightarrow> new_file_record list \<Rightarrow> server_record list \<Rightarrow> server_record list" where
  "insert_records gap fs rows = insert_rows gap sr_id inserted_row fs rows"

definition insert_new_record ::
    "(int list \<Rightarrow> nat) \<Rightarrow> new_file_record \<Rightarrow> server_record list \<Rightarrow> int \<times> server_record list" where
  "insert_new_record gap f rows = (next_id gap (map sr_id rows), insert_records gap [f] rows)"

text \<open>\<open>ORDER BY id DESC\<close>, first row.\<close>

definition latest_for_path :: "int \<Rightarrow> string \<Rightarrow> server_record list \<Rightarrow> server_record option" where
  "latest_for_path user p rows =
     (case sort_key (\<lambda>r. - sr_id r) (filter (\<lambda>r. sr_user_id r = user \<and> sr_path r = p) rows) of
        [] \<Rightarrow> None | r # _ \<Rightarrow> Some r)"

definition db_has_files :: "int \<Rightarrow> server_record list \<Rightarrow> bool" where
  "db_has_files user rows =
     (let subquery = max_ids sr_id sr_path (filter (\<lambda>r. sr_user_id r = user) rows);
          count = length (filter (\<lambda>r. sr_id r \<in> set subquery \<and> \<not> sr_deleted r) rows)
      in 0 < count)"

definition db_list ::
    "(server_record list \<Rightarrow> server_record list) \<Rightarrow> int \<Rightarrow> int \<Rightarrow> server_record list \<Rightarrow> server_record list" where
  "db_list row_order user after rows =
     (let subquery = max_ids sr_id sr_path (filter (\<lambda>r. sr_user_id r = user) rows) in
      row_order (filter (\<lambda>r. after < sr_id r \<and> sr_id r \<in> set subquery) rows))"

section \<open>Notifications\<close>

text \<open>
  \<open>ActiveClients\<close>: a map (an association list) from client ids to shared notification
  objects. An object is a number; \<open>fired\<close> are the objects that have been notified;
  \<open>fresh\<close> numbers are unused.
\<close>

record notifier =
  clients :: "(string \<times> nat) list"
  fired :: "nat set"
  fresh :: nat

definition active :: "notifier \<Rightarrow> string \<rightharpoonup> nat" where
  "active n = map_of (clients n)"

definition register :: "string \<Rightarrow> notifier \<Rightarrow> nat \<times> notifier" where
  "register uid n =
     (case active n uid of
        Some k \<Rightarrow> (k, n)
      | None \<Rightarrow> (fresh n, n\<lparr>clients := AList.update uid (fresh n) (clients n), fresh := Suc (fresh n)\<rparr>))"

definition unregister :: "string \<Rightarrow> notifier \<Rightarrow> notifier" where
  "unregister uid n = n\<lparr>clients := AList.delete uid (clients n)\<rparr>"

definition notify :: "string \<Rightarrow> notifier \<Rightarrow> notifier" where
  "notify uid n =
     n\<lparr>fired := fired n \<union> set (map (\<lambda>c. the (active n c)) (filter (\<lambda>c. c \<noteq> uid) (map fst (clients n))))\<rparr>"

lemma fired_notify:
  "fired (notify uid n) = fired n \<union> {k. \<exists>c. c \<noteq> uid \<and> active n c = Some k}"
proof -
  have dom: "c \<in> fst ` set (clients n) \<longleftrightarrow> (\<exists>k. active n c = Some k)" for c
    using map_of_eq_None_iff [of "clients n" c] by (auto simp: active_def)
  have "set (map (\<lambda>c. the (active n c)) (filter (\<lambda>c. c \<noteq> uid) (map fst (clients n)))) =
      (\<lambda>c. the (active n c)) ` {c. c \<noteq> uid \<and> c \<in> fst ` set (clients n)}" by auto
  also have "\<dots> = {k. \<exists>c. c \<noteq> uid \<and> active n c = Some k}"
    unfolding dom by force
  finally show ?thesis by (simp add: notify_def)
qed

lemma active_register [simp]: "active (n\<lparr>clients := AList.update u k (clients n), fresh := m\<rparr>) = (active n)(u \<mapsto> k)"
  by (simp add: active_def update_conv')

lemma active_unregister [simp]: "active (unregister u n) = (active n)(u := None)"
  by (simp add: active_def unregister_def delete_conv')

lemma active_fired [simp]: "active (n\<lparr>fired := f\<rparr>) = active n"
  by (simp add: active_def)

lemma notify_fields [simp]: "active (notify u n) = active n" "fresh (notify u n) = fresh n"
  by (simp_all add: notify_def)

lemma unregister_fields [simp]: "fired (unregister u n) = fired n" "fresh (unregister u n) = fresh n"
  by (simp_all add: unregister_def)

definition MAX_POLL_SECONDS :: "64 word" where "MAX_POLL_SECONDS = 120"

definition clamp_poll_seconds :: "64 word \<Rightarrow> 64 word" where
  "clamp_poll_seconds seconds = min seconds MAX_POLL_SECONDS"

section \<open>Handlers\<close>

record server = world +
  rows :: "server_record list"
  notifier :: notifier

record commit_payload =
  cp_path :: string
  cp_deleted :: bool
  cp_chunk_ids :: string

datatype commit_status = CommitSuccess int | CommitNeedChunks string

record metadata_env =
  gap :: "int list \<Rightarrow> nat"
  row_order :: "server_record list \<Rightarrow> server_record list"

definition COMMA :: char where "COMMA = CHR '',''"

text \<open>\<open>non_local_chunks\<close>: the ids that are not stored; asking for one may panic.\<close>

fun missing_ids :: "string option \<Rightarrow> string list \<Rightarrow> 'z world_scheme \<Rightarrow> ('e, string list) res" where
  "missing_ids d [] w = Ok []"
| "missing_ids d (c # cs) w =
     (case is_present d c w of
        Ok here \<Rightarrow>
          (case missing_ids d cs w of
             Ok ms \<Rightarrow> Ok (if here then ms else c # ms) | Err e \<Rightarrow> Err e | Panic \<Rightarrow> Panic)
      | Err e \<Rightarrow> Err e | Panic \<Rightarrow> Panic)"

definition non_local_chunks :: "string option \<Rightarrow> commit_payload \<Rightarrow> 'z world_scheme \<Rightarrow> ('e, string list) res" where
  "non_local_chunks d p w = missing_ids d (split_on COMMA (cp_chunk_ids p)) w"

definition from_payload_and_user_id :: "commit_payload \<Rightarrow> int \<Rightarrow> new_file_record" where
  "from_payload_and_user_id p user =
     \<lparr>nf_user_id = user, nf_chunk_ids = cp_chunk_ids p, nf_deleted = cp_deleted p, nf_path = cp_path p\<rparr>"

definition commit_handler ::
    "store_env \<Rightarrow> metadata_env \<Rightarrow> int \<Rightarrow> string \<Rightarrow> commit_payload \<Rightarrow>
     ('z server_scheme, chunk_error, commit_status) prog" where
  "commit_handler x e user uid payload = (\<lambda>s.
     (case non_local_chunks (upload_dir x) payload s of
        Panic \<Rightarrow> (Panic, s)
      | Err er \<Rightarrow> (Err er, s)
      | Ok to_be_uploaded \<Rightarrow>
          if to_be_uploaded = [] then
            (let r = from_payload_and_user_id payload user;
                 existing = latest_for_path (nf_user_id r) (nf_path r) (rows s);
                 insert = (case insert_new_record (gap e) r (rows s) of (i, rows') \<Rightarrow>
                   (Ok (CommitSuccess i),
                    s\<lparr>rows := rows', notifier := notify uid (notifier s)\<rparr>))
             in case existing of
                  Some old \<Rightarrow>
                    if sr_chunk_ids old = nf_chunk_ids r \<and> sr_deleted old = nf_deleted r
                    then (Ok (CommitSuccess (sr_id old)), s)
                    else insert
                | None \<Rightarrow> insert)
          else (Ok (CommitNeedChunks (join_with [COMMA] to_be_uploaded)), s)))"

definition has_files_handler :: "int \<Rightarrow> 'z server_scheme \<Rightarrow> bool" where
  "has_files_handler user s = db_has_files user (rows s)"

definition list_handler :: "metadata_env \<Rightarrow> int \<Rightarrow> int \<Rightarrow> 'z server_scheme \<Rightarrow> server_record list" where
  "list_handler e user after s = db_list (row_order e) user after (rows s)"

text \<open>
  \<open>poll\<close> in its two halves: it registers and waits for its notification object (or the
  clamped timeout, or shutdown), then it removes its client's entry.
\<close>

definition poll_start :: "string \<Rightarrow> 64 word \<Rightarrow> 'z server_scheme \<Rightarrow> (nat \<times> 64 word) \<times> 'z server_scheme" where
  "poll_start uid seconds s =
     (case register uid (notifier s) of (k, n) \<Rightarrow> ((k, clamp_poll_seconds seconds), s\<lparr>notifier := n\<rparr>))"

definition poll_finish :: "string \<Rightarrow> 'z server_scheme \<Rightarrow> 'z server_scheme" where
  "poll_finish uid s = s\<lparr>notifier := unregister uid (notifier s)\<rparr>"

section \<open>The journal interface\<close>

interpretation commits: journal sr_id sr_path inserted_row "insert_records gap" nf_path
  for gap
  unfolding insert_records_def [abs_def]
  by (rule journal_insert_rows) (simp_all add: inserted_row_def)

abbreviation wf_rows :: "server_record list \<Rightarrow> bool" where
  "wf_rows \<equiv> ids_sorted sr_id"

text \<open>What the server says of a user's files: the current record of each path.\<close>

definition server_view :: "int \<Rightarrow> server_record list \<Rightarrow> string \<Rightarrow> server_record option" where
  "server_view user rs = latest sr_path (filter (\<lambda>r. sr_user_id r = user) rs)"

lemma server_view_SomeD:
  assumes "server_view user rs p = Some r"
  shows "r \<in> set rs" "sr_path r = p" "sr_user_id r = user"
  using latest_SomeD [OF assms [unfolded server_view_def]] by simp_all

lemma insert_new_record_eq:
  "insert_new_record g f rs =
    (next_id g (map sr_id rs), rs @ [inserted_row (next_id g (map sr_id rs)) f])"
  by (simp add: insert_new_record_def insert_records_def)

lemma latest_for_path_view:
  assumes "wf_rows rs"
  shows "latest_for_path user p rs = server_view user rs p"
proof -
  let ?f = "filter (\<lambda>r. sr_user_id r = user \<and> sr_path r = p) rs"
  have sub: "?f = filter (\<lambda>r. sr_path r = p) (filter (\<lambda>r. sr_user_id r = user) rs)"
    by (simp add: conj_commute)
  have view: "server_view user rs p = (if ?f = [] then None else Some (last ?f))"
    unfolding server_view_def sub
    by (induction rs rule: rev_induct) (auto simp: filter_empty_conv)
  have "ids_sorted sr_id ?f" using assms by (rule ids_sorted_filter)
  then have "sorted_wrt (\<lambda>a b. sr_id a < sr_id b) ?f" by (simp add: ids_sorted_def sorted_wrt_map)
  then have "sorted_wrt (\<lambda>a b. sr_id b < sr_id a) (rev ?f)" by (simp add: sorted_wrt_rev)
  then have s: "sorted (map (\<lambda>r. - sr_id r) (rev ?f))"
    by (auto simp: sorted_map intro: sorted_wrt_mono_rel [rotated])
  have "distinct (map (\<lambda>r. - sr_id r) ?f)"
    using \<open>ids_sorted sr_id ?f\<close>
    by (auto simp: ids_sorted_def strict_sorted_iff distinct_map inj_on_def)
  then have "sort_key (\<lambda>r. - sr_id r) ?f = rev ?f"
    using s by (intro sort_key_inj_key_eq) (simp_all add: distinct_map)
  then show ?thesis
    using view by (cases ?f rule: rev_cases) (auto simp: latest_for_path_def)
qed

lemma set_db_list:
  assumes "wf_rows rs" "\<And>xs. set (order xs) = set xs"
  shows "set (db_list order user after rs) =
    {r. after < sr_id r \<and> server_view user rs (sr_path r) = Some r}"
  using set_current [OF assms(1), of sr_path "\<lambda>r. sr_user_id r = user" "\<lambda>r. after < sr_id r"] assms(2)
  by (simp add: db_list_def current_def server_view_def Let_def)

lemma db_has_files_iff:
  assumes "wf_rows rs"
  shows "db_has_files user rs \<longleftrightarrow> (\<exists>p r. server_view user rs p = Some r \<and> \<not> sr_deleted r)"
proof -
  have "db_has_files user rs \<longleftrightarrow>
      set (current sr_id sr_path (\<lambda>r. sr_user_id r = user) (\<lambda>r. \<not> sr_deleted r) rs) \<noteq> {}"
    by (auto simp: db_has_files_def current_def Let_def filter_empty_conv)
  also have "\<dots> \<longleftrightarrow> (\<exists>p r. server_view user rs p = Some r \<and> \<not> sr_deleted r)"
    unfolding set_current [OF assms] server_view_def using server_view_SomeD(2)
    by (auto simp: server_view_def)
  finally show ?thesis .
qed

end
