(* ===== verification/Auth.thy ===== *)
theory Auth
  imports Http
begin

text \<open>
  server/src/auth: who may use the sync routes. A bearer token is decoded into claims; the
  optional claim \<open>sync_until\<close> decides, with the enforcement mode and the clock, whether the
  request passes, passes with a warning, or is answered with 402.

  Parameters (\<open>auth_env\<close>): the environment variables, the verification of a token by the
  jsonwebtoken crate (signature and expiry; it yields the claims as JSON or fails), and the
  clock, whose time since the epoch is missing when it stands before it. \<open>i64\<close> is a signed
  64-bit word read with \<open>sint\<close>.
\<close>

section \<open>Claims\<close>

datatype json_number = PosInt nat | NegInt int | Float string

datatype json_value =
  JNull | JBool bool | JNumber json_number | JString string | JOther

record raw_claims =
  raw_uid :: int
  raw_sync_until :: "json_value option"

record claims =
  uid :: int
  sync_until :: "int option"

text \<open>\<open>Number::as_i64\<close>.\<close>

definition as_i64 :: "json_number \<Rightarrow> int option" where
  "as_i64 n =
     (case n of
        PosInt k \<Rightarrow> if k < 2 ^ 63 then Some (int k) else None
      | NegInt i \<Rightarrow> Some i
      | Float _ \<Rightarrow> None)"

text \<open>\<open>lenient_ts\<close>, with the default for a claim that is not there.\<close>

definition lenient_ts :: "json_value option \<Rightarrow> int option" where
  "lenient_ts v =
     (case v of
        None \<Rightarrow> None
      | Some JNull \<Rightarrow> None
      | Some (JNumber n) \<Rightarrow> as_i64 n
      | Some _ \<Rightarrow> None)"

record auth_env =
  sync_enforcement :: "string option"
  jwt_secret :: "string option"
  sync_upgrade_url :: "string option"
  verify_token :: "string \<Rightarrow> string \<Rightarrow> raw_claims option"
  since_epoch :: "nat option"

definition decode_token :: "auth_env \<Rightarrow> string \<Rightarrow> string \<Rightarrow> claims option" where
  "decode_token e tok key =
     map_option (\<lambda>r. \<lparr>uid = raw_uid r, sync_until = lenient_ts (raw_sync_until r)\<rparr>)
       (verify_token e tok key)"

definition BEARER :: string where "BEARER = ''Bearer ''"

text \<open>
  \<open>extract_claims\<close>: the header as text, when there is one that is text; \<open>secret()\<close> panics
  when the variable is not set.
\<close>

definition extract_claims :: "auth_env \<Rightarrow> string option \<Rightarrow> (unit, claims) res" where
  "extract_claims e header =
     (case header of
        None \<Rightarrow> Err ()
      | Some h \<Rightarrow>
          if \<not> prefix BEARER h then Err ()
          else (case jwt_secret e of
                  None \<Rightarrow> Panic
                | Some key \<Rightarrow>
                    (case decode_token e (drop (length BEARER) h) key of
                       Some c \<Rightarrow> Ok c | None \<Rightarrow> Err ())))"

section \<open>The entitlement decision\<close>

datatype enforcement_mode = Off | Log | Enforce

datatype entitlement_reason = MissingClaim | ExpiredClaim

datatype entitlement_decision =
  Allow | AllowWithWarning entitlement_reason | Reject entitlement_reason

definition enforcement :: "auth_env \<Rightarrow> enforcement_mode" where
  "enforcement e =
     (case sync_enforcement e of
        Some v \<Rightarrow>
          if eq_ignore_ascii_case v ''enforce'' then Enforce
          else if eq_ignore_ascii_case v ''log'' then Log else Off
      | None \<Rightarrow> Off)"

definition mode_as_str :: "enforcement_mode \<Rightarrow> string" where
  "mode_as_str m = (case m of Off \<Rightarrow> ''off'' | Log \<Rightarrow> ''log'' | Enforce \<Rightarrow> ''enforce'')"

definition reason_as_str :: "entitlement_reason \<Rightarrow> string" where
  "reason_as_str r =
     (case r of MissingClaim \<Rightarrow> ''missing_claim'' | ExpiredClaim \<Rightarrow> ''expired_claim'')"

definition current_mode_name :: "auth_env \<Rightarrow> string" where
  "current_mode_name e = mode_as_str (enforcement e)"

definition decide :: "enforcement_mode \<Rightarrow> int option \<Rightarrow> int \<Rightarrow> entitlement_decision" where
  "decide mode until now =
     (let reason =
        (case until of
           None \<Rightarrow> Some MissingClaim
         | Some t \<Rightarrow> if t < now then Some ExpiredClaim else None) in
      case reason of
        None \<Rightarrow> Allow
      | Some r \<Rightarrow>
          (case mode of Off \<Rightarrow> Allow | Log \<Rightarrow> AllowWithWarning r | Enforce \<Rightarrow> Reject r))"

definition I64_MAX_INT :: int where "I64_MAX_INT = 2 ^ 63 - 1"

text \<open>\<open>as i64\<close> wraps; a clock before the epoch reads as the largest time.\<close>

definition now_unix :: "auth_env \<Rightarrow> int" where
  "now_unix e =
     (case since_epoch e of Some secs \<Rightarrow> sint (of_nat secs :: 64 word) | None \<Rightarrow> I64_MAX_INT)"

datatype auth_rejection = RejectUnauthorized | RejectPaymentRequired

text \<open>The extractors \<open>User\<close> and \<open>EntitledUser\<close>; the second also yields its log line.\<close>

definition user_from_parts :: "auth_env \<Rightarrow> string option \<Rightarrow> (auth_rejection, int) res" where
  "user_from_parts e header =
     (case extract_claims e header of
        Ok c \<Rightarrow> Ok (uid c) | Err _ \<Rightarrow> Err RejectUnauthorized | Panic \<Rightarrow> Panic)"

definition entitled_user_from_parts ::
    "auth_env \<Rightarrow> string option \<Rightarrow> string option \<times> (auth_rejection, int) res" where
  "entitled_user_from_parts e header =
     (case extract_claims e header of
        Panic \<Rightarrow> (None, Panic)
      | Err _ \<Rightarrow> (None, Err RejectUnauthorized)
      | Ok c \<Rightarrow>
          (case decide (enforcement e) (sync_until c) (now_unix e) of
             Allow \<Rightarrow> (None, Ok (uid c))
           | AllowWithWarning r \<Rightarrow> (Some (''sync_entitlement_would_block '' @ reason_as_str r), Ok (uid c))
           | Reject r \<Rightarrow>
               (Some (''sync_entitlement_blocked '' @ reason_as_str r), Err RejectPaymentRequired)))"

definition QUO :: string where "QUO = [CHR 0x22]"

definition json_field :: "string \<Rightarrow> string \<Rightarrow> string" where
  "json_field k v = QUO @ k @ QUO @ '':'' @ QUO @ v @ QUO"

text \<open>
  The responses of the rejections. The body is JSON; the upgrade URL is taken to need no
  escaping.
\<close>

definition upgrade_url :: "auth_env \<Rightarrow> string" where
  "upgrade_url e = (case sync_upgrade_url e of Some u \<Rightarrow> u | None \<Rightarrow> ''https://cook.md/pricing'')"

definition rejection_response :: "auth_env \<Rightarrow> auth_rejection \<Rightarrow> response" where
  "rejection_response e r =
     (case r of
        RejectUnauthorized \<Rightarrow>
          \<lparr>resp_status = 401, resp_content_type = Some ''application/json'',
           resp_body = [Data (to_bytes (''{'' @ json_field ''error'' ''unauthorized'' @ ''}''))]\<rparr>
      | RejectPaymentRequired \<Rightarrow>
          \<lparr>resp_status = 402, resp_content_type = Some ''application/json'',
           resp_body = [Data (to_bytes (''{'' @
             json_field ''error'' ''sync_requires_plan'' @ '','' @
             json_field ''message'' ''Sync needs a Cook Basic or Pro plan. Accounts from before the paywall sync free.'' @ '','' @
             json_field ''upgrade_url'' (upgrade_url e) @ ''}''))]\<rparr>)"

section \<open>Samples\<close>

definition sample_auth :: auth_env where
  "sample_auth =
     \<lparr>sync_enforcement = Some ''ENFORCE'', jwt_secret = Some ''k'', sync_upgrade_url = None,
      verify_token = (\<lambda>tok key. if tok = ''t'' \<and> key = ''k''
        then Some \<lparr>raw_uid = 7, raw_sync_until = Some (JString ''soon'')\<rparr> else None),
      since_epoch = Some 1000\<rparr>"

section \<open>Properties\<close>



text \<open>
  With the clock before the epoch every claim that has an end before the largest 64-bit time
  reads as expired, in every mode that looks at it; the one exception is a claim of exactly
  that largest time, which still passes.
\<close>

theorem broken_clock_fails_closed:
  assumes "since_epoch e = None" "t \<le> I64_MAX_INT"
  shows "decide Enforce (Some t) (now_unix e) =
    (if t = I64_MAX_INT then Allow else Reject ExpiredClaim)"
  using assms by (auto simp: decide_def now_unix_def)

theorem broken_clock_fails_closed_witness:
  "decide Enforce (Some 5) (now_unix (sample_auth\<lparr>since_epoch := None\<rparr>)) = Reject ExpiredClaim
   \<and> decide Enforce (Some I64_MAX_INT) (now_unix (sample_auth\<lparr>since_epoch := None\<rparr>)) = Allow"
  using broken_clock_fails_closed [of "sample_auth\<lparr>since_epoch := None\<rparr>" 5]
    broken_clock_fails_closed [of "sample_auth\<lparr>since_epoch := None\<rparr>" I64_MAX_INT]
  by (simp add: I64_MAX_INT_def)

end
