(* ===== verification/ErrorPages.thy ===== *)
theory ErrorPages
  imports Auth ChunkStore
begin

text \<open>
  server/src/error.rs: the HTML pages the server gives to errors that have no body of their
  own, and the response middleware that puts them in place.
\<close>

definition ERROR_PAGES :: "(nat \<times> string \<times> string) list" where
  "ERROR_PAGES =
     [(404, ''Not Found'', ''The requested resource could not be found.''),
      (413, ''Payload Too Large'',
       ''The request is larger than the server is willing or able to process.''),
      (415, ''Unsupported Media Type'',
       ''The request entity has a media type which the server or resource does not support.''),
      (422, ''Unprocessable Entity'',
       ''The request was well-formed but was unable to be followed due to semantic errors.''),
      (500, ''Internal Server Error'',
       ''The server encountered an internal error while processing this request.'')]"

text \<open>The three digits of a status.\<close>

definition show_status :: "nat \<Rightarrow> string" where
  "show_status n = map (\<lambda>d. char_of (48 + d)) [n div 100 mod 10, n div 10 mod 10, n mod 10]"

definition page_lines :: "nat \<Rightarrow> string \<Rightarrow> string \<Rightarrow> string list" where
  "page_lines code reason description =
     [''<!DOCTYPE html>'',
      ''<html lang='' @ QUO @ ''en'' @ QUO @ ''>'',
      ''<head>'',
      ''    <meta charset='' @ QUO @ ''utf-8'' @ QUO @ ''>'',
      ''    <meta name='' @ QUO @ ''color-scheme'' @ QUO @ '' content='' @ QUO @ ''light dark'' @ QUO @ ''>'',
      ''    <title>'' @ show_status code @ '' '' @ reason @ ''</title>'',
      ''</head>'',
      ''<body align='' @ QUO @ ''center'' @ QUO @ ''>'',
      ''    <div role='' @ QUO @ ''main'' @ QUO @ '' align='' @ QUO @ ''center'' @ QUO @ ''>'',
      ''        <h1>'' @ show_status code @ '': '' @ reason @ ''</h1>'',
      ''        <p>'' @ description @ ''</p>'',
      ''        <hr />'',
      ''    </div>'',
      ''    <div role='' @ QUO @ ''contentinfo'' @ QUO @ '' align='' @ QUO @ ''center'' @ QUO @ ''>'',
      ''        <small>Rocket</small>'',
      ''    </div>'',
      ''</body>'',
      ''</html>'']"

definition error_page :: "nat \<Rightarrow> string option" where
  "error_page status =
     (case map_of ERROR_PAGES status of
        None \<Rightarrow> None
      | Some (reason, description) \<Rightarrow> Some (join_with [LF] (page_lines status reason description)))"

definition is_error_status :: "nat \<Rightarrow> bool" where
  "is_error_status status \<longleftrightarrow> 400 \<le> status \<and> status < 600"

definition default_error_pages :: "response \<Rightarrow> response" where
  "default_error_pages r =
     (if \<not> is_error_status (resp_status r) then r
      else if (case resp_content_type r of Some t \<Rightarrow> prefix ''application/json'' t | None \<Rightarrow> False) then r
      else (case error_page (resp_status r) of
              None \<Rightarrow> r
            | Some page \<Rightarrow>
                \<lparr>resp_status = resp_status r,
                 resp_content_type = Some ''text/html; charset=utf-8'',
                 resp_body = [Data (to_bytes page)]\<rparr>))"

lemma default_error_pages_status [simp]: "resp_status (default_error_pages r) = resp_status r"
  by (simp add: default_error_pages_def split: option.splits)

text \<open>The middleware keeps every status; leaves successes, JSON bodies (so every rejection of the
  authentication) and statuses without a page alone; gives each other error exactly the page
  of its status, whatever body it had; and applying it a second time changes nothing.
\<close>

theorem error_pages_middleware:
  "resp_status (default_error_pages r) = resp_status r
   \<and> default_error_pages (default_error_pages r) = default_error_pages r
   \<and> default_error_pages (rejection_response e rej) = rejection_response e rej
   \<and> (if resp_status r < 400 \<or> error_page (resp_status r) = None then default_error_pages r = r
      else if (\<exists>t. resp_content_type r = Some (''application/json'' @ t)) then default_error_pages r = r
      else default_error_pages r = default_error_pages (plain_response (resp_status r)))"
proof -
  have html: "\<not> prefix ''application/json'' ''text/html; charset=utf-8''" by code_simp
  have page: "error_page n = None" if "\<not> is_error_status n" for n
    using that by (auto simp: error_page_def is_error_status_def ERROR_PAGES_def split: if_splits)
  have "default_error_pages (default_error_pages r) = default_error_pages r"
    by (auto simp: default_error_pages_def html split: option.splits)
  moreover have "default_error_pages (rejection_response e rej) = rejection_response e rej"
    by (simp add: default_error_pages_def rejection_response_def split: auth_rejection.splits)
  ultimately show ?thesis
    using page [of "resp_status r"]
    by (auto simp: default_error_pages_def plain_response_def is_error_status_def prefix_def
        split: option.splits)
qed

text \<open>
  The five pages have the lengths the previous server's pages had, and no other status has a
  page.
\<close>

theorem error_page_lengths:
  "map_option length (error_page n) =
    (if n = 404 then Some 435 else if n = 413 then Some 477 else if n = 415 then Some 501
     else if n = 422 then Some 496 else if n = 500 then Some 488 else None)"
proof -
  have pages: "map_option length (error_page 404) = Some 435"
    "map_option length (error_page 413) = Some 477"
    "map_option length (error_page 415) = Some 501"
    "map_option length (error_page 422) = Some 496"
    "map_option length (error_page 500) = Some 488" by code_simp+
  show ?thesis
  proof (cases "n \<in> {404, 413, 415, 422, 500}")
    case True
    then show ?thesis using pages by (elim insertE) simp_all
  next
    case False
    then show ?thesis by (simp add: error_page_def ERROR_PAGES_def)
  qed
qed

end
