(* ===== verification/Server.thy ===== *)
theory Server
  imports Metadata ErrorPages
begin

text \<open>
  The server as one function from a request and its state to a response: the two routers of
  server/src/chunks/mod.rs and server/src/metadata/mod.rs merged as in server/src/lib.rs,
  the extractors in the order of each handler's parameters (user, query, body), and the
  layers around the handlers (a panic is a 500, the error pages).

  Parameters (\<open>server_env\<close>), besides those of the handlers: the decoding of a query string
  and of a form into the types a handler declares, of a path segment, and the encoding of
  answers as JSON. Of axum: a path with no route and a route without the method are a 404
  here (the fallback the routers install); a fixed path goes before a captured one; a
  buffering extractor answers 413 over its limit, \<open>Form\<close> 415 for another content type and
  422 for a body that does not decode.
\<close>

record server_env =
  store :: store_env
  meta :: metadata_env
  auth :: auth_env
  draw :: "request \<Rightarrow> nat \<Rightarrow> char"
  path_segment :: "string \<Rightarrow> string option"
  commit_query :: "string \<Rightarrow> string option"
  list_query :: "string \<Rightarrow> int option"
  poll_query :: "string \<Rightarrow> (64 word \<times> string) option"
  commit_form :: "bytes \<Rightarrow> commit_payload option"
  json_commit :: "commit_status \<Rightarrow> bytes"
  json_list :: "server_record list \<Rightarrow> bytes"
  json_bool :: "bool \<Rightarrow> bytes"

section \<open>Extractors\<close>

text \<open>\<open>HeaderValue::to_str\<close>: visible characters, spaces and tabs only.\<close>

definition visible :: "char \<Rightarrow> bool" where
  "visible c \<longleftrightarrow> (let n = (of_char c :: nat) in (32 \<le> n \<and> n < 127) \<or> n = 9)"

definition header_text :: "string \<Rightarrow> request \<Rightarrow> string option" where
  "header_text name rq =
     (case find (\<lambda>(k, v). eq_ignore_ascii_case k name) (req_headers rq) of
        Some (k, v) \<Rightarrow> if list_all visible v then Some v else None
      | None \<Rightarrow> None)"

definition raw_content_type :: "request \<Rightarrow> string" where
  "raw_content_type rq = (case header_text ''Content-Type'' rq of Some t \<Rightarrow> t | None \<Rightarrow> [])"

definition split_query :: "string \<Rightarrow> string \<times> string" where
  "split_query url = (case split_on CHR ''?'' url of
     [] \<Rightarrow> ([], []) | p # qs \<Rightarrow> (p, join_with [CHR ''?''] qs))"

text \<open>Programs over the server's state; a response of their own is a handler's early exit.\<close>

type_synonym 'a serving = "(server, response, 'a) prog"

definition entitled :: "server_env \<Rightarrow> request \<Rightarrow> int serving" where
  "entitled e rq =
     (case snd (entitled_user_from_parts (auth e) (header_text ''Authorization'' rq)) of
        Ok u \<Rightarrow> ret u | Err rej \<Rightarrow> throw (rejection_response (auth e) rej) | Panic \<Rightarrow> panic)"

definition plain_user :: "server_env \<Rightarrow> request \<Rightarrow> int serving" where
  "plain_user e rq =
     (case user_from_parts (auth e) (header_text ''Authorization'' rq) of
        Ok u \<Rightarrow> ret u | Err rej \<Rightarrow> throw (rejection_response (auth e) rej) | Panic \<Rightarrow> panic)"

text \<open>\<open>Query\<close> of server/src/extract.rs: what does not decode is a 422.\<close>

definition query :: "(string \<Rightarrow> 'a option) \<Rightarrow> string \<Rightarrow> 'a serving" where
  "query decode q = (case decode q of Some a \<Rightarrow> ret a | None \<Rightarrow> throw (plain_response 422))"

definition buffered :: "nat \<Rightarrow> request \<Rightarrow> bytes serving" where
  "buffered limit rq =
     (if length (req_body rq) \<le> limit then ret (req_body rq) else throw (plain_response 413))"

definition form :: "(bytes \<Rightarrow> 'a option) \<Rightarrow> request \<Rightarrow> 'a serving" where
  "form decode rq =
     (if \<not> prefix URLENCODED_FORM (raw_content_type rq) then throw (plain_response 415)
      else and_then (buffered FORM_LIMIT rq) (\<lambda>b.
        case decode b of Some a \<Rightarrow> ret a | None \<Rightarrow> throw (plain_response 422)))"

definition text_body :: "request \<Rightarrow> bytes serving" where
  "text_body rq =
     and_then (buffered FORM_LIMIT rq) (\<lambda>b.
       if utf8_ok b then ret b else throw (plain_response 400))"

definition json_response :: "bytes \<Rightarrow> response" where
  "json_response b =
     \<lparr>resp_status = 200, resp_content_type = Some ''application/json'', resp_body = [Data b]\<rparr>"

definition chunk_failure :: "chunk_error \<Rightarrow> response" where
  "chunk_failure er = plain_response (error_status er)"

section \<open>Routes\<close>

definition upload_route ::
    "server_env \<Rightarrow> (store_env \<Rightarrow> string \<Rightarrow> stream_item list \<Rightarrow> (server, chunk_error, unit) prog) \<Rightarrow>
     request \<Rightarrow> response serving" where
  "upload_route e handler rq =
     and_then (entitled e rq) (\<lambda>_.
     and_then (map_err chunk_failure (handler (store e) (raw_content_type rq) [Data (req_body rq)])) (\<lambda>_.
       ret (plain_response 200)))"

definition download_route :: "server_env \<Rightarrow> request \<Rightarrow> response serving" where
  "download_route e rq =
     and_then (entitled e rq) (\<lambda>_.
     and_then (text_body rq) (\<lambda>body.
     and_then (map_err chunk_failure (lift_res
        (download_chunks (store e) (draw e rq) (raw_content_type rq) body))) (\<lambda>m s.
       ret (multipart_response m s) s)))"

definition retrieve_route :: "server_env \<Rightarrow> string \<Rightarrow> request \<Rightarrow> response serving" where
  "retrieve_route e seg rq =
     and_then (entitled e rq) (\<lambda>_.
       (case path_segment e seg of
          None \<Rightarrow> throw (plain_response 400)
        | Some i \<Rightarrow> (\<lambda>s. map_err chunk_failure (lift_res (retrieve (store e) i s)) s)))"

definition commit_route :: "server_env \<Rightarrow> string \<Rightarrow> request \<Rightarrow> response serving" where
  "commit_route e q rq =
     and_then (entitled e rq) (\<lambda>u.
     and_then (query (commit_query e) q) (\<lambda>client_id.
     and_then (form (commit_form e) rq) (\<lambda>payload.
     and_then (map_err chunk_failure (commit_handler (store e) (meta e) u client_id payload)) (\<lambda>status.
       ret (json_response (json_commit e status))))))"

definition has_files_route :: "server_env \<Rightarrow> request \<Rightarrow> response serving" where
  "has_files_route e rq =
     and_then (plain_user e rq) (\<lambda>u s.
       ret (json_response (json_bool e (has_files_handler u s))) s)"

definition list_route :: "server_env \<Rightarrow> string \<Rightarrow> request \<Rightarrow> response serving" where
  "list_route e q rq =
     and_then (entitled e rq) (\<lambda>u.
     and_then (query (list_query e) q) (\<lambda>after s.
       ret (json_response (json_list e (list_handler (meta e) u after s))) s))"

text \<open>A poll from its registration to the removal of its entry, with nothing in between.\<close>

definition poll_route :: "server_env \<Rightarrow> string \<Rightarrow> request \<Rightarrow> response serving" where
  "poll_route e q rq =
     and_then (entitled e rq) (\<lambda>_.
     and_then (query (poll_query e) q) (\<lambda>(seconds, client_id) s.
       ret (plain_response 200) (poll_finish client_id (snd (poll_start client_id seconds s)))))"

text \<open>The paths of the two routers; each path has one method.\<close>

datatype route =
  UploadDeprecated | Upload | Download | Retrieve string | Commit | HasFiles | Listing | Poll

definition route_of :: "string \<Rightarrow> (http_method \<times> route) option" where
  "route_of p =
     (if p = ''/chunks'' \<or> p = ''/chunks/'' then Some (POST, UploadDeprecated)
      else if p = ''/chunks/upload'' then Some (POST, Upload)
      else if p = ''/chunks/download'' then Some (POST, Download)
      else if prefix ''/chunks/'' p \<and> SLASH \<notin> set (drop 8 p) then Some (GET, Retrieve (drop 8 p))
      else if p = ''/metadata/commit'' then Some (POST, Commit)
      else if p = ''/metadata/has_files'' then Some (GET, HasFiles)
      else if p = ''/metadata/list'' then Some (GET, Listing)
      else if p = ''/metadata/poll'' then Some (GET, Poll)
      else None)"

definition handle :: "server_env \<Rightarrow> route \<Rightarrow> string \<Rightarrow> request \<Rightarrow> response serving" where
  "handle e r q rq =
     (case r of
        UploadDeprecated \<Rightarrow> upload_route e upload_chunks_deprecated rq
      | Upload \<Rightarrow> upload_route e upload_chunks rq
      | Download \<Rightarrow> download_route e rq
      | Retrieve seg \<Rightarrow> retrieve_route e seg rq
      | Commit \<Rightarrow> commit_route e q rq
      | HasFiles \<Rightarrow> has_files_route e rq
      | Listing \<Rightarrow> list_route e q rq
      | Poll \<Rightarrow> poll_route e q rq)"

definition serve :: "server_env \<Rightarrow> request \<Rightarrow> server \<Rightarrow> response \<times> server" where
  "serve e rq s =
     (case split_query (req_url rq) of (p, q) \<Rightarrow>
        (case route_of p of
           Some (m, r) \<Rightarrow>
             if req_method rq = m
             then (case handle e r q rq s of
                     (Ok resp, s') \<Rightarrow> (default_error_pages resp, s')
                   | (Err resp, s') \<Rightarrow> (default_error_pages resp, s')
                   | (Panic, s') \<Rightarrow> (default_error_pages (plain_response 500), s'))
             else (default_error_pages (plain_response 404), s)
         | None \<Rightarrow> (default_error_pages (plain_response 404), s)))"

end
