(* ===== verification/Chunker.thy ===== *)
theory Chunker
  imports World
begin

text \<open>
  client/src/chunker.rs: files are cut into chunks (a text file into its lines, a binary
  file into blocks), each chunk is named by a truncated SHA-256, and the chunks live in an
  in-memory cache from which files are written back. \<open>chunker\<close> is the state of
  \<open>Chunker\<close> on top of the file system: the base path, the cache contents and the
  number of insertions so far.

  The crates the file uses are parameters, collected in \<open>externals\<close>: the digest
  function; which keys the bounded cache has dropped after its n-th insertion (any
  function at all, so any eviction policy); how many bytes a read returns before the n-th
  insertion (short reads); and how much of a buffered writer's stream has reached the file
  when the writer is dropped without a flush.
\<close>

section \<open>State and external functions\<close>

record externals =
  sha256 :: "bytes \<Rightarrow> bytes"
  evicted :: "nat \<Rightarrow> string \<Rightarrow> bool"
  read_size :: "nat \<Rightarrow> nat"
  kept_on_drop :: "bytes \<Rightarrow> nat"

record chunker = world +
  base_path :: pathbuf
  cache :: "string \<rightharpoonup> bytes"
  inserts :: nat

type_synonym ('z, 'a) chunking = "('z chunker_scheme, sync_error, 'a) prog"

definition BINARY_CHUNK_SIZE :: nat where "BINARY_CHUNK_SIZE = 1024 * 1024"
definition BINARY_HASH_SIZE :: nat where "BINARY_HASH_SIZE = 32"
definition TEXT_HASH_SIZE :: nat where "TEXT_HASH_SIZE = 10"
definition NEWLINE :: byte where "NEWLINE = 10"

section \<open>The in-memory cache\<close>

definition cache_get :: "(string \<rightharpoonup> bytes) \<Rightarrow> string \<Rightarrow> (sync_error, bytes) res" where
  "cache_get c chunk_hash =
     (if chunk_hash = [] then Ok []
      else (case c chunk_hash of Some content \<Rightarrow> Ok content | None \<Rightarrow> Err GetFromCacheError))"

definition cache_set ::
    "externals \<Rightarrow> string \<Rightarrow> bytes \<Rightarrow> 'z chunker_scheme \<Rightarrow> 'z chunker_scheme" where
  "cache_set x chunk_hash content s =
     s\<lparr>cache := (\<lambda>k. if evicted x (inserts s) k then None
                     else ((cache s)(chunk_hash \<mapsto> content)) k),
       inserts := Suc (inserts s)\<rparr>"

definition cache_contains :: "(string \<rightharpoonup> bytes) \<Rightarrow> string \<Rightarrow> bool" where
  "cache_contains c chunk_hash = (case c chunk_hash of Some _ \<Rightarrow> True | None \<Rightarrow> False)"

definition chunk_weight :: "bytes \<Rightarrow> 64 word" where
  "chunk_weight val = of_nat (max 1 (min (length val) (2 ^ 64 - 1)))"

section \<open>Chunker operations\<close>

definition full_path :: "'z chunker_scheme \<Rightarrow> string \<Rightarrow> pathbuf" where
  "full_path s path = push_path (base_path s) path"

definition hash :: "externals \<Rightarrow> bytes \<Rightarrow> nat \<Rightarrow> (sync_error, string) res" where
  "hash x data n =
     (let hex = hex_string (sha256 x data) in
      if n \<le> length hex then Ok (take n hex) else Panic)"

definition exists_file :: "string \<Rightarrow> 'z chunker_scheme \<Rightarrow> bool" where
  "exists_file path s = exists_path (full_path s path) s"

definition read_chunk :: "string \<Rightarrow> ('z, bytes) chunking" where
  "read_chunk chunk_hash = (\<lambda>s. (cache_get (cache s) chunk_hash, s))"

definition save_chunk :: "externals \<Rightarrow> string \<Rightarrow> bytes \<Rightarrow> ('z, unit) chunking" where
  "save_chunk x chunk_hash content = (\<lambda>s. (Ok (), cache_set x chunk_hash content s))"

definition check_chunk :: "string \<Rightarrow> 'z chunker_scheme \<Rightarrow> bool" where
  "check_chunk chunk_hash s =
     (if chunk_hash = [] then True else cache_contains (cache s) chunk_hash)"

text \<open>\<open>read_until\<close>: everything up to and with the delimiter, or all there is.\<close>

fun read_until :: "byte \<Rightarrow> bytes \<Rightarrow> bytes \<times> bytes" where
  "read_until d [] = ([], [])"
| "read_until d (b # bs) =
     (if b = d then ([b], bs) else (case read_until d bs of (l, r) \<Rightarrow> (b # l, r)))"

lemma read_until_append: "read_until d bs = (l, r) \<Longrightarrow> l @ r = bs"
  by (induction bs arbitrary: l r) (auto split: if_splits prod.splits)

lemma read_until_Nil_iff: "fst (read_until d bs) = [] \<longleftrightarrow> bs = []"
  by (cases bs) (auto split: prod.splits)

lemma read_until_shorter: "fst (read_until d bs) \<noteq> [] \<Longrightarrow> length (snd (read_until d bs)) < length bs"
  using read_until_append [of d bs "fst (read_until d bs)" "snd (read_until d bs)"]
  by (metis append_Nil length_append length_greater_0_conv less_add_same_cancel2 prod.collapse)

function hashify_text_loop :: "externals \<Rightarrow> bytes \<Rightarrow> string list \<Rightarrow> ('z, string list) chunking" where
  "hashify_text_loop x rest hashes =
     (let buffer = fst (read_until NEWLINE rest) in
      if buffer = [] then ret hashes
      else and_then (lift_res (hash x buffer TEXT_HASH_SIZE)) (\<lambda>h.
           and_then (save_chunk x h buffer) (\<lambda>_.
             hashify_text_loop x (snd (read_until NEWLINE rest)) (hashes @ [h]))))"
  by pat_completeness auto
termination
  by (relation "measure (\<lambda>(x, rest, hashes). length rest)") (auto simp: read_until_shorter)

definition hashify_text :: "externals \<Rightarrow> string \<Rightarrow> ('z, string list) chunking" where
  "hashify_text x path = (\<lambda>s.
     and_then (map_err (from_io_error path) (open_file (full_path s path))) (\<lambda>file.
     and_then (map_err (from_io_error path) (read_handle file)) (\<lambda>content.
       hashify_text_loop x content [])) s)"

text \<open>
  A read into the one-megabyte buffer returns at least one byte before the end of the file,
  at most the buffer, and otherwise whatever the operating system chooses.
\<close>

definition bytes_read :: "externals \<Rightarrow> nat \<Rightarrow> nat \<Rightarrow> nat" where
  "bytes_read x tick avail =
     (if avail = 0 then 0 else max 1 (min (read_size x tick) (min BINARY_CHUNK_SIZE avail)))"

lemma bytes_read_0 [simp]: "bytes_read x tick avail = 0 \<longleftrightarrow> avail = 0"
  by (simp add: bytes_read_def)

lemma bytes_read_pos [simp]: "0 < bytes_read x tick avail \<longleftrightarrow> 0 < avail"
  by (simp only: bytes_read_0 flip: neq0_conv)

lemma bytes_read_le: "bytes_read x tick avail \<le> BINARY_CHUNK_SIZE"
  by (auto simp: bytes_read_def BINARY_CHUNK_SIZE_def)

function hashify_binary_loop ::
    "externals \<Rightarrow> bytes \<Rightarrow> string list \<Rightarrow> ('z, string list) chunking" where
  "hashify_binary_loop x rest hashes = (\<lambda>s.
     (let n = bytes_read x (inserts s) (length rest) in
      if n = 0 then ret hashes
      else and_then (lift_res (hash x (take n rest) BINARY_HASH_SIZE)) (\<lambda>h.
           and_then (save_chunk x h (take n rest)) (\<lambda>_.
             hashify_binary_loop x (drop n rest) (hashes @ [h])))) s)"
  by pat_completeness auto
termination
  by (relation "measure (\<lambda>(x, rest, hashes). length rest)") (auto intro: diff_less)

definition hashify_binary :: "externals \<Rightarrow> string \<Rightarrow> ('z, string list) chunking" where
  "hashify_binary x path = (\<lambda>s.
     and_then (map_err (from_io_error path) (open_file (full_path s path))) (\<lambda>file.
     and_then (map_err (from_io_error path) (read_handle file)) (\<lambda>content.
       hashify_binary_loop x content [])) s)"

definition hashify :: "externals \<Rightarrow> string \<Rightarrow> ('z, string list) chunking" where
  "hashify x path =
     (if is_text (components path) then hashify_text x path
      else if is_binary (components path) then hashify_binary x path
      else throw (UnlistedFileFormat path))"

text \<open>
  The writer's loop: on a chunk the cache does not have, the function returns with the
  writer dropped and its buffer not flushed.
\<close>

fun write_chunks :: "externals \<Rightarrow> pathbuf \<Rightarrow> string list \<Rightarrow> bytes \<Rightarrow> ('z, unit) chunking" where
  "write_chunks x file [] written = (\<lambda>s. (Ok (), write_file file written s))"
| "write_chunks x file (h # hs) written = (\<lambda>s.
     (case cache_get (cache s) h of
        Ok chunk \<Rightarrow> write_chunks x file hs (written @ chunk) s
      | Err e \<Rightarrow> (Err e, write_file file (take (kept_on_drop x written) written) s)
      | Panic \<Rightarrow> (Panic, s)))"

definition save :: "externals \<Rightarrow> string \<Rightarrow> string list \<Rightarrow> ('z, unit) chunking" where
  "save x path hashes = (\<lambda>s.
     (let file = full_path s path in
      and_then (case parent file of
                  Some d \<Rightarrow> map_err (from_io_error path) (create_dir_all d)
                | None \<Rightarrow> ret ()) (\<lambda>_.
      and_then (map_err (from_io_error path) (create_file file)) (\<lambda>_.
        write_chunks x file hashes []))) s)"

function remove_empty_parents :: "pathbuf option \<Rightarrow> ('z, unit) chunking" where
  "remove_empty_parents None = ret ()"
| "remove_empty_parents (Some dir) = (\<lambda>s.
     if dir = base_path s then (Ok (), s)
     else (case remove_dir dir s of
             (Ok _, s') \<Rightarrow> remove_empty_parents (parent dir) s'
           | (_, s') \<Rightarrow> (Ok (), s')))"
  by pat_completeness auto
termination
  by (relation "measure (\<lambda>p. case p of None \<Rightarrow> 0 | Some d \<Rightarrow> Suc (length d))")
     (auto dest: length_parent split: option.splits)

definition delete :: "string \<Rightarrow> ('z, unit) chunking" where
  "delete path = (\<lambda>s.
     and_then (map_err (from_io_error path) (remove_file (full_path s path))) (\<lambda>_.
       remove_empty_parents (parent (full_path s path))) s)"

declare hashify_text_loop.simps [simp del] hashify_binary_loop.simps [simp del]
  remove_empty_parents.simps(2) [simp del]

section \<open>The cache contract\<close>

text \<open>
  What the chunker relies on in its cache: the empty hash is always the empty chunk; after
  a store, a lookup answers with the stored chunk, with what it answered before, or with
  nothing (the entry was evicted); \<open>contains\<close> says whether a lookup answers.
\<close>

locale chunk_cache =
  fixes getc :: "'s \<Rightarrow> string \<Rightarrow> (sync_error, bytes) res"
    and setc :: "string \<Rightarrow> bytes \<Rightarrow> 's \<Rightarrow> 's"
    and containsc :: "string \<Rightarrow> 's \<Rightarrow> bool"
  assumes get_empty: "getc s [] = Ok []"
    and get_set: "getc (setc k v s) j = Ok w \<Longrightarrow> j \<noteq> [] \<Longrightarrow>
      (j = k \<and> w = v) \<or> (j \<noteq> k \<and> getc s j = Ok w)"
    and get_miss: "getc s k \<noteq> Ok w \<Longrightarrow> getc s k = Err GetFromCacheError \<or> (\<exists>v. getc s k = Ok v)"
    and contains_iff: "containsc k s \<longleftrightarrow> (\<exists>w. getc s k = Ok w)"
begin

definition store_all :: "(string \<times> bytes) list \<Rightarrow> 's \<Rightarrow> 's" where
  "store_all kvs s = fold (\<lambda>(k, v). setc k v) kvs s"

lemma store_all_simps [simp]:
  "store_all [] s = s"
  "store_all ((k, v) # kvs) s = store_all kvs (setc k v s)"
  by (simp_all add: store_all_def)

text \<open>Whatever is evicted, an answer is a stored chunk or an answer from before.\<close>

lemma get_store_all:
  "getc (store_all kvs s) j = Ok w \<Longrightarrow> j \<noteq> [] \<Longrightarrow> (j, w) \<in> set kvs \<or> getc s j = Ok w"
proof (induction kvs arbitrary: s)
  case (Cons kv kvs)
  obtain k v where kv: "kv = (k, v)" by (cases kv)
  from Cons.IH [of "setc k v s"] Cons.prems kv
  have "(j, w) \<in> set kvs \<or> getc (setc k v s) j = Ok w" by simp
  then show ?case
  proof
    assume "getc (setc k v s) j = Ok w"
    with get_set [OF this Cons.prems(2)] kv show ?thesis by auto
  qed simp
qed simp

text \<open>A property of keys and chunks that every store respects holds of every answer.\<close>

definition sound :: "(string \<Rightarrow> bytes \<Rightarrow> bool) \<Rightarrow> 's \<Rightarrow> bool" where
  "sound P s \<longleftrightarrow> (\<forall>k w. k \<noteq> [] \<longrightarrow> getc s k = Ok w \<longrightarrow> P k w)"

lemma sound_set: "sound P s \<Longrightarrow> P k v \<Longrightarrow> sound P (setc k v s)"
  unfolding sound_def using get_set by blast

lemma sound_store_all: "sound P s \<Longrightarrow> (\<And>k v. (k, v) \<in> set kvs \<Longrightarrow> P k v) \<Longrightarrow> sound P (store_all kvs s)"
  unfolding sound_def using get_store_all by blast

end

text \<open>A cache within its capacity: nothing is evicted.\<close>

locale reliable_cache = chunk_cache +
  assumes get_set_same: "k \<noteq> [] \<Longrightarrow> getc (setc k v s) k = Ok v"
    and get_set_other: "j \<noteq> k \<Longrightarrow> getc s j = Ok w \<Longrightarrow> getc (setc k v s) j = Ok w"
begin

lemma get_store_all_kept:
  "getc s j = Ok w \<Longrightarrow> (\<And>v. (j, v) \<in> set kvs \<Longrightarrow> v = w) \<Longrightarrow> getc (store_all kvs s) j = Ok w"
proof (induction kvs arbitrary: s)
  case (Cons kv kvs)
  obtain k v where kv: "kv = (k, v)" by (cases kv)
  have "getc (setc k v s) j = Ok w"
  proof (cases "j = k")
    case True
    with Cons.prems kv have "v = w" by simp
    show ?thesis
    proof (cases "k = []")
      case True
      with \<open>j = k\<close> Cons.prems(1) show ?thesis by (simp add: get_empty)
    next
      case False
      with \<open>j = k\<close> \<open>v = w\<close> show ?thesis by (simp add: get_set_same)
    qed
  next
    case False
    with Cons.prems(1) show ?thesis by (simp add: get_set_other)
  qed
  with Cons.IH Cons.prems(2) kv show ?case by simp
qed simp

text \<open>Every stored key answers.\<close>

lemma get_set_some: "(\<exists>w. getc s j = Ok w) \<or> j = k \<Longrightarrow> \<exists>w. getc (setc k v s) j = Ok w"
  using get_empty get_set_same get_set_other by metis

lemma get_stored_some: "(k, v) \<in> set kvs \<or> (\<exists>w. getc s k = Ok w) \<Longrightarrow> \<exists>w. getc (store_all kvs s) k = Ok w"
proof (induction kvs arbitrary: s)
  case (Cons kv kvs)
  obtain j u where kv: "kv = (j, u)" by (cases kv)
  from Cons.prems kv have "(k, v) \<in> set kvs \<or> (\<exists>w. getc (setc j u s) k = Ok w)"
    using get_set_some by auto
  from Cons.IH [OF this] kv show ?case by simp
qed simp

text \<open>Every stored chunk can be read back, when no two of them share a key.\<close>

lemma get_stored:
  assumes "(k, v) \<in> set kvs" "k \<noteq> []" "\<And>u. (k, u) \<in> set kvs \<Longrightarrow> u = v"
  shows "getc (store_all kvs s) k = Ok v"
proof -
  obtain as bs where kvs: "kvs = as @ (k, v) # bs"
    using assms(1) by (meson split_list)
  have "getc (setc k v (store_all as s)) k = Ok v"
    using assms(2) by (rule get_set_same)
  moreover have "u = v" if "(k, u) \<in> set bs" for u
    by (rule assms(3)) (simp add: kvs that)
  ultimately have "getc (store_all bs (setc k v (store_all as s))) k = Ok v"
    by (rule get_store_all_kept)
  then show ?thesis by (simp add: kvs store_all_def)
qed

end

end
