(* ===== verification/Registry.thy ===== *)
theory Registry
  imports Journal World
begin

text \<open>
  client/src/registry.rs and the records of client/src/models.rs: the client's database of
  the files it knows. \<open>file_record\<close> is a row; \<open>create_form\<close> and \<open>delete_form\<close>
  are what is inserted; the functions are the queries, each over the list of all rows. A row
  with no \<open>jid\<close> is a local change the server has not yet accepted.

  Integers are unbounded here (\<open>i32\<close> ids, \<open>i64\<close> sizes in the code). The engine's
  own failures do not occur; the one error a query returns, a missing row, does.
\<close>

section \<open>Records\<close>

record file_record =
  record_id :: int
  jid :: "int option"
  deleted :: bool
  path :: string
  file_size :: int
  modified_at :: timestamp
  namespace_id :: int

record create_form =
  cf_jid :: "int option"
  cf_path :: string
  cf_deleted :: bool
  cf_size :: int
  cf_modified_at :: timestamp
  cf_namespace_id :: int

record delete_form =
  df_path :: string
  df_jid :: "int option"
  df_size :: int
  df_modified_at :: timestamp
  df_deleted :: bool
  df_namespace_id :: int

text \<open>\<open>PartialEq<CreateForm> for FileRecord\<close>.\<close>

definition same_file :: "file_record \<Rightarrow> create_form \<Rightarrow> bool" where
  "same_file r other \<longleftrightarrow>
     path r = cf_path other \<and> file_size r = cf_size other \<and> modified_at r = cf_modified_at other"

type_synonym table = "file_record list"

definition created_row :: "int \<Rightarrow> create_form \<Rightarrow> file_record" where
  "created_row i f =
     \<lparr>record_id = i, jid = cf_jid f, deleted = cf_deleted f, path = cf_path f,
      file_size = cf_size f, modified_at = cf_modified_at f, namespace_id = cf_namespace_id f\<rparr>"

definition deleted_row :: "int \<Rightarrow> delete_form \<Rightarrow> file_record" where
  "deleted_row i f =
     \<lparr>record_id = i, jid = df_jid f, deleted = df_deleted f, path = df_path f,
      file_size = df_size f, modified_at = df_modified_at f, namespace_id = df_namespace_id f\<rparr>"

section \<open>Queries\<close>

definition create_records :: "(int list \<Rightarrow> nat) \<Rightarrow> create_form list \<Rightarrow> table \<Rightarrow> table" where
  "create_records gap forms rows = insert_rows gap record_id created_row forms rows"

definition delete_records :: "(int list \<Rightarrow> nat) \<Rightarrow> delete_form list \<Rightarrow> table \<Rightarrow> table" where
  "delete_records gap forms rows = insert_rows gap record_id deleted_row forms rows"

definition update_jid :: "file_record \<Rightarrow> int \<Rightarrow> table \<Rightarrow> table" where
  "update_jid rec j rows =
     map (\<lambda>r. if record_id r = record_id rec then r\<lparr>jid := Some j\<rparr> else r) rows"

definition non_deleted :: "int \<Rightarrow> table \<Rightarrow> file_record list" where
  "non_deleted ns rows =
     (let subquery = max_ids record_id path (filter (\<lambda>r. namespace_id r = ns) rows) in
      sort_key record_id (filter (\<lambda>r. \<not> deleted r \<and> record_id r \<in> set subquery) rows))"

definition updated_locally :: "int \<Rightarrow> table \<Rightarrow> file_record list" where
  "updated_locally ns rows =
     (let subquery = max_ids record_id path (filter (\<lambda>r. namespace_id r = ns) rows) in
      sort_key record_id (filter (\<lambda>r. jid r = None \<and> record_id r \<in> set subquery) rows))"

text \<open>\<open>ORDER BY jid DESC\<close>, first row; the error of \<open>first\<close> when there is none.\<close>

definition latest_jid :: "int \<Rightarrow> table \<Rightarrow> (string, int) res" where
  "latest_jid ns rows =
     (case sort_key (\<lambda>r. - the (jid r)) (filter (\<lambda>r. jid r \<noteq> None \<and> namespace_id r = ns) rows) of
        [] \<Rightarrow> Err ''Record not found''
      | r # _ \<Rightarrow> Ok (case jid r of Some j \<Rightarrow> j | None \<Rightarrow> 0))"

section \<open>The registry as a journal\<close>

interpretation creates: journal record_id path created_row "create_records gap" cf_path
  for gap
  unfolding create_records_def [abs_def]
  by (rule journal_insert_rows) (simp_all add: created_row_def)

interpretation deletes: journal record_id path deleted_row "delete_records gap" df_path
  for gap
  unfolding delete_records_def [abs_def]
  by (rule journal_insert_rows) (simp_all add: deleted_row_def)

abbreviation wf_table :: "table \<Rightarrow> bool" where
  "wf_table \<equiv> ids_sorted record_id"

text \<open>What the registry says of a namespace: the current record of each path.\<close>

definition registry_view :: "int \<Rightarrow> table \<Rightarrow> string \<Rightarrow> file_record option" where
  "registry_view ns rows = latest path (filter (\<lambda>r. namespace_id r = ns) rows)"

lemma wf_update_jid [simp]: "wf_table (update_jid r j rows) = wf_table rows"
  unfolding update_jid_def by (rule ids_sorted_map) simp

lemma filter_ns_update_jid:
  "filter (\<lambda>r. namespace_id r = ns) (update_jid r j rows) =
   update_jid r j (filter (\<lambda>r. namespace_id r = ns) rows)"
  by (simp add: update_jid_def filter_map comp_def)

lemma view_update_jid:
  "registry_view ns (update_jid rec j rows) p =
   map_option (\<lambda>r. if record_id r = record_id rec then r\<lparr>jid := Some j\<rparr> else r)
     (registry_view ns rows p)"
  unfolding registry_view_def filter_ns_update_jid
  unfolding update_jid_def by (rule latest_map) simp

lemma view_SomeD:
  assumes "registry_view ns rows p = Some r"
  shows "r \<in> set rows" "path r = p" "namespace_id r = ns"
  using latest_SomeD [OF assms [unfolded registry_view_def]] by simp_all

lemma non_deleted_current:
  "wf_table rows \<Longrightarrow> non_deleted ns rows =
    current record_id path (\<lambda>r. namespace_id r = ns) (\<lambda>r. \<not> deleted r) rows"
  by (simp add: non_deleted_def current_def [symmetric])

lemma updated_locally_current:
  "wf_table rows \<Longrightarrow> updated_locally ns rows =
    current record_id path (\<lambda>r. namespace_id r = ns) (\<lambda>r. jid r = None) rows"
  by (simp add: updated_locally_def current_def [symmetric])

lemma set_non_deleted:
  "wf_table rows \<Longrightarrow>
    set (non_deleted ns rows) = {r. \<not> deleted r \<and> registry_view ns rows (path r) = Some r}"
  by (simp add: non_deleted_current set_current registry_view_def)

lemma set_updated_locally:
  "wf_table rows \<Longrightarrow>
    set (updated_locally ns rows) = {r. jid r = None \<and> registry_view ns rows (path r) = Some r}"
  by (simp add: updated_locally_current set_current registry_view_def)

lemma distinct_paths_non_deleted: "wf_table rows \<Longrightarrow> distinct (map path (non_deleted ns rows))"
  by (simp add: non_deleted_current distinct_keys_current)

lemma distinct_paths_updated_locally:
  "wf_table rows \<Longrightarrow> distinct (map path (updated_locally ns rows))"
  by (simp add: updated_locally_current distinct_keys_current)

lemma wf_create [simp]: "wf_table rows \<Longrightarrow> wf_table (create_records gap fs rows)"
  by (rule creates.ids_sorted_ins)

lemma wf_delete [simp]: "wf_table rows \<Longrightarrow> wf_table (delete_records gap fs rows)"
  by (rule deletes.ids_sorted_ins)

text \<open>\<open>latest_jid\<close> is the largest jid of the namespace.\<close>

lemma latest_jid_spec:
  "(latest_jid ns rows = Err ''Record not found'' \<and>
      (\<forall>r \<in> set rows. namespace_id r = ns \<longrightarrow> jid r = None))
   \<or> (\<exists>r \<in> set rows. namespace_id r = ns \<and> (\<exists>j. jid r = Some j \<and> latest_jid ns rows = Ok j \<and>
      (\<forall>q \<in> set rows. \<forall>k. namespace_id q = ns \<longrightarrow> jid q = Some k \<longrightarrow> k \<le> j)))"
proof -
  let ?f = "filter (\<lambda>r. jid r \<noteq> None \<and> namespace_id r = ns) rows"
  let ?s = "sort_key (\<lambda>r. - the (jid r)) ?f"
  have set: "set ?s = {r \<in> set rows. jid r \<noteq> None \<and> namespace_id r = ns}" by auto
  show ?thesis
  proof (cases ?s)
    case Nil
    then have "set ?s = {}" by simp
    with set have "\<forall>r \<in> set rows. namespace_id r = ns \<longrightarrow> jid r = None"
      by (metis (mono_tags, lifting) empty_iff mem_Collect_eq)
    with Nil show ?thesis by (simp add: latest_jid_def)
  next
    case (Cons r rs)
    have r: "r \<in> set rows" "jid r \<noteq> None" "namespace_id r = ns"
      using Cons set by auto
    then obtain j where j: "jid r = Some j" by auto
    have "sorted (map (\<lambda>r. - the (jid r)) (r # rs))"
      using Cons by (metis sorted_sort_key)
    then have "\<forall>q \<in> set (r # rs). - the (jid r) \<le> - the (jid q)" by auto
    then have "\<forall>q \<in> set ?s. - the (jid r) \<le> - the (jid q)" by (simp only: Cons)
    then have "\<forall>q \<in> set rows. \<forall>k. namespace_id q = ns \<longrightarrow> jid q = Some k \<longrightarrow> k \<le> j"
      using j unfolding set by fastforce
    with r j Cons show ?thesis by (auto simp: latest_jid_def)
  qed
qed

lemma latest_jid_upper:
  "r \<in> set rows \<Longrightarrow> namespace_id r = ns \<Longrightarrow> jid r = Some k \<Longrightarrow>
    \<exists>j. latest_jid ns rows = Ok j \<and> k \<le> j"
  using latest_jid_spec [of ns rows] by fastforce

text \<open>Recording a jid takes one row off the list of local changes.\<close>

lemma updated_locally_update_jid:
  assumes "wf_table rows" "r \<in> set (updated_locally ns rows)"
  shows "updated_locally ns (update_jid r j rows) = filter (\<lambda>q. q \<noteq> r) (updated_locally ns rows)
    \<and> registry_view ns (update_jid r j rows) (path r) = Some (r\<lparr>jid := Some j\<rparr>)
    \<and> wf_table (update_jid r j rows)"
proof -
  let ?g = "\<lambda>q. if record_id q = record_id r then q\<lparr>jid := Some j\<rparr> else q"
  let ?in = "\<lambda>q. record_id q \<in> set (max_ids record_id path (filter (\<lambda>q. namespace_id q = ns) rows))"
  have r: "r \<in> set rows" "registry_view ns rows (path r) = Some r"
    using assms(2) set_updated_locally [OF assms(1)] by (auto dest: view_SomeD)
  have id: "record_id q = record_id r \<longleftrightarrow> q = r" if "q \<in> set rows" for q
    using ids_sorted_inj [OF assms(1) that r(1)] by auto
  have wf: "wf_table (update_jid r j rows)" using assms(1) by simp
  have "max_ids record_id path (filter (\<lambda>q. namespace_id q = ns) (map ?g rows)) =
      max_ids record_id path (filter (\<lambda>q. namespace_id q = ns) rows)"
    by (simp add: max_ids_def filter_map comp_def if_distrib cong: if_cong)
  then have "updated_locally ns (update_jid r j rows) =
      filter (\<lambda>q. jid q = None \<and> ?in q) (map ?g rows)"
    using updated_locally_current [OF wf, of ns] by (simp add: current_def update_jid_def)
  also have "\<dots> = filter (\<lambda>q. q \<noteq> r) (filter (\<lambda>q. jid q = None \<and> ?in q) rows)"
    using id unfolding filter_map filter_filter
    by (subst filter_cong [OF refl, of rows _ "\<lambda>q. (jid q = None \<and> ?in q) \<and> q \<noteq> r"])
       (auto intro!: map_idI)
  also have "filter (\<lambda>q. jid q = None \<and> ?in q) rows = updated_locally ns rows"
    using updated_locally_current [OF assms(1), of ns] by (simp add: current_def)
  finally show ?thesis using r(2) assms(1) by (simp add: view_update_jid)
qed

section \<open>Properties\<close>

definition sample_rows :: table where
  "sample_rows = create_records (\<lambda>_. 0)
     [\<lparr>cf_jid = Some 4, cf_path = ''a.cook'', cf_deleted = False, cf_size = 3,
       cf_modified_at = Timestamp 5 0, cf_namespace_id = 1\<rparr>,
      \<lparr>cf_jid = None, cf_path = ''b.cook'', cf_deleted = False, cf_size = 8,
       cf_modified_at = Timestamp 6 0, cf_namespace_id = 1\<rparr>,
      \<lparr>cf_jid = None, cf_path = ''a.cook'', cf_deleted = False, cf_size = 9,
       cf_modified_at = Timestamp 7 0, cf_namespace_id = 1\<rparr>] []"

lemma wf_sample_rows: "wf_table sample_rows"
  unfolding sample_rows_def by (rule wf_create) (simp add: ids_sorted_def)

text \<open>
  The rows to upload are exactly the current rows of the namespace's paths (for each path
  the one inserted last) that have no jid; no path appears twice, and they come in the
  order of their ids.
\<close>

theorem updated_locally_is_pending:
  assumes "wf_table rows"
  shows "set (updated_locally ns rows) = {r. jid r = None \<and> registry_view ns rows (path r) = Some r}
    \<and> distinct (map path (updated_locally ns rows))
    \<and> sorted (map record_id (updated_locally ns rows))"
  using set_updated_locally [OF assms] distinct_paths_updated_locally [OF assms]
  by (simp add: updated_locally_def)

theorem updated_locally_is_pending_witness:
  "set (updated_locally 1 sample_rows) =
     {r. jid r = None \<and> registry_view 1 sample_rows (path r) = Some r}"
  using updated_locally_is_pending [OF wf_sample_rows] by blast

text \<open>
  Recording the jid of an accepted commit takes exactly that record off the list of local
  changes: the others stay, in the same order; the record stays current for its path; and
  the ids stay ordered, so nothing that was deleted or changed later is resurrected.
\<close>

theorem accepted_commit_clears_one:
  assumes "wf_table rows" "r \<in> set (updated_locally ns rows)"
  shows "updated_locally ns (update_jid r j rows) = filter (\<lambda>q. q \<noteq> r) (updated_locally ns rows)
    \<and> registry_view ns (update_jid r j rows) (path r) = Some (r\<lparr>jid := Some j\<rparr>)
    \<and> wf_table (update_jid r j rows)"
  using updated_locally_update_jid [OF assms] .

theorem accepted_commit_clears_one_witness:
  "updated_locally 1 (update_jid (sample_rows ! 1) 5 sample_rows) = [sample_rows ! 2]"
proof -
  have e: "updated_locally 1 sample_rows = [sample_rows ! 1, sample_rows ! 2]"
    "sample_rows ! 2 \<noteq> sample_rows ! 1" by code_simp+
  then have "sample_rows ! 1 \<in> set (updated_locally 1 sample_rows)" by simp
  from accepted_commit_clears_one [OF wf_sample_rows this, of 5] e show ?thesis by simp
qed

end
