(* ===== verification/Indexer.thy ===== *)
theory Indexer
  imports Chunker Registry "HOL-Library.Multiset"
begin

text \<open>
  client/src/indexer.rs: comparing the storage directory with the registry. \<open>client\<close>
  is the whole state of a client: the file tree, the chunker's cache and the registry's
  rows.

  Parameters (\<open>walker\<close>): the directory walk of the walkdir crate, which of the paths are
  symbolic links, the lossy conversion of file names that are not UTF-8, and the order in
  which a hash map yields its keys. \<open>walker_ok\<close> states what the documentation of these
  promises.
\<close>

record client = chunker +
  records :: table

record dir_entry =
  entry_path :: pathbuf
  entry_depth :: nat
  entry_is_dir :: bool

record walker =
  walk :: "(dir_entry \<Rightarrow> bool) \<Rightarrow> pathbuf \<Rightarrow> (pathbuf \<times> node) list \<Rightarrow> dir_entry list"
  is_symlink :: "pathbuf \<Rightarrow> bool"
  to_slash_lossy :: "string \<Rightarrow> string"
  hash_order :: "string list \<Rightarrow> string list"

type_synonym db_files = "(string \<times> file_record) list"
type_synonym disk_files = "(string \<times> create_form) list"

section \<open>Building records\<close>

definition truncate_to_seconds :: "timestamp \<Rightarrow> timestamp" where
  "truncate_to_seconds t = Timestamp (unix_seconds t) 0"

definition I64_MAX :: nat where "I64_MAX = 2 ^ 63 - 1"

definition to_i64 :: "nat \<Rightarrow> (sync_error, int) res" where
  "to_i64 n = (if n \<le> I64_MAX then Ok (int n) else Err Convert)"

definition build_file_record ::
    "walker \<Rightarrow> pathbuf \<Rightarrow> pathbuf \<Rightarrow> int \<Rightarrow> ('z world_scheme, sync_error, create_form) prog" where
  "build_file_record w p base ns =
     and_then (map_err (from_io_error (path_string p)) (metadata p)) (\<lambda>(len, modified).
     and_then (case strip_prefix base p of
                 Some r \<Rightarrow> ret (to_slash_lossy w (path_string r)) | None \<Rightarrow> throw StripPrefix) (\<lambda>rel.
     and_then (lift_res (to_i64 len)) (\<lambda>sz.
       ret \<lparr>cf_jid = None, cf_path = rel, cf_deleted = False, cf_size = sz,
            cf_modified_at = truncate_to_seconds modified, cf_namespace_id = ns\<rparr>)))"

definition build_delete_form :: "file_record \<Rightarrow> int \<Rightarrow> delete_form" where
  "build_delete_form rec ns =
     \<lparr>df_path = path rec, df_jid = None, df_size = file_size rec,
      df_modified_at = modified_at rec, df_deleted = True, df_namespace_id = ns\<rparr>"

section \<open>Scanning\<close>

definition filter_eligible :: "walker \<Rightarrow> pathbuf \<Rightarrow> bool" where
  "filter_eligible w p = (if is_symlink w p then False else is_text p \<or> is_binary p)"

definition entry_name :: "dir_entry \<Rightarrow> string" where
  "entry_name e = (if entry_path e = [] then [] else normal_name (last (entry_path e)))"

definition is_dot_dir :: "dir_entry \<Rightarrow> bool" where
  "is_dot_dir e \<longleftrightarrow>
     0 < entry_depth e \<and> utf8_ok (to_bytes (entry_name e)) \<and> prefix [DOT] (entry_name e)"

definition descend :: "dir_entry \<Rightarrow> bool" where
  "descend e \<longleftrightarrow> \<not> (entry_is_dir e \<and> is_dot_dir e)"

text \<open>The loop over the walk: each eligible path's record goes into the hash map.\<close>

fun collect_records ::
    "walker \<Rightarrow> pathbuf \<Rightarrow> int \<Rightarrow> pathbuf list \<Rightarrow> disk_files \<Rightarrow> ('z world_scheme, sync_error, disk_files) prog" where
  "collect_records w base ns [] acc = ret acc"
| "collect_records w base ns (p # ps) acc =
     and_then (build_file_record w p base ns) (\<lambda>rec.
       collect_records w base ns ps (AList.update (cf_path rec) rec acc))"

definition eligible_paths :: "walker \<Rightarrow> pathbuf \<Rightarrow> (pathbuf \<times> node) list \<Rightarrow> pathbuf list" where
  "eligible_paths w base fs = filter (filter_eligible w) (map entry_path (walk w descend base fs))"

definition get_file_records_from_disk ::
    "walker \<Rightarrow> pathbuf \<Rightarrow> int \<Rightarrow> ('z world_scheme, sync_error, disk_files) prog" where
  "get_file_records_from_disk w base ns = (\<lambda>s.
     collect_records w base ns (eligible_paths w base (files s)) [] s)"

definition get_file_records_from_registry :: "int \<Rightarrow> table \<Rightarrow> db_files" where
  "get_file_records_from_registry ns rows =
     fold (\<lambda>rec cache. AList.update (path rec) rec cache) (non_deleted ns rows) []"

section \<open>Comparing\<close>

text \<open>Iteration over a hash map, in whatever order it yields the keys.\<close>

definition iter_map :: "walker \<Rightarrow> (string \<times> 'v) list \<Rightarrow> (string \<times> 'v) list" where
  "iter_map w m = map (\<lambda>k. (k, the (map_of m k))) (hash_order w (map fst m))"

fun compare_db :: "disk_files \<Rightarrow> int \<Rightarrow> db_files \<Rightarrow> delete_form list \<times> create_form list
    \<Rightarrow> delete_form list \<times> create_form list" where
  "compare_db from_fs ns [] acc = acc"
| "compare_db from_fs ns ((p, db_file) # r) (to_remove, to_add) =
     compare_db from_fs ns r
       (case map_of from_fs p of
          Some disk_file \<Rightarrow>
            if \<not> same_file db_file disk_file then (to_remove, to_add @ [disk_file])
            else (to_remove, to_add)
        | None \<Rightarrow> (to_remove @ [build_delete_form db_file ns], to_add))"

fun compare_disk :: "db_files \<Rightarrow> disk_files \<Rightarrow> create_form list \<Rightarrow> create_form list" where
  "compare_disk from_db [] to_add = to_add"
| "compare_disk from_db ((p, disk_file) # r) to_add =
     compare_disk from_db r
       (if map_of from_db p = None then to_add @ [disk_file] else to_add)"

definition compare_records ::
    "walker \<Rightarrow> db_files \<Rightarrow> disk_files \<Rightarrow> int \<Rightarrow> delete_form list \<times> create_form list" where
  "compare_records w from_db from_fs ns =
     (case compare_db from_fs ns (iter_map w from_db) ([], []) of
        (to_remove, to_add) \<Rightarrow> (to_remove, compare_disk from_db (iter_map w from_fs) to_add))"

definition check_index_once ::
    "walker \<Rightarrow> (int list \<Rightarrow> nat) \<Rightarrow> int \<Rightarrow> ('z client_scheme, sync_error, bool) prog" where
  "check_index_once w gap ns = (\<lambda>s.
     (let from_db = get_file_records_from_registry ns (records s) in
      and_then (get_file_records_from_disk w (base_path s) ns) (\<lambda>from_fs s.
        (case compare_records w from_db from_fs ns of (to_remove, to_add) \<Rightarrow>
           if to_remove \<noteq> [] \<or> to_add \<noteq> [] then
             (let rows1 = (if to_remove \<noteq> [] then delete_records gap to_remove (records s)
                           else records s);
                  rows2 = (if to_add \<noteq> [] then create_records gap to_add rows1 else rows1)
              in (Ok True, s\<lparr>records := rows2\<rparr>))
           else (Ok False, s)))) s)"

section \<open>What the parameters promise\<close>

text \<open>
  The entry of a path below the root of a walk; the walk yields the entries of the tree
  whose every step from the root passes the filter (walkdir: entries that do not satisfy the
  predicate are not yielded and directories that do not are not descended into); names that
  are UTF-8 are not changed; a hash map yields each key once.
\<close>

definition entry_of :: "(pathbuf \<times> node) list \<Rightarrow> pathbuf \<Rightarrow> pathbuf \<Rightarrow> dir_entry" where
  "entry_of fs base p =
     \<lparr>entry_path = p, entry_depth = length p - length base, entry_is_dir = (map_of fs p = Some Dir)\<rparr>"

definition walked :: "(dir_entry \<Rightarrow> bool) \<Rightarrow> pathbuf \<Rightarrow> (pathbuf \<times> node) list \<Rightarrow> pathbuf \<Rightarrow> bool" where
  "walked pred base fs p \<longleftrightarrow> prefix base p \<and> map_of fs p \<noteq> None \<and>
     (\<forall>q \<in> set (prefixes p). prefix base q \<longrightarrow> pred (entry_of fs base q))"

definition walker_ok :: "walker \<Rightarrow> bool" where
  "walker_ok w \<longleftrightarrow>
     (\<forall>pred base fs. set (walk w pred base fs) = entry_of fs base ` {p. walked pred base fs p}) \<and>
     (\<forall>n. utf8_ok (to_bytes n) \<longrightarrow> to_slash_lossy w n = n) \<and>
     (\<forall>ks. mset (hash_order w ks) = mset ks)"

end
