(* ===== verification/Remote.thy ===== *)
theory Remote
  imports World Http
begin

text \<open>
  client/src/remote.rs: the client of the server's HTTP interface. Each operation builds a
  request, sends it, and maps the answer's status to a result; \<open>download_batch\<close> parses a
  multipart stream incrementally.

  Parameters (\<open>http\<close>): sending a request and receiving its response (any function on a
  state, so any server and any network), which strings are valid header values, the text of
  a status, form encoding, JSON decoding, and the crate's version. A response's body is the
  list of pieces the network delivers, the last of which may be a failure.
\<close>

section \<open>The interface to the server\<close>

datatype send_error = Timeout string | SendFailed string

record response_record =
  rr_id :: int
  rr_path :: string
  rr_deleted :: bool
  rr_chunk_ids :: string

datatype commit_result = Success int | NeedChunks string

record 'srv http =
  send :: "request \<Rightarrow> ('srv, send_error, response) prog"
  header_ok :: "string \<Rightarrow> bool"
  status_text :: "nat \<Rightarrow> string"
  form_encode :: "(string \<times> string) list \<Rightarrow> bytes"
  parse_records :: "bytes \<Rightarrow> (string, response_record list) res"
  parse_commit :: "bytes \<Rightarrow> (string, commit_result) res"
  show_int :: "int \<Rightarrow> string"
  pkg_version :: string

record remote =
  api_endpoint :: string
  token :: string
  uuid :: string

definition REQUEST_TIMEOUT_SECS :: int where "REQUEST_TIMEOUT_SECS = 60"

definition default_headers :: "'srv http \<Rightarrow> (string \<times> string) list" where
  "default_headers h =
     [(''user-agent'', ''cooklang-sync-client/'' @ pkg_version h),
      (''x-client-version'', pkg_version h)]"

definition send_message :: "send_error \<Rightarrow> string" where
  "send_message e = (case e of Timeout m \<Rightarrow> m | SendFailed m \<Rightarrow> m)"

text \<open>\<open>auth_headers\<close>: the header value's \<open>unwrap\<close> panics on a token it cannot hold.\<close>

definition auth_headers :: "'srv http \<Rightarrow> remote \<Rightarrow> ('srv, sync_error, (string \<times> string) list) prog" where
  "auth_headers h r =
     (let v = ''Bearer '' @ token r in
      if header_ok h v then ret [(''authorization'', v)] else panic)"

definition send_request :: "'srv http \<Rightarrow> request \<Rightarrow> ('srv, sync_error, response) prog" where
  "send_request h rq =
     map_err (\<lambda>e. ReqwestError (send_message e))
       (send h (rq\<lparr>req_headers := default_headers h @ req_headers rq\<rparr>))"

text \<open>The status match every operation ends with.\<close>

definition by_status ::
    "'srv http \<Rightarrow> string \<Rightarrow> nat \<Rightarrow> ('srv, sync_error, 'a) prog \<Rightarrow> ('srv, sync_error, 'a) prog" where
  "by_status h what status ok =
     (if status = 200 then ok
      else if status = 401 then throw Unauthorized
      else if status = 402 then throw PaymentRequired
      else throw (Unknown (what @ '' failed with status: '' @ status_text h status)))"

text \<open>\<open>RequestBuilder::form\<close> also sets the content type.\<close>

definition FORM_HEADER :: "string \<times> string" where
  "FORM_HEADER = (''content-type'', ''application/x-www-form-urlencoded'')"

section \<open>Operations\<close>

definition upload :: "'srv http \<Rightarrow> remote \<Rightarrow> string \<Rightarrow> bytes \<Rightarrow> ('srv, sync_error, unit) prog" where
  "upload h r chunk content =
     and_then (auth_headers h r) (\<lambda>hs.
     and_then (send_request h
        \<lparr>req_method = POST, req_url = api_endpoint r @ ''/chunks/'' @ chunk,
         req_headers = hs, req_body = content\<rparr>) (\<lambda>resp.
       by_status h ''Upload chunk'' (resp_status resp) (ret ())))"

definition CRLF :: string where "CRLF = [CR, LF]"
definition QUOTE :: char where "QUOTE = CHR 0x22"

text \<open>One section of the upload body, and the body.\<close>

definition upload_part :: "string \<Rightarrow> string \<times> bytes \<Rightarrow> bytes" where
  "upload_part boundary c =
     (case c of (chunk_id, content) \<Rightarrow>
        to_bytes (''--'' @ boundary @ CRLF @
          ''Content-Disposition: form-data; name='' @ [QUOTE] @ chunk_id @ [QUOTE] @ CRLF @
          ''Content-Type: application/octet-stream'' @ CRLF @ CRLF)
        @ content @ to_bytes CRLF)"

definition upload_body :: "string \<Rightarrow> (string \<times> bytes) list \<Rightarrow> bytes" where
  "upload_body boundary chunks =
     concat (map (upload_part boundary) chunks) @ to_bytes (''--'' @ boundary @ ''--'' @ CRLF)"

definition upload_batch ::
    "'srv http \<Rightarrow> remote \<Rightarrow> string \<Rightarrow> (string \<times> bytes) list \<Rightarrow> ('srv, sync_error, unit) prog" where
  "upload_batch h r fresh_uuid chunks =
     (let boundary = replicate 24 CHR ''-'' @ fresh_uuid;
          content_type = ''multipart/form-data; boundary='' @ boundary in
      and_then (auth_headers h r) (\<lambda>hs.
      if \<not> header_ok h content_type then panic
      else
        and_then (send_request h
          \<lparr>req_method = POST, req_url = api_endpoint r @ ''/chunks/upload'',
           req_headers = hs @ [(''content-type'', content_type)],
           req_body = upload_body boundary chunks\<rparr>) (\<lambda>resp.
          by_status h ''Upload batch'' (resp_status resp) (ret ()))))"

definition download :: "'srv http \<Rightarrow> remote \<Rightarrow> string \<Rightarrow> ('srv, sync_error, bytes) prog" where
  "download h r chunk =
     and_then (auth_headers h r) (\<lambda>hs.
     and_then (send_request h
        \<lparr>req_method = GET, req_url = api_endpoint r @ ''/chunks/'' @ chunk,
         req_headers = hs, req_body = []\<rparr>) (\<lambda>resp.
       by_status h ''Download chunk'' (resp_status resp)
         (case whole_body (resp_body resp) of
            Ok b \<Rightarrow> ret b | Err _ \<Rightarrow> throw BodyExtractError | Panic \<Rightarrow> panic)))"

definition json :: "(bytes \<Rightarrow> (string, 'a) res) \<Rightarrow> stream_item list \<Rightarrow> ('srv, sync_error, 'a) prog" where
  "json parse body =
     (case whole_body body of
        Ok b \<Rightarrow> map_err ReqwestError (lift_res (parse b))
      | Err e \<Rightarrow> throw (ReqwestError e) | Panic \<Rightarrow> panic)"

definition list_records :: "'srv http \<Rightarrow> remote \<Rightarrow> int \<Rightarrow> ('srv, sync_error, response_record list) prog" where
  "list_records h r local_jid =
     and_then (auth_headers h r) (\<lambda>hs.
     and_then (send_request h
        \<lparr>req_method = GET,
         req_url = api_endpoint r @ ''/metadata/list?jid='' @ show_int h local_jid,
         req_headers = hs, req_body = []\<rparr>) (\<lambda>resp.
       by_status h ''List metadata'' (resp_status resp) (json (parse_records h) (resp_body resp))))"

text \<open>\<open>poll\<close>: a timeout of the client is not an error.\<close>

definition poll :: "'srv http \<Rightarrow> remote \<Rightarrow> ('srv, sync_error, unit) prog" where
  "poll h r =
     and_then (auth_headers h r) (\<lambda>hs s.
     (case send h
         \<lparr>req_method = GET,
          req_url = api_endpoint r @ ''/metadata/poll?seconds='' @
            show_int h (REQUEST_TIMEOUT_SECS + 10) @ ''&uuid='' @ uuid r,
          req_headers = default_headers h @ hs, req_body = []\<rparr> s of
        (Ok resp, s') \<Rightarrow> by_status h ''Poll metadata'' (resp_status resp) (ret ()) s'
      | (Err (Timeout m), s') \<Rightarrow> (Ok (), s')
      | (Err (SendFailed m), s') \<Rightarrow> (Err (ReqwestError m), s')
      | (Panic, s') \<Rightarrow> (Panic, s')))"

definition commit ::
    "'srv http \<Rightarrow> remote \<Rightarrow> string \<Rightarrow> bool \<Rightarrow> string \<Rightarrow> ('srv, sync_error, commit_result) prog" where
  "commit h r p is_deleted chunk_ids =
     and_then (auth_headers h r) (\<lambda>hs.
     and_then (send_request h
        \<lparr>req_method = POST,
         req_url = api_endpoint r @ ''/metadata/commit'' @ ''?uuid='' @ uuid r,
         req_headers = hs @ [FORM_HEADER],
         req_body = form_encode h
           [(''deleted'', if is_deleted then ''true'' else ''false''),
            (''chunk_ids'', chunk_ids), (''path'', p)]\<rparr>) (\<lambda>resp.
       by_status h ''Commit metadata'' (resp_status resp) (json (parse_commit h) (resp_body resp))))"

section \<open>The streaming parser\<close>

definition find_boundary :: "bytes \<Rightarrow> bytes \<Rightarrow> nat option" where
  "find_boundary data boundary = find_window boundary data"

definition find_double_crlf :: "bytes \<Rightarrow> nat option" where
  "find_double_crlf data = find_window (to_bytes (CRLF @ CRLF)) data"

text \<open>
  \<open>slice::windows\<close> panics on a size of zero, so an empty boundary would panic.
\<close>

definition extract_next_part :: "bytes \<Rightarrow> bytes \<Rightarrow> (sync_error, (bytes \<times> bytes) option) res" where
  "extract_next_part buffer boundary =
     (if boundary = [] then Panic
      else (case find_boundary buffer boundary of
              None \<Rightarrow> Ok None
            | Some start \<Rightarrow>
                (let rest = drop (start + length boundary) buffer in
                 (case find_boundary rest boundary of
                    None \<Rightarrow> Ok None
                  | Some next_boundary \<Rightarrow>
                      Ok (Some (take next_boundary rest, drop next_boundary rest))))))"

definition CHUNK_ID_HEADER :: string where "CHUNK_ID_HEADER = ''X-Chunk-ID:''"

definition process_part :: "bytes \<Rightarrow> (sync_error, (string \<times> bytes) option) res" where
  "process_part part =
     (case find_double_crlf part of
        None \<Rightarrow> Ok None
      | Some headers_end \<Rightarrow>
          if \<not> utf8_ok (take headers_end part) then Err (BatchDownloadError ''Invalid headers'')
          else
            (case find (prefix CHUNK_ID_HEADER) (str_lines (of_bytes (take headers_end part))) of
               None \<Rightarrow> Err (BatchDownloadError ''No chunk ID found'')
             | Some line \<Rightarrow>
                 (case nth_opt (split_str '': '' line) 1 of
                    None \<Rightarrow> Err (BatchDownloadError ''No chunk ID found'')
                  | Some v \<Rightarrow>
                      if headers_end + 4 \<le> length part - 2 then
                        Ok (Some (trim v,
                          take (length part - 2 - (headers_end + 4)) (drop (headers_end + 4) part)))
                      else Panic)))"

lemma extract_next_part_shorter:
  assumes "extract_next_part buffer boundary = Ok (Some (part, rest))"
  shows "length rest < length buffer"
proof -
  obtain st nx where b: "boundary \<noteq> []" "find_window boundary buffer = Some st"
    "rest = drop nx (drop (st + length boundary) buffer)"
    using assms
    by (auto simp: extract_next_part_def find_boundary_def Let_def split: option.splits if_splits)
  then show ?thesis using find_window_bound [OF b(2)] by (cases boundary) auto
qed

text \<open>The inner loop: yield every complete part of the buffer, keep the rest.\<close>

function drain :: "bytes \<Rightarrow> bytes \<Rightarrow> (string \<times> bytes) list \<times> (sync_error, bytes) res" where
  "drain boundary buffer =
     (case extract_next_part buffer boundary of
        Panic \<Rightarrow> ([], Panic)
      | Err e \<Rightarrow> ([], Err e)
      | Ok None \<Rightarrow> ([], Ok buffer)
      | Ok (Some (part, rest)) \<Rightarrow>
          (case process_part part of
             Panic \<Rightarrow> ([], Panic)
           | Err e \<Rightarrow> ([], Err e)
           | Ok None \<Rightarrow> drain boundary rest
           | Ok (Some item) \<Rightarrow> (case drain boundary rest of (items, r) \<Rightarrow> (item # items, r))))"
  by pat_completeness auto
termination
  by (relation "measure (\<lambda>(boundary, buffer). length buffer)")
     (auto dest: extract_next_part_shorter)

declare drain.simps [simp del]

text \<open>The outer loop over the pieces the network delivers.\<close>

fun parse_stream ::
    "bytes \<Rightarrow> stream_item list \<Rightarrow> bytes \<Rightarrow> (string \<times> bytes) list \<times> (sync_error, unit) res" where
  "parse_stream boundary [] buffer = ([], Ok ())"
| "parse_stream boundary (Broken e # r) buffer = ([], Err (ReqwestError e))"
| "parse_stream boundary (Data chunk # r) buffer =
     (case drain boundary (buffer @ chunk) of
        (items, Ok rest) \<Rightarrow>
          (case parse_stream boundary r rest of (later, res) \<Rightarrow> (items @ later, res))
      | (items, Err e) \<Rightarrow> (items, Err e)
      | (items, Panic) \<Rightarrow> (items, Panic))"

text \<open>The response of a batch download: the items yielded, in order, and how it ended.\<close>

definition batch_response ::
    "'srv http \<Rightarrow> response \<Rightarrow> (string \<times> bytes) list \<times> (sync_error, unit) res" where
  "batch_response h resp =
     (if resp_status resp = 200 then
        (case resp_content_type resp of
           None \<Rightarrow> ([], Err (BatchDownloadError ''No content-type header''))
         | Some content_type \<Rightarrow>
             (case nth_opt (split_str ''boundary='' content_type) 1 of
                None \<Rightarrow> ([], Err (BatchDownloadError ''No boundary in content-type header''))
              | Some boundary \<Rightarrow> parse_stream (to_bytes (''--'' @ boundary)) (resp_body resp) []))
      else if resp_status resp = 401 then ([], Err Unauthorized)
      else if resp_status resp = 402 then ([], Err PaymentRequired)
      else ([], Err (Unknown (''Download batch failed with status: '' @ status_text h (resp_status resp)))))"

definition download_batch ::
    "'srv http \<Rightarrow> remote \<Rightarrow> string list \<Rightarrow>
     ('srv, sync_error, (string \<times> bytes) list \<times> (sync_error, unit) res) prog" where
  "download_batch h r chunk_ids =
     and_then (auth_headers h r) (\<lambda>hs.
     and_then (send_request h
        \<lparr>req_method = POST, req_url = api_endpoint r @ ''/chunks/download'',
         req_headers = hs @ [FORM_HEADER],
         req_body = form_encode h (map (\<lambda>i. (''chunk_ids[]'', i)) chunk_ids)\<rparr>) (\<lambda>resp.
       ret (batch_response h resp)))"

end
