(* ===== verification/Syncer.thy ===== *)
theory Syncer
  imports Indexer Remote
begin

text \<open>
  client/src/syncer.rs: one upload pass and one download pass. The state is a pair: the
  client (file tree, cache, registry) and whatever the HTTP transport works on (a server, a
  network), which only the operations of \<open>Remote\<close> touch. The chunker and the database
  connection are locked for a whole pass by the program; the passes are modelled one at a
  time. \<open>batch_uuid\<close> are the random identifiers drawn for the batches of an upload.
\<close>

section \<open>Two states\<close>

definition on_client :: "('c, 'e, 'a) prog \<Rightarrow> ('c \<times> 'v, 'e, 'a) prog" where
  "on_client m = (\<lambda>(c, v). case m c of (r, c') \<Rightarrow> (r, (c', v)))"

definition on_server :: "('v, 'e, 'a) prog \<Rightarrow> ('c \<times> 'v, 'e, 'a) prog" where
  "on_server m = (\<lambda>(c, v). case m v of (r, v') \<Rightarrow> (r, (c, v')))"

definition set_records :: "(table \<Rightarrow> table) \<Rightarrow> ('z client_scheme, 'e, unit) prog" where
  "set_records f = (\<lambda>c. (Ok (), c\<lparr>records := f (records c)\<rparr>))"

record 'srv sync_env =
  ext :: externals
  http :: "'srv http"
  remote_client :: remote
  id_gap :: "int list \<Rightarrow> nat"
  namespace :: int
  batch_uuid :: "nat \<Rightarrow> string"

type_synonym ('z, 'srv, 'a) syncing = "('z client_scheme \<times> 'srv, sync_error, 'a) prog"

definition MAX_UPLOAD_SIZE :: nat where "MAX_UPLOAD_SIZE = 3000000"
definition COMMA :: char where "COMMA = CHR '',''"

section \<open>Upload\<close>

text \<open>The upload queue: the batches that are closed, the one being filled, its size.\<close>

record upload_queue =
  closed :: "(string \<times> bytes) list list"
  current_batch :: "(string \<times> bytes) list"
  batch_size :: nat

definition batches :: "upload_queue \<Rightarrow> (string \<times> bytes) list list" where
  "batches q = closed q @ [current_batch q]"

definition push_chunk :: "string \<Rightarrow> bytes \<Rightarrow> upload_queue \<Rightarrow> upload_queue" where
  "push_chunk c data q =
     (let size = batch_size q + length data;
          last_batch = current_batch q @ [(c, data)] in
      if size > MAX_UPLOAD_SIZE
      then \<lparr>closed = closed q @ [last_batch], current_batch = [], batch_size = 0\<rparr>
      else \<lparr>closed = closed q, current_batch = last_batch, batch_size = size\<rparr>)"

fun queue_chunks :: "string list \<Rightarrow> upload_queue \<Rightarrow> ('z chunker_scheme, sync_error, upload_queue) prog" where
  "queue_chunks [] q = ret q"
| "queue_chunks (c # cs) q =
     and_then (read_chunk c) (\<lambda>data. queue_chunks cs (push_chunk c data q))"

fun upload_files ::
    "'srv sync_env \<Rightarrow> file_record list \<Rightarrow> upload_queue \<Rightarrow> bool \<Rightarrow>
     ('z, 'srv, upload_queue \<times> bool) syncing" where
  "upload_files e [] q all_commited = ret (q, all_commited)"
| "upload_files e (f # fs) q all_commited =
     and_then (if \<not> deleted f then on_client (hashify (ext e) (path f)) else ret [[]]) (\<lambda>chunk_ids.
     and_then (on_server (commit (http e) (remote_client e) (path f) (deleted f)
                 (join_with [COMMA] chunk_ids))) (\<lambda>r.
       (case r of
          Success j \<Rightarrow>
            and_then (on_client (set_records (update_jid f j))) (\<lambda>_. upload_files e fs q all_commited)
        | NeedChunks chunks \<Rightarrow>
            and_then (on_client (queue_chunks (split_on COMMA chunks) q)) (\<lambda>q'.
              upload_files e fs q' False))))"

fun send_batches :: "'srv sync_env \<Rightarrow> nat \<Rightarrow> (string \<times> bytes) list list \<Rightarrow> ('z, 'srv, unit) syncing" where
  "send_batches e n [] = ret ()"
| "send_batches e n (b # bs) =
     and_then (if b \<noteq> [] then on_server (upload_batch (http e) (remote_client e) (batch_uuid e n) b)
               else ret ()) (\<lambda>_. send_batches e (Suc n) bs)"

definition check_upload_once :: "'srv sync_env \<Rightarrow> ('z, 'srv, bool) syncing" where
  "check_upload_once e = (\<lambda>s.
     (let to_upload = updated_locally (namespace e) (records (fst s)) in
      and_then (upload_files e to_upload \<lparr>closed = [], current_batch = [], batch_size = 0\<rparr> True)
        (\<lambda>(q, all_commited).
      and_then (send_batches e 0 (batches q)) (\<lambda>_. ret all_commited)) s))"

section \<open>Download\<close>

definition latest_local :: "'srv sync_env \<Rightarrow> 'z client_scheme \<Rightarrow> int" where
  "latest_local e c = (case latest_jid (namespace e) (records c) of Ok j \<Rightarrow> j | _ \<Rightarrow> 0)"

text \<open>The first loop: warm the cache with what is on disk, queue the chunks it lacks.\<close>

fun collect_needed :: "'srv sync_env \<Rightarrow> response_record list \<Rightarrow> string list \<Rightarrow>
    ('z chunker_scheme, sync_error, string list) prog" where
  "collect_needed e [] queue = ret queue"
| "collect_needed e (d # ds) queue =
     (if rr_deleted d then collect_needed e ds queue
      else
        and_then (\<lambda>c. if exists_file (rr_path d) c
                   then and_then (hashify (ext e) (rr_path d)) (\<lambda>_. ret ()) c else (Ok (), c)) (\<lambda>_ c.
          collect_needed e ds
            (queue @ filter (\<lambda>h. \<not> check_chunk h c) (split_on COMMA (rr_chunk_ids d))) c))"

fun save_downloaded :: "'srv sync_env \<Rightarrow> (string \<times> bytes) list \<Rightarrow> ('z chunker_scheme, sync_error, unit) prog" where
  "save_downloaded e [] = ret ()"
| "save_downloaded e ((chunk_id, data) # r) =
     and_then (save_chunk (ext e) chunk_id data) (\<lambda>_. save_downloaded e r)"

definition fetch_chunks :: "'srv sync_env \<Rightarrow> string list \<Rightarrow> ('z, 'srv, unit) syncing" where
  "fetch_chunks e queue =
     (if queue = [] then ret ()
      else
        and_then (on_server (download_batch (http e) (remote_client e) queue)) (\<lambda>(items, outcome).
        and_then (on_client (save_downloaded e items)) (\<lambda>_. lift_res outcome)))"

definition build_file_record :: "string \<Rightarrow> pathbuf \<Rightarrow> int \<Rightarrow> int \<Rightarrow> ('z world_scheme, sync_error, create_form) prog" where
  "build_file_record p base j ns =
     and_then (map_err (from_io_error p) (metadata (push_path base p))) (\<lambda>(len, modified).
     and_then (lift_res (to_i64 len)) (\<lambda>sz.
       ret \<lparr>cf_jid = Some j, cf_path = p, cf_deleted = False, cf_size = sz,
            cf_modified_at = truncate_to_seconds modified, cf_namespace_id = ns\<rparr>))"

definition build_delete_form :: "string \<Rightarrow> timestamp \<Rightarrow> int \<Rightarrow> int \<Rightarrow> delete_form" where
  "build_delete_form p now j ns =
     \<lparr>df_path = p, df_jid = Some j, df_size = 0, df_modified_at = truncate_to_seconds now,
      df_deleted = True, df_namespace_id = ns\<rparr>"

text \<open>The last loop: write or delete the file, and record it with the server's id.\<close>

definition apply_record :: "'srv sync_env \<Rightarrow> response_record \<Rightarrow> ('z client_scheme, sync_error, unit) prog" where
  "apply_record e d =
     (if rr_deleted d then
        (\<lambda>c. and_then (set_records (delete_records (id_gap e)
                 [build_delete_form (rr_path d) (clock c) (rr_id d) (namespace e)])) (\<lambda>_ c.
             if exists_file (rr_path d) c then delete (rr_path d) c else (Ok (), c)) c)
      else
        and_then (save (ext e) (rr_path d) (split_on COMMA (rr_chunk_ids d))) (\<lambda>_ c.
          and_then (build_file_record (rr_path d) (base_path c) (rr_id d) (namespace e)) (\<lambda>form.
            set_records (create_records (id_gap e) [form])) c))"

definition check_download_once :: "'srv sync_env \<Rightarrow> ('z, 'srv, bool) syncing" where
  "check_download_once e = (\<lambda>s.
     and_then (on_server (list_records (http e) (remote_client e) (latest_local e (fst s)))) (\<lambda>to_download.
     and_then (on_client (collect_needed e to_download [])) (\<lambda>download_queue.
     and_then (fetch_chunks e download_queue) (\<lambda>_.
     and_then (on_client (for_each (apply_record e) to_download)) (\<lambda>_.
       ret (to_download \<noteq> []))))) s)"

section \<open>One-off upload\<close>

text \<open>
  \<open>run_upload_once\<close> of client/src/lib.rs: index, upload, and once more when chunks had to
  be sent first.
\<close>

definition run_upload_once :: "walker \<Rightarrow> 'srv sync_env \<Rightarrow> ('z, 'srv, unit) syncing" where
  "run_upload_once w e =
     and_then (on_client (check_index_once w (id_gap e) (namespace e))) (\<lambda>_.
     and_then (check_upload_once e) (\<lambda>all_commited.
       if all_commited then ret () else and_then (check_upload_once e) (\<lambda>_. ret ())))"

definition run_download_once :: "'srv sync_env \<Rightarrow> ('z, 'srv, unit) syncing" where
  "run_download_once e = and_then (check_download_once e) (\<lambda>_. ret ())"

end
