(* ===== verification/WorldFacts.thy ===== *)
theory WorldFacts
  imports World
begin

text \<open>
  Facts about the file system operations: what each one changes and keeps, that the tree
  stays well formed, and when making directories succeeds. \<open>files_only\<close> is the frame
  relation of the file operations (they touch nothing but the tree).
\<close>

section \<open>Frames\<close>

definition files_only :: "'z world_scheme \<Rightarrow> 'z world_scheme \<Rightarrow> bool" where
  "files_only w w' \<longleftrightarrow> w' = w\<lparr>files := files w'\<rparr>"

lemma files_only_refl [simp]: "files_only w w"
  by (simp add: files_only_def)

lemma files_only_trans: "files_only u v \<Longrightarrow> files_only v w \<Longrightarrow> files_only u w"
  unfolding files_only_def by (metis world.surjective world.update_convs(1))

lemma files_only_clock: "files_only w w' \<Longrightarrow> clock w' = clock w"
  unfolding files_only_def by (metis world.select_convs(3) world.surjective world.update_convs(1))

lemma reflp_files_only [prog_intros]: "reflp files_only"
  by (simp add: reflp_def)

lemma transp_files_only [prog_intros]: "transp files_only"
  by (rule transpI) (rule files_only_trans)

lemma files_only_put [simp]: "files_only w (put_node p n w)"
  by (simp add: files_only_def put_node_def)

lemma files_only_drop [simp]: "files_only w (drop_node p w)"
  by (simp add: files_only_def drop_node_def)

lemma files_only_write [simp]: "files_only w (write_file p b w)"
  by (simp add: write_file_def)

lemma keeps_open_file [prog_intros]: "keeps files_only (open_file p)"
  by (auto simp: keeps_def open_file_def split: option.splits)

lemma keeps_read_handle [prog_intros]: "keeps files_only (read_handle n)"
  by (cases n) (auto simp: read_handle_def intro!: prog_intros)

lemma keeps_create_file [prog_intros]: "keeps files_only (create_file p)"
  by (auto simp: keeps_def create_file_def split: option.splits)

lemma files_only_make_dirs: "files_only w (snd (make_dirs qs w))"
proof (induction qs arbitrary: w)
  case (Cons q qs)
  have "files_only w (snd (make_dirs qs (put_node q Dir w)))"
    using files_only_put Cons.IH by (rule files_only_trans)
  with Cons.IH show ?case by (auto split: option.splits node.splits)
qed (simp add: prog_simps)

lemma keeps_create_dir_all [prog_intros]: "keeps files_only (create_dir_all p)"
  by (simp add: keeps_def create_dir_all_def files_only_make_dirs)

lemma keeps_remove_file [prog_intros]: "keeps files_only (remove_file p)"
  by (auto simp: keeps_def remove_file_def split: option.splits node.splits)

lemma keeps_remove_dir [prog_intros]: "keeps files_only (remove_dir p)"
  by (auto simp: keeps_def remove_dir_def split: option.splits node.splits)

section \<open>Contents\<close>

lemma content_at_put [simp]:
  "content_at (put_node p n w) q =
     (if q = p then (case n of File b t \<Rightarrow> Some b | Dir \<Rightarrow> None) else content_at w q)"
  by (simp add: content_at_def)

lemma content_at_drop [simp]:
  "content_at (drop_node p w) q = (if q = p then None else content_at w q)"
  by (simp add: content_at_def)

lemma content_at_SomeD: "content_at w p = Some b \<Longrightarrow> \<exists>t. node_at w p = Some (File b t)"
  by (auto simp: content_at_def split: option.splits node.splits)

lemma content_at_file [simp]: "node_at w p = Some (File b t) \<Longrightarrow> content_at w p = Some b"
  by (simp add: content_at_def)

lemma content_at_not_file [simp]:
  "node_at w p = Some Dir \<Longrightarrow> content_at w p = None"
  "node_at w p = None \<Longrightarrow> content_at w p = None"
  by (simp_all add: content_at_def)

lemma open_read:
  "content_at w p = Some b \<Longrightarrow>
   and_then (map_err g (open_file p)) (\<lambda>n. and_then (map_err g (read_handle n)) k) w = k b w"
  by (auto dest!: content_at_SomeD simp: and_then_def map_err_def open_file_def read_handle_def
      prog_simps)

section \<open>Well-formedness\<close>

lemma dir_at_put_Dir: "dir_at w q \<Longrightarrow> dir_at (put_node p Dir w) q"
  by (auto simp: dir_at_def)

lemma dir_at_put_File:
  "dir_at w q \<Longrightarrow> node_at w p \<noteq> Some Dir \<Longrightarrow> dir_at (put_node p n w) q"
  by (auto simp: dir_at_def)

lemma wf_put_Dir:
  assumes "wf_world w" "p \<noteq> []" "dir_at w (butlast p)"
  shows "wf_world (put_node p Dir w)"
  using assms by (auto simp: wf_world_def intro: dir_at_put_Dir)

lemma wf_put_File:
  assumes "wf_world w" "p \<noteq> []" "dir_at w (butlast p)" "node_at w p \<noteq> Some Dir"
  shows "wf_world (put_node p (File b t) w)"
  using assms by (auto simp: wf_world_def intro: dir_at_put_File)

lemma wf_rewrite_file:
  "wf_world w \<Longrightarrow> node_at w p = Some (File b t) \<Longrightarrow> wf_world (put_node p (File c u) w)"
  by (intro wf_put_File) (auto dest: wf_worldD)

lemma file_has_no_child:
  assumes "wf_world w" "node_at w p = Some (File b t)"
  shows "\<not> has_child w p"
proof
  assume "has_child w p"
  then obtain c n where "node_at w (p @ [c]) = Some n" by (auto simp: has_child_iff)
  with assms(1) have "dir_at w p" by (auto dest: wf_worldD)
  with assms show False by (auto simp: dir_at_def dest: wf_worldD)
qed

lemma wf_drop:
  assumes wf: "wf_world w" and nc: "\<not> has_child w p"
  shows "wf_world (drop_node p w)"
  unfolding wf_world_def
proof (intro allI impI)
  fix q n
  assume "node_at (drop_node p w) q = Some n"
  then have q: "q \<noteq> p" "node_at w q = Some n" by (auto split: if_splits)
  with wf have "q \<noteq> []" and d: "dir_at w (butlast q)" by (auto dest: wf_worldD)
  have "butlast q \<noteq> p"
  proof
    assume "butlast q = p"
    then have "node_at w (p @ [last q]) \<noteq> None" using q \<open>q \<noteq> []\<close> by auto
    with nc show False by (auto simp: has_child_iff)
  qed
  with d \<open>q \<noteq> []\<close> show "q \<noteq> [] \<and> dir_at (drop_node p w) (butlast q)"
    by (auto simp: dir_at_def)
qed

section \<open>Making directories\<close>

lemma not_prefix_butlast: "p \<noteq> [] \<Longrightarrow> \<not> prefix p (butlast p)"
proof
  assume "p \<noteq> []" "prefix p (butlast p)"
  from prefix_length_le [OF this(2)] have "length p \<le> length p - 1"
    by (simp only: length_butlast)
  moreover have "0 < length p" using \<open>p \<noteq> []\<close> by simp
  ultimately show False by linarith
qed

definition makeable :: "'z world_scheme \<Rightarrow> pathbuf \<Rightarrow> bool" where
  "makeable w p \<longleftrightarrow> (\<forall>q. prefix q p \<longrightarrow> q \<noteq> [] \<longrightarrow> node_at w q = None \<or> node_at w q = Some Dir)"

lemma make_dirs_ok:
  assumes "\<forall>q \<in> set qs. node_at w q = None \<or> node_at w q = Some Dir"
  shows "fst (make_dirs qs w) = Ok () \<and>
    node_at (snd (make_dirs qs w)) p = (if p \<in> set qs then Some Dir else node_at w p)"
  using assms
proof (induction qs arbitrary: w)
  case (Cons q qs)
  show ?case
  proof (cases "node_at w q")
    case None
    from Cons.prems have "\<forall>r \<in> set qs. node_at (put_node q Dir w) r = None
      \<or> node_at (put_node q Dir w) r = Some Dir" by simp
    from Cons.IH [OF this] None show ?thesis by simp
  next
    case (Some n)
    with Cons.prems have "n = Dir" by simp
    with Some Cons show ?thesis by auto
  qed
qed (simp add: prog_simps)

lemma set_tl_prefixes: "set (tl (prefixes p)) = {q. prefix q p \<and> q \<noteq> []}"
proof (cases p)
  case (Cons x xs)
  then show ?thesis by (auto simp: prefix_Cons)
qed auto

lemma makeable_code:
  "makeable w p \<longleftrightarrow> list_all (\<lambda>q. node_at w q = None \<or> node_at w q = Some Dir) (tl (prefixes p))"
  by (auto simp: makeable_def list_all_iff set_tl_prefixes)

lemma create_dir_all_ok:
  assumes "makeable w p"
  shows "fst (create_dir_all p w) = Ok ()"
    and "node_at (snd (create_dir_all p w)) q =
      (if prefix q p \<and> q \<noteq> [] then Some Dir else node_at w q)"
  using make_dirs_ok [of "tl (prefixes p)" w q] assms
  by (simp_all add: create_dir_all_def set_tl_prefixes makeable_def)

lemma dir_makeable: "wf_world w \<Longrightarrow> dir_at w p \<Longrightarrow> makeable w p"
  unfolding makeable_def
proof (intro allI impI)
  fix q
  assume wf: "wf_world w" and p: "dir_at w p" and q: "prefix q p" "q \<noteq> []"
  then have "node_at w p = Some Dir" by (auto simp: dir_at_def)
  moreover obtain r where "p = q @ r" using q(1) by (auto simp: prefix_def)
  ultimately have "dir_at w q"
    using wf_world_ancestors [OF wf, of q r Dir] p by (cases "r = []") auto
  with q show "node_at w q = None \<or> node_at w q = Some Dir" by (simp add: dir_at_def)
qed

text \<open>Making the directories of a makeable path keeps the tree well formed.\<close>

lemma wf_create_dir_all:
  assumes wf: "wf_world w" and m: "makeable w p"
  shows "wf_world (snd (create_dir_all p w))"
  unfolding wf_world_def
proof (intro allI impI)
  let ?w = "snd (create_dir_all p w)"
  fix q n
  assume q: "node_at ?w q = Some n"
  show "q \<noteq> [] \<and> dir_at ?w (butlast q)"
  proof (cases "prefix q p \<and> q \<noteq> []")
    case True
    then have "prefix (butlast q) p" by (metis prefixeq_butlast prefix_order.trans)
    with True show ?thesis by (auto simp: dir_at_def create_dir_all_ok(2) [OF m])
  next
    case False
    with q have "node_at w q = Some n" by (simp add: create_dir_all_ok(2) [OF m] split: if_splits)
    with wf have "q \<noteq> []" "dir_at w (butlast q)" by (auto dest: wf_worldD)
    then show ?thesis by (auto simp: dir_at_def create_dir_all_ok(2) [OF m])
  qed
qed

section \<open>Creating and writing a file\<close>

text \<open>Where a file can be written: no directory at the path, no file on the way to it.\<close>

definition writable :: "'z world_scheme \<Rightarrow> pathbuf \<Rightarrow> bool" where
  "writable w p \<longleftrightarrow>
     p \<noteq> [] \<and> last p \<noteq> RootDir \<and> makeable w (butlast p) \<and> node_at w p \<noteq> Some Dir"

lemma writable_existing:
  assumes "wf_world w" "content_at w p = Some b" "last p \<noteq> RootDir"
  shows "writable w p"
  using assms dir_makeable wf_worldD content_at_SomeD unfolding writable_def
  by (metis node.distinct(1) option.inject)

definition after_dirs :: "pathbuf \<Rightarrow> 'z world_scheme \<Rightarrow> 'z world_scheme" where
  "after_dirs p s = put_node p (File [] (clock s)) (snd (create_dir_all (butlast p) s))"

lemma after_dirs_facts:
  assumes "writable s p"
  shows "files_only s (after_dirs p s)"
    and "node_at (after_dirs p s) q =
      (if q = p then Some (File [] (clock s))
       else if prefix q (butlast p) \<and> q \<noteq> [] then Some Dir else node_at s q)"
proof -
  have "files_only s (snd (create_dir_all (butlast p) s))"
    using keeps_create_dir_all by (rule keepsD)
  then show "files_only s (after_dirs p s)"
    unfolding after_dirs_def using files_only_put by (rule files_only_trans)
  show "node_at (after_dirs p s) q =
      (if q = p then Some (File [] (clock s))
       else if prefix q (butlast p) \<and> q \<noteq> [] then Some Dir else node_at s q)"
    using assms by (simp add: after_dirs_def writable_def create_dir_all_ok(2))
qed

lemma node_at_write [simp]:
  "node_at (write_file p b w) q = (if q = p then Some (File b (clock w)) else node_at w q)"
  by (simp add: write_file_def)

text \<open>A file written after its directories have been made.\<close>

lemma saved_node:
  assumes "writable s p"
  shows "node_at (write_file p b (after_dirs p s)) q =
    (if q = p then Some (File b (clock s))
     else if prefix q (butlast p) \<and> q \<noteq> [] then Some Dir else node_at s q)"
  using after_dirs_facts [OF assms]
  by (simp add: files_only_clock [OF after_dirs_facts(1) [OF assms]])

lemma saved_content:
  assumes "writable s p"
  shows "content_at (write_file p b (after_dirs p s)) q =
    (if q = p then Some b else content_at s q)"
proof -
  have "content_at s q = None" if "prefix q (butlast p)" "q \<noteq> []"
    using assms that by (auto simp: writable_def makeable_def content_at_def split: option.splits)
  then show ?thesis
    using saved_node [OF assms, of b q] by (simp add: content_at_def)
qed

lemma wf_saved:
  assumes "wf_world s" "writable s p"
  shows "wf_world (write_file p b (after_dirs p s))"
proof -
  from assms(2) have p: "p \<noteq> []" "makeable s (butlast p)" "node_at s p \<noteq> Some Dir"
    by (auto simp: writable_def)
  let ?w = "snd (create_dir_all (butlast p) s)"
  have w: "wf_world ?w" using assms(1) p(2) by (rule wf_create_dir_all)
  have "\<not> prefix p (butlast p)" using p(1) by (rule not_prefix_butlast)
  then have "dir_at ?w (butlast p)" "node_at ?w p \<noteq> Some Dir"
    using p by (auto simp: dir_at_def create_dir_all_ok(2))
  with w p(1) have "wf_world (after_dirs p s)"
    unfolding after_dirs_def by (intro wf_put_File)
  moreover have "node_at (after_dirs p s) p = Some (File [] (clock s))"
    by (simp add: after_dirs_def)
  ultimately show ?thesis unfolding write_file_def by (rule wf_rewrite_file)
qed

end
