(* ===== verification/ChunkerFacts.thy ===== *)
theory ChunkerFacts
  imports Chunker WorldFacts
begin

text \<open>
  What the chunker's operations do. The cache contract holds of the model's cache under
  any eviction (\<open>cc\<close>), and the reliable one when nothing is evicted (\<open>rc\<close>);
  \<open>hashify\<close> cuts a file into chunks whose concatenation is the file, names them and
  stores them; \<open>save\<close> writes back exactly the concatenation of the named chunks;
  \<open>delete\<close> removes the file and the directories that became empty, never the base.
\<close>

section \<open>The cache keeps its contract\<close>

interpretation cc: chunk_cache "\<lambda>s. cache_get (cache s)" "cache_set x" check_chunk for x
proof unfold_locales
  fix s :: "'z chunker_scheme" and j k v w
  show "cache_get (cache s) [] = Ok []" by (simp add: cache_get_def)
  show "cache_get (cache (cache_set x k v s)) j = Ok w \<Longrightarrow> j \<noteq> [] \<Longrightarrow>
    j = k \<and> w = v \<or> j \<noteq> k \<and> cache_get (cache s) j = Ok w"
    by (auto simp: cache_get_def cache_set_def split: option.splits if_splits)
  show "cache_get (cache s) k \<noteq> Ok w \<Longrightarrow>
    cache_get (cache s) k = Err GetFromCacheError \<or> (\<exists>v. cache_get (cache s) k = Ok v)"
    by (auto simp: cache_get_def split: option.splits)
  show "check_chunk k s \<longleftrightarrow> (\<exists>w. cache_get (cache s) k = Ok w)"
    by (auto simp: check_chunk_def cache_contains_def cache_get_def split: option.splits)
qed

definition no_eviction :: "externals \<Rightarrow> externals" where
  "no_eviction x = x\<lparr>evicted := \<lambda>_ _. False\<rparr>"

lemma no_eviction_simps [simp]:
  "sha256 (no_eviction x) = sha256 x" "read_size (no_eviction x) = read_size x"
  "kept_on_drop (no_eviction x) = kept_on_drop x" "evicted (no_eviction x) n k = False"
  by (simp_all add: no_eviction_def)

interpretation rc: reliable_cache
  "\<lambda>s. cache_get (cache s)" "cache_set (no_eviction x)" check_chunk for x
  by unfold_locales (auto simp: cache_get_def cache_set_def)

lemma cache_set_fields [simp]:
  "files (cache_set x k v s) = files s" "dir_meta (cache_set x k v s) = dir_meta s"
  "clock (cache_set x k v s) = clock s" "base_path (cache_set x k v s) = base_path s"
  "inserts (cache_set x k v s) = Suc (inserts s)"
  "chunker.more (cache_set x k v s) = chunker.more s"
  by (simp_all add: cache_set_def)

text \<open>The frame of the cache operations: nothing but the cache and its counter changes.\<close>

definition cache_only :: "'z chunker_scheme \<Rightarrow> 'z chunker_scheme \<Rightarrow> bool" where
  "cache_only s s' \<longleftrightarrow> s' = s\<lparr>cache := cache s', inserts := inserts s'\<rparr>"

lemma cache_only_refl [simp]: "cache_only s s"
  by (simp add: cache_only_def)

lemma cache_only_trans: "cache_only u v \<Longrightarrow> cache_only v w \<Longrightarrow> cache_only u w"
  unfolding cache_only_def
  by (metis chunker.surjective chunker.update_convs(2) chunker.update_convs(3))

lemma reflp_cache_only [prog_intros]: "reflp cache_only"
  by (simp add: reflp_def)

lemma transp_cache_only [prog_intros]: "transp cache_only"
  by (rule transpI) (rule cache_only_trans)

lemma cache_only_set [simp]: "cache_only s (cache_set x k v s)"
  by (simp add: cache_only_def cache_set_def)

lemma cache_only_store_all [simp]: "cache_only s (cc.store_all x kvs s)"
proof (induction kvs arbitrary: s)
  case (Cons kv kvs)
  obtain k v where kv: "kv = (k, v)" by (cases kv)
  have "cache_only (cache_set x k v s) (cc.store_all x kvs (cache_set x k v s))"
    by (rule Cons.IH)
  with cache_only_set [of s x k v] show ?case
    unfolding kv cc.store_all_simps by (rule cache_only_trans)
qed simp

lemma cache_onlyD:
  assumes "cache_only s s'"
  shows "files s' = files s" "dir_meta s' = dir_meta s" "clock s' = clock s"
    "base_path s' = base_path s" "chunker.more s' = chunker.more s"
  by (subst assms [unfolded cache_only_def], simp)+

lemma cache_only_node_at:
  "cache_only s s' \<Longrightarrow> node_at s' p = node_at s p"
  by (simp add: node_at_def cache_onlyD)

lemma cache_only_views:
  assumes "cache_only s s'"
  shows "content_at s' p = content_at s p" "dir_at s' p = dir_at s p"
    "full_path s' q = full_path s q" "wf_world s' = wf_world s" "makeable s' p = makeable s p"
  by (simp_all add: content_at_def dir_at_def full_path_def wf_world_def makeable_def
      cache_only_node_at [OF assms] cache_onlyD [OF assms])

lemma files_onlyD:
  assumes "files_only s (s' :: 'z chunker_scheme)"
  shows "cache s' = cache s" "inserts s' = inserts s" "base_path s' = base_path s"
    "chunker.more s' = chunker.more s" "clock s' = clock s" "dir_meta s' = dir_meta s"
    "full_path s' q = full_path s q"
proof -
  from assms obtain fs where "s' = s\<lparr>files := fs\<rparr>" unfolding files_only_def by blast
  then show "cache s' = cache s" "inserts s' = inserts s" "base_path s' = base_path s"
    "chunker.more s' = chunker.more s" "clock s' = clock s" "dir_meta s' = dir_meta s"
    "full_path s' q = full_path s q"
    by (simp_all add: full_path_def)
qed

section \<open>Cutting into chunks\<close>

definition digest_ok :: "externals \<Rightarrow> bool" where
  "digest_ok x \<longleftrightarrow> (\<forall>d. length (sha256 x d) = 32)"

definition chunk_id :: "externals \<Rightarrow> nat \<Rightarrow> bytes \<Rightarrow> string" where
  "chunk_id x n d = take n (hex_string (sha256 x d))"

lemma hash_eq: "digest_ok x \<Longrightarrow> n \<le> 64 \<Longrightarrow> hash x d n = Ok (chunk_id x n d)"
  by (simp add: hash_def chunk_id_def digest_ok_def)

lemma chunk_id_alnum: "\<forall>c \<in> set (chunk_id x n d). is_ascii_alphanumeric c"
  using hex_string_alnum by (auto simp: chunk_id_def dest: in_set_takeD)

lemma length_chunk_id: "digest_ok x \<Longrightarrow> n \<le> 64 \<Longrightarrow> length (chunk_id x n d) = n"
  by (simp add: chunk_id_def digest_ok_def)

function text_chunks :: "bytes \<Rightarrow> bytes list" where
  "text_chunks b =
     (let l = fst (read_until NEWLINE b) in
      if l = [] then [] else l # text_chunks (snd (read_until NEWLINE b)))"
  by pat_completeness auto
termination
  by (relation "measure length") (auto simp: read_until_shorter)

function binary_chunks :: "externals \<Rightarrow> nat \<Rightarrow> bytes \<Rightarrow> bytes list" where
  "binary_chunks x tick b =
     (let n = bytes_read x tick (length b) in
      if n = 0 then [] else take n b # binary_chunks x (Suc tick) (drop n b))"
  by pat_completeness auto
termination
  by (relation "measure (\<lambda>(x, tick, b). length b)") (auto intro: diff_less)

declare text_chunks.simps [simp del] binary_chunks.simps [simp del]

lemma text_chunks_Nil [simp]: "text_chunks [] = []"
  by (subst text_chunks.simps) simp

lemma text_chunks_step:
  "b \<noteq> [] \<Longrightarrow>
   text_chunks b = fst (read_until NEWLINE b) # text_chunks (snd (read_until NEWLINE b))"
  by (subst text_chunks.simps) (simp add: read_until_Nil_iff)

lemma binary_chunks_Nil [simp]: "binary_chunks x tick [] = []"
  by (subst binary_chunks.simps) simp

lemma binary_chunks_step:
  "b \<noteq> [] \<Longrightarrow> binary_chunks x tick b =
     take (bytes_read x tick (length b)) b
     # binary_chunks x (Suc tick) (drop (bytes_read x tick (length b)) b)"
  by (subst binary_chunks.simps) (simp add: Let_def)

lemma concat_text_chunks: "concat (text_chunks b) = b"
proof (induction b rule: text_chunks.induct)
  case (1 b)
  show ?case
  proof (cases "b = []")
    case False
    with 1 have "concat (text_chunks (snd (read_until NEWLINE b))) = snd (read_until NEWLINE b)"
      by (simp add: read_until_Nil_iff)
    with False show ?thesis
      by (simp add: text_chunks_step read_until_append [of NEWLINE b])
  qed simp
qed

lemma concat_binary_chunks: "concat (binary_chunks x tick b) = b"
proof (induction x tick b rule: binary_chunks.induct)
  case (1 x tick b)
  then show ?case by (cases "b = []") (simp_all add: binary_chunks_step)
qed

lemma binary_chunks_cong:
  "read_size x = read_size y \<Longrightarrow> binary_chunks x tick b = binary_chunks y tick b"
proof (induction x tick b rule: binary_chunks.induct)
  case (1 x tick b)
  then have "bytes_read x = bytes_read y" by (simp add: fun_eq_iff bytes_read_def)
  with 1 show ?case by (cases "b = []") (simp_all add: binary_chunks_step)
qed

lemma text_chunks_shape:
  "c \<in> set (text_chunks b) \<Longrightarrow> c \<noteq> [] \<and> NEWLINE \<notin> set (butlast c)"
proof (induction b rule: text_chunks.induct)
  case (1 b)
  have line: "NEWLINE \<notin> set (butlast (fst (read_until NEWLINE b)))" for b
    by (induction b) (auto split: prod.splits)
  show ?case
  proof (cases "b = []")
    case False
    with "1.prems" consider "c = fst (read_until NEWLINE b)"
      | "c \<in> set (text_chunks (snd (read_until NEWLINE b)))"
      by (auto simp: text_chunks_step)
    then show ?thesis
      using False line "1.IH" by cases (auto simp: read_until_Nil_iff)
  qed (use "1.prems" in simp)
qed

lemma binary_chunks_shape:
  "c \<in> set (binary_chunks x tick b) \<Longrightarrow> c \<noteq> [] \<and> length c \<le> BINARY_CHUNK_SIZE"
proof (induction x tick b rule: binary_chunks.induct)
  case (1 x tick b)
  let ?n = "bytes_read x tick (length b)"
  show ?case
  proof (cases "b = []")
    case False
    with "1.prems" consider "c = take ?n b"
      | "c \<in> set (binary_chunks x (Suc tick) (drop ?n b))"
      by (auto simp: binary_chunks_step)
    then show ?thesis
    proof cases
      case 1
      have "0 < ?n" using False by simp
      with 1 False bytes_read_le [of x tick "length b"] show ?thesis by auto
    next
      case 2
      with False "1.IH" show ?thesis by simp
    qed
  qed (use "1.prems" in simp)
qed

text \<open>The two loops compute the chunks' names and store the chunks.\<close>

definition named :: "externals \<Rightarrow> nat \<Rightarrow> bytes list \<Rightarrow> (string \<times> bytes) list" where
  "named x n chunks = map (\<lambda>d. (chunk_id x n d, d)) chunks"

lemma named_simps [simp]:
  "named x n [] = []" "named x n (d # ds) = (chunk_id x n d, d) # named x n ds"
  by (simp_all add: named_def)

lemma text_loop_Nil: "hashify_text_loop x [] hs = ret hs"
  by (subst hashify_text_loop.simps) simp

lemma text_loop_step:
  assumes "digest_ok x" "b \<noteq> []"
  shows "hashify_text_loop x b hs s =
    hashify_text_loop x (snd (read_until NEWLINE b))
      (hs @ [chunk_id x TEXT_HASH_SIZE (fst (read_until NEWLINE b))])
      (cache_set x (chunk_id x TEXT_HASH_SIZE (fst (read_until NEWLINE b)))
         (fst (read_until NEWLINE b)) s)"
  using assms
  by (subst hashify_text_loop.simps)
     (simp add: read_until_Nil_iff hash_eq TEXT_HASH_SIZE_def save_chunk_def Let_def
        and_then_def lift_res_def)

lemma hashify_text_loop_eq:
  assumes "digest_ok x"
  shows "hashify_text_loop x b hs s =
    (Ok (hs @ map (chunk_id x TEXT_HASH_SIZE) (text_chunks b)),
     cc.store_all x (named x TEXT_HASH_SIZE (text_chunks b)) s)"
proof (induction b arbitrary: hs s rule: text_chunks.induct)
  case (1 b)
  show ?case
  proof (cases "b = []")
    case True
    then show ?thesis by (simp add: text_loop_Nil prog_simps)
  next
    case False
    with 1 show ?thesis
      by (simp add: text_loop_step [OF assms False] text_chunks_step read_until_Nil_iff)
  qed
qed

lemma binary_loop_Nil: "hashify_binary_loop x [] hs = ret hs"
  by (rule ext, subst hashify_binary_loop.simps) simp

lemma binary_loop_step:
  assumes "digest_ok x" "b \<noteq> []"
  shows "hashify_binary_loop x b hs s =
    (let n = bytes_read x (inserts s) (length b);
         h = chunk_id x BINARY_HASH_SIZE (take n b)
     in hashify_binary_loop x (drop n b) (hs @ [h]) (cache_set x h (take n b) s))"
  using assms
  by (subst hashify_binary_loop.simps)
     (simp add: hash_eq BINARY_HASH_SIZE_def save_chunk_def Let_def and_then_def lift_res_def)

lemma hashify_binary_loop_eq:
  assumes "digest_ok x"
  shows "hashify_binary_loop x b hs s =
    (Ok (hs @ map (chunk_id x BINARY_HASH_SIZE) (binary_chunks x (inserts s) b)),
     cc.store_all x (named x BINARY_HASH_SIZE (binary_chunks x (inserts s) b)) s)"
proof (induction b arbitrary: hs s rule: length_induct)
  case (1 b)
  show ?case
  proof (cases "b = []")
    case True
    then show ?thesis by (simp add: binary_loop_Nil prog_simps)
  next
    case False
    then have "length (drop (bytes_read x (inserts s) (length b)) b) < length b"
      by (auto intro: diff_less)
    with 1 False show ?thesis
      by (simp add: binary_loop_step [OF assms False] binary_chunks_step Let_def)
  qed
qed

definition hash_size_of :: "string \<Rightarrow> nat" where
  "hash_size_of path =
     (if is_text (components path) then TEXT_HASH_SIZE else BINARY_HASH_SIZE)"

definition chunks_of :: "externals \<Rightarrow> nat \<Rightarrow> string \<Rightarrow> bytes \<Rightarrow> bytes list" where
  "chunks_of x tick path b =
     (if is_text (components path) then text_chunks b else binary_chunks x tick b)"

definition listed :: "string \<Rightarrow> bool" where
  "listed path \<longleftrightarrow> is_text (components path) \<or> is_binary (components path)"

lemma concat_chunks_of [simp]: "concat (chunks_of x tick path b) = b"
  by (simp add: chunks_of_def concat_text_chunks concat_binary_chunks)

lemma chunks_of_nonempty: "c \<in> set (chunks_of x tick path b) \<Longrightarrow> c \<noteq> []"
  by (auto simp: chunks_of_def dest: text_chunks_shape binary_chunks_shape split: if_splits)

lemma hash_size_pos: "0 < hash_size_of path" "hash_size_of path \<le> 64"
  by (simp_all add: hash_size_of_def TEXT_HASH_SIZE_def BINARY_HASH_SIZE_def)

lemma hashify_eq:
  assumes "digest_ok x" "listed path" "content_at s (full_path s path) = Some b"
  shows "hashify x path s =
    (Ok (map (chunk_id x (hash_size_of path)) (chunks_of x (inserts s) path b)),
     cc.store_all x (named x (hash_size_of path) (chunks_of x (inserts s) path b)) s)"
  using assms
  by (auto simp: hashify_def listed_def hashify_text_def hashify_binary_def open_read
      hashify_text_loop_eq hashify_binary_loop_eq chunks_of_def hash_size_of_def)

lemma hashify_missing:
  assumes "listed path" "node_at s (full_path s path) = None"
  shows "hashify x path s = (Err (IoError path (missing_kind s (full_path s path))), s)"
  using assms
  by (auto simp: hashify_def listed_def hashify_text_def hashify_binary_def and_then_def
      map_err_def open_file_def from_io_error_def)

lemma hashify_directory:
  assumes "listed path" "node_at s (full_path s path) = Some Dir"
  shows "hashify x path s = (Err (IoError path IsADirectory), s)"
  using assms
  by (auto simp: hashify_def listed_def hashify_text_def hashify_binary_def and_then_def
      map_err_def open_file_def read_handle_def from_io_error_def prog_simps)

lemma hashify_unlisted: "\<not> listed path \<Longrightarrow> hashify x path s = (Err (UnlistedFileFormat path), s)"
  by (simp add: hashify_def listed_def prog_simps)

text \<open>Whatever its outcome, \<open>hashify\<close> changes nothing but the cache.\<close>

lemma hashify_cache_only:
  assumes "digest_ok x"
  shows "cache_only s (snd (hashify x path s))"
proof (cases "listed path")
  case True
  show ?thesis
  proof (cases "node_at s (full_path s path)")
    case None
    with True show ?thesis by (simp add: hashify_missing)
  next
    case (Some n)
    then show ?thesis
      using True assms by (cases n) (simp_all add: hashify_directory hashify_eq)
  qed
qed (simp add: hashify_unlisted)

section \<open>Writing files back\<close>

text \<open>The chunks a cache answers for a list of hashes.\<close>

definition answers :: "'z chunker_scheme \<Rightarrow> string list \<Rightarrow> bytes list \<Rightarrow> bool" where
  "answers s hs chunks \<longleftrightarrow> list_all2 (\<lambda>h c. cache_get (cache s) h = Ok c) hs chunks"

lemma write_chunks_ok:
  "answers s hs chunks \<Longrightarrow>
   write_chunks x file hs w s = (Ok (), write_file file (w @ concat chunks) s)"
proof (induction hs arbitrary: w chunks)
  case (Cons h hs)
  then obtain c cs where "chunks = c # cs" "cache_get (cache s) h = Ok c" "answers s hs cs"
    by (auto simp: answers_def list_all2_Cons1)
  with Cons.IH [of cs "w @ c"] show ?case by simp
qed (simp add: answers_def)

lemma write_chunks_OkD:
  "write_chunks x file hs w s = (Ok (), t) \<Longrightarrow>
   \<exists>chunks. answers s hs chunks \<and> t = write_file file (w @ concat chunks) s"
proof (induction hs arbitrary: w)
  case Nil
  then show ?case by (auto simp: answers_def intro!: exI [of _ "[]"])
next
  case (Cons h hs)
  then obtain c where c: "cache_get (cache s) h = Ok c"
    "write_chunks x file hs (w @ c) s = (Ok (), t)"
    by (auto split: res.splits)
  from Cons.IH [OF c(2)] obtain cs where
    "answers s hs cs" "t = write_file file ((w @ c) @ concat cs) s" by blast
  with c(1) show ?case by (intro exI [of _ "c # cs"]) (simp add: answers_def)
qed

text \<open>
  A chunk the cache does not have: the error is returned and the file, already truncated,
  holds some prefix of the chunks before it.
\<close>

lemma write_chunks_missing:
  "answers s hs chunks \<Longrightarrow> cache_get (cache s) h = Err e \<Longrightarrow>
   write_chunks x file (hs @ h # hs') w s =
     (Err e, write_file file (take (kept_on_drop x (w @ concat chunks)) (w @ concat chunks)) s)"
proof (induction hs arbitrary: w chunks)
  case (Cons k hs)
  then obtain c cs where "chunks = c # cs" "cache_get (cache s) k = Ok c" "answers s hs cs"
    by (auto simp: answers_def list_all2_Cons1)
  with Cons.IH [of cs "w @ c"] Cons.prems(2) show ?case by simp
qed (simp add: answers_def)

lemma save_eq:
  assumes "writable s (full_path s path)"
  shows "save x path hs s =
    write_chunks x (full_path s path) hs [] (after_dirs (full_path s path) s)"
proof -
  let ?p = "full_path s path"
  from assms have p: "?p \<noteq> []" "last ?p \<noteq> RootDir" "makeable s (butlast ?p)"
    "node_at s ?p \<noteq> Some Dir" by (auto simp: writable_def)
  obtain s1 where s1: "create_dir_all (butlast ?p) s = (Ok (), s1)"
    using create_dir_all_ok(1) [OF p(3)] by (cases "create_dir_all (butlast ?p) s") auto
  have fo: "files_only s s1"
    using keepsD [OF keeps_create_dir_all, of s "butlast ?p"] s1 by simp
  have "\<not> prefix ?p (butlast ?p)"
    using p(1) by (rule not_prefix_butlast)
  then have "node_at s1 ?p \<noteq> Some Dir" "dir_at s1 (butlast ?p)"
    using create_dir_all_ok(2) [OF p(3)] s1 p(4) by (auto simp: dir_at_def)
  then have "create_file ?p s1 = (Ok (), put_node ?p (File [] (clock s1)) s1)"
    using p(1,2) by (simp add: create_file_def parent_def)
  moreover have "clock s1 = clock s" using files_onlyD [OF fo] by simp
  ultimately show ?thesis
    using p(1,2) s1
    by (simp add: save_def Let_def parent_def and_then_def map_err_def after_dirs_def)
qed

lemma answers_after_dirs:
  "writable s p \<Longrightarrow> answers (after_dirs p s) hs chunks = answers s hs chunks"
  by (simp add: answers_def files_onlyD(1) [OF after_dirs_facts(1)])

lemma save_ok:
  assumes "writable s (full_path s path)" "answers s hs chunks"
  shows "save x path hs s =
    (Ok (), write_file (full_path s path) (concat chunks) (after_dirs (full_path s path) s))"
  using assms by (simp add: save_eq write_chunks_ok answers_after_dirs)

lemma save_OkD:
  assumes "writable s (full_path s path)" "save x path hs s = (Ok (), t)"
  shows "\<exists>chunks. answers s hs chunks \<and>
    t = write_file (full_path s path) (concat chunks) (after_dirs (full_path s path) s)"
  using assms write_chunks_OkD by (fastforce simp: save_eq answers_after_dirs)

section \<open>Deleting\<close>

text \<open>
  Walking up from a directory below the base: what is removed is empty, lies strictly
  below the base and on the way up; nothing on the way that has become empty is left.
\<close>

definition cleaned :: "pathbuf \<Rightarrow> pathbuf \<Rightarrow> 'z chunker_scheme \<Rightarrow> 'z chunker_scheme \<Rightarrow> bool" where
  "cleaned base dir s s' \<longleftrightarrow>
     files_only s s' \<and> wf_world s' \<and>
     (\<forall>p. node_at s' p = node_at s p \<or>
        (node_at s' p = None \<and> node_at s p = Some Dir \<and> strict_prefix base p \<and> prefix p dir)) \<and>
     (\<forall>d. strict_prefix base d \<longrightarrow> prefix d dir \<longrightarrow> node_at s' d = None \<or> has_child s' d)"

lemma cleaned_refl:
  assumes "wf_world s" "\<And>d. strict_prefix base d \<Longrightarrow> prefix d dir \<Longrightarrow> has_child s d"
  shows "cleaned base dir s s"
  using assms by (simp add: cleaned_def)

lemma cleaned_step:
  assumes node: "node_at s (base @ ns @ [c]) = Some Dir"
    and rest: "cleaned base (base @ ns) (drop_node (base @ ns @ [c]) s) s'"
  shows "cleaned base (base @ ns @ [c]) s s'"
proof -
  let ?dir = "base @ ns @ [c]"
  let ?s1 = "drop_node ?dir s"
  from rest have fo: "files_only ?s1 s'" and wf: "wf_world s'"
    and nodes: "\<And>p. node_at s' p = node_at ?s1 p \<or> (node_at s' p = None \<and>
        node_at ?s1 p = Some Dir \<and> strict_prefix base p \<and> prefix p (base @ ns))"
    and left: "\<And>d. strict_prefix base d \<Longrightarrow> prefix d (base @ ns) \<Longrightarrow>
        node_at s' d = None \<or> has_child s' d"
    unfolding cleaned_def by blast+
  have gone: "node_at s' ?dir = None" using nodes [of ?dir] by auto
  have up: "prefix p ?dir \<longleftrightarrow> p = ?dir \<or> prefix p (base @ ns)" for p
    using prefix_snoc [of p "base @ ns" c] by (simp add: eq_commute)
  have "files_only s s'" using files_only_drop fo by (rule files_only_trans)
  moreover have "node_at s' p = node_at s p \<or> (node_at s' p = None \<and>
      node_at s p = Some Dir \<and> strict_prefix base p \<and> prefix p ?dir)" for p
  proof (cases "p = ?dir")
    case True
    then show ?thesis using gone node by (simp add: strict_prefix_def)
  next
    case False
    then show ?thesis using nodes [of p] up by auto
  qed
  moreover have "node_at s' d = None \<or> has_child s' d"
    if "strict_prefix base d" "prefix d ?dir" for d
  proof (cases "d = ?dir")
    case False
    with that(2) up have "prefix d (base @ ns)" by simp
    with that(1) show ?thesis by (rule left)
  qed (use gone in simp)
  ultimately show ?thesis using wf unfolding cleaned_def by blast
qed

lemma ancestor_has_child:
  assumes "wf_world s" "node_at s (d @ c # ns) \<noteq> None"
  shows "has_child s d"
proof -
  have "node_at s (d @ [c]) \<noteq> None"
  proof (cases "ns = []")
    case False
    with assms have "dir_at s (d @ [c])"
      using wf_world_ancestors [of s "d @ [c]" ns] by auto
    then show ?thesis by (simp add: dir_at_def)
  qed (use assms in simp)
  then show ?thesis by (auto simp: has_child_iff)
qed

lemma remove_empty_parents_spec:
  assumes "wf_world s" "base_path s = base" "ns \<noteq> [] \<Longrightarrow> node_at s (base @ map Normal ns) = Some Dir"
  shows "\<exists>s'. remove_empty_parents (Some (base @ map Normal ns)) s = (Ok (), s') \<and>
    cleaned base (base @ map Normal ns) s s'"
  using assms
proof (induction ns arbitrary: s rule: rev_induct)
  case Nil
  have "cleaned base base s s"
    using Nil.prems(1) by (rule cleaned_refl) (auto simp: strict_prefix_def prefix_order.antisym)
  with Nil show ?case by (simp add: remove_empty_parents.simps(2))
next
  case (snoc c ns)
  let ?dir = "base @ map Normal (ns @ [c])"
  have ne: "?dir \<noteq> base" by simp
  have node: "node_at s ?dir = Some Dir" using snoc.prems(3) by simp
  have par: "parent ?dir = Some (base @ map Normal ns)"
    by (simp add: parent_def butlast_append)
  show ?case
  proof (cases "has_child s ?dir")
    case True
    have "has_child s d" if "prefix d ?dir" for d
    proof (cases "d = ?dir")
      case False
      with that obtain e es where "?dir = d @ e # es"
        by (metis append_Nil2 neq_Nil_conv prefix_def)
      with node have "node_at s (d @ e # es) \<noteq> None" by (simp only: option.simps) simp
      with snoc.prems(1) show ?thesis by (rule ancestor_has_child)
    qed (use True in simp)
    with snoc.prems(1) have "cleaned base ?dir s s" by (auto intro: cleaned_refl)
    moreover have "remove_dir ?dir s = (Err DirectoryNotEmpty, s)"
      using True node by (simp add: remove_dir_def)
    ultimately show ?thesis
      using ne snoc.prems(2) by (simp add: remove_empty_parents.simps(2))
  next
    case False
    let ?s1 = "drop_node ?dir s"
    have wf1: "wf_world ?s1" using snoc.prems(1) False by (rule wf_drop)
    have base1: "base_path ?s1 = base"
      using snoc.prems(2) files_onlyD(3) [OF files_only_drop] by metis
    have "node_at ?s1 (base @ map Normal ns) = Some Dir" if "ns \<noteq> []"
    proof -
      have "dir_at s (base @ map Normal ns)"
        using snoc.prems(1) node by (intro wf_world_ancestors [of s _ "[Normal c]"]) simp_all
      with that show ?thesis by (simp add: dir_at_def)
    qed
    from snoc.IH [OF wf1 base1 this] obtain s' where s':
      "remove_empty_parents (Some (base @ map Normal ns)) ?s1 = (Ok (), s')"
      "cleaned base (base @ map Normal ns) ?s1 s'" by blast
    have "cleaned base ?dir s s'"
      using cleaned_step [of s base "map Normal ns" "Normal c" s'] node s'(2) by simp
    moreover have "remove_dir ?dir s = (Ok (), ?s1)"
      using False node by (simp add: remove_dir_def)
    ultimately show ?thesis
      using ne snoc.prems(2) s'(1) par by (simp add: remove_empty_parents.simps(2))
  qed
qed

lemma delete_spec:
  assumes wf: "wf_world s" and pl: "plain_path path"
    and content: "content_at s (full_path s path) = Some b"
  shows "\<exists>s'. delete path s = (Ok (), s') \<and>
    cleaned (base_path s) (butlast (full_path s path)) (drop_node (full_path s path) s) s'"
proof -
  let ?p = "full_path s path"
  let ?ns = "butlast (split_on SLASH path)"
  let ?s1 = "drop_node ?p s"
  from content obtain t where t: "node_at s ?p = Some (File b t)" by (auto dest: content_at_SomeD)
  have par: "parent ?p = Some (base_path s @ map Normal ?ns)"
    using parent_push_plain [OF pl] by (simp add: full_path_def)
  then have bl: "butlast ?p = base_path s @ map Normal ?ns"
    by (auto simp: parent_def split: if_splits)
  have wf1: "wf_world ?s1" using wf file_has_no_child [OF wf t] by (rule wf_drop)
  have "node_at ?s1 (base_path s @ map Normal ?ns) = Some Dir" if "?ns \<noteq> []"
  proof -
    from wf t have "dir_at s (butlast ?p)" "?p \<noteq> []" by (auto dest: wf_worldD)
    moreover from this(2) have "?p \<noteq> butlast ?p" by (metis not_prefix_butlast prefix_order.refl)
    ultimately show ?thesis using that bl by (auto simp: dir_at_def)
  qed
  moreover have "base_path ?s1 = base_path s"
    using files_onlyD(3) [OF files_only_drop] by metis
  ultimately obtain s' where "remove_empty_parents (Some (base_path s @ map Normal ?ns)) ?s1 = (Ok (), s')"
    "cleaned (base_path s) (base_path s @ map Normal ?ns) ?s1 s'"
    using remove_empty_parents_spec [OF wf1] by blast
  moreover have "remove_file ?p s = (Ok (), ?s1)" using t by (simp add: remove_file_def)
  ultimately show ?thesis
    using bl par by (simp add: delete_def and_then_def map_err_def)
qed

end
