(* ===== verification/SyncerFacts.thy ===== *)
theory SyncerFacts
  imports Syncer ChunkerFacts
begin

text \<open>
  Facts about the syncer's passes. An upload pass reads the tree, fills the cache, and gives
  jids to rows that waited for one (\<open>committed\<close>); its queue (\<open>queue_ok\<close>) is cut by
  payload. The last loop of a download pass writes what the cache answers
  (\<open>applied\<close>) and records the server's ids.
\<close>

section \<open>Programs on one half of the state\<close>

lemma on_client_apply [prog_simps]:
  "on_client m (c, v) = (fst (m c), (snd (m c), v))"
  by (simp add: on_client_def case_prod_unfold)

lemma on_server_apply [prog_simps]:
  "on_server m (c, v) = (fst (m v), (c, snd (m v)))"
  by (simp add: on_server_def case_prod_unfold)

lemma on_client_Ok_iff:
  "on_client m (c, v) = (Ok a, s') \<longleftrightarrow> (\<exists>c'. s' = (c', v) \<and> m c = (Ok a, c'))"
  by (auto simp: on_client_def split: prod.splits)

lemma on_server_Ok_iff:
  "on_server m (c, v) = (Ok a, s') \<longleftrightarrow> (\<exists>v'. s' = (c, v') \<and> m v = (Ok a, v'))"
  by (auto simp: on_server_def split: prod.splits)

lemma on_client_fst [simp]: "fst (snd (on_client m s)) = snd (m (fst s))"
  by (cases s) (simp add: prog_simps)

lemma on_client_snd [simp]: "snd (snd (on_client m s)) = snd s"
  by (cases s) (simp add: prog_simps)

lemma on_server_fst [simp]: "fst (snd (on_server m s)) = fst s"
  by (cases s) (simp add: prog_simps)

lemma on_client_res [simp]: "fst (on_client m s) = fst (m (fst s))"
  by (cases s) (simp add: prog_simps)

lemma set_records_apply [prog_simps]:
  "set_records f c = (Ok (), c\<lparr>records := f (records c)\<rparr>)"
  by (simp add: set_records_def)

section \<open>Accepted commits\<close>

text \<open>The registry after a list of accepted commits, each a row and the jid it was given.\<close>

definition committed :: "(file_record \<times> int) list \<Rightarrow> table \<Rightarrow> table" where
  "committed acc rows = fold (\<lambda>(r, j). update_jid r j) acc rows"

lemma committed_simps [simp]:
  "committed [] rows = rows"
  "committed ((r, j) # acc) rows = committed acc (update_jid r j rows)"
  by (simp_all add: committed_def)

lemma updated_locally_committed:
  assumes "wf_table rows" "distinct (map fst acc)" "fst ` set acc \<subseteq> set (updated_locally ns rows)"
  shows "wf_table (committed acc rows) \<and>
    updated_locally ns (committed acc rows) =
      filter (\<lambda>r. r \<notin> fst ` set acc) (updated_locally ns rows)"
  using assms
proof (induction acc arbitrary: rows)
  case (Cons a acc)
  obtain r j where a: "a = (r, j)" by (cases a)
  from Cons.prems a have r: "r \<in> set (updated_locally ns rows)" by simp
  note one = updated_locally_update_jid [OF Cons.prems(1) r, of j]
  have "fst ` set acc \<subseteq> set (updated_locally ns (update_jid r j rows))"
    using one Cons.prems(2,3) a by auto
  from Cons.IH [OF _ _ this] one Cons.prems(2) a show ?case
    by (auto intro!: filter_cong)
qed simp

text \<open>Commits change nothing of a row but its jid.\<close>

definition jids_only :: "table \<Rightarrow> table \<Rightarrow> bool" where
  "jids_only rows rows' \<longleftrightarrow> list_all2 (\<lambda>r r'. r' = r\<lparr>jid := jid r'\<rparr>) rows rows'"

lemma jids_only_refl [simp]: "jids_only rows rows"
  by (simp add: jids_only_def list.rel_refl)

lemma jids_only_update: "jids_only rows (update_jid r j rows)"
  by (simp add: jids_only_def update_jid_def list_all2_map2 list.rel_refl)

lemma jids_only_trans:
  assumes "jids_only xs ys" "jids_only ys zs"
  shows "jids_only xs zs"
proof -
  have "z = x\<lparr>jid := jid z\<rparr>" if "y = x\<lparr>jid := jid y\<rparr>" "z = y\<lparr>jid := jid z\<rparr>"
    for x y z :: file_record
  proof -
    have "z = (x\<lparr>jid := jid y\<rparr>)\<lparr>jid := jid z\<rparr>" using that by metis
    then show ?thesis by simp
  qed
  with assms show ?thesis unfolding jids_only_def by (rule list_all2_trans [rotated 1]) 
qed

lemma jids_only_committed: "jids_only rows (committed acc rows)"
proof (induction acc arbitrary: rows)
  case (Cons a acc)
  obtain r j where "a = (r, j)" by (cases a)
  with jids_only_trans [OF jids_only_update Cons.IH] show ?case by simp
qed simp

section \<open>The frame of an upload pass\<close>

definition tree_kept :: "'z client_scheme \<Rightarrow> 'z client_scheme \<Rightarrow> bool" where
  "tree_kept c c' \<longleftrightarrow>
     c' = c\<lparr>cache := cache c', inserts := inserts c', records := records c'\<rparr>"

lemma tree_kept_refl [simp]: "tree_kept c c"
  by (simp add: tree_kept_def)

lemma tree_keptD:
  assumes "tree_kept c c'"
  shows "files c' = files c" "dir_meta c' = dir_meta c" "clock c' = clock c"
    "base_path c' = base_path c"
  by (subst assms [unfolded tree_kept_def], simp)+

lemma tree_kept_node: "tree_kept c c' \<Longrightarrow> node_at c' p = node_at c p \<and> full_path c' q = full_path c q"
  using tree_keptD [of c c'] by (simp add: node_at_def full_path_def)

lemma tree_kept_trans:
  assumes "tree_kept a b" "tree_kept b c"
  shows "tree_kept a c"
proof -
  have "c = (a\<lparr>cache := cache b, inserts := inserts b, records := records b\<rparr>)
      \<lparr>cache := cache c, inserts := inserts c, records := records c\<rparr>"
    using assms unfolding tree_kept_def by metis
  then show ?thesis by (simp add: tree_kept_def)
qed

lemma tree_kept_cache_only: "cache_only c c' \<Longrightarrow> tree_kept c c' \<and> records c' = records c"
  unfolding cache_only_def tree_kept_def
  by (metis client.select_convs(1) client.surjective chunker.update_convs(2,3) client.update_convs(1))

lemma tree_kept_records [simp]: "tree_kept c (c\<lparr>records := rows\<rparr>)"
  by (simp add: tree_kept_def)

section \<open>The upload queue\<close>

definition payload :: "(string \<times> bytes) list \<Rightarrow> nat" where
  "payload b = sum_list (map (length \<circ> snd) b)"

lemma payload_simps [simp]:
  "payload [] = 0" "payload (x # b) = length (snd x) + payload b"
  "payload (b @ b') = payload b + payload b'"
  by (simp_all add: payload_def)

text \<open>
  A closed batch is over the limit, and was not before its last chunk; the open one is not.
\<close>

definition queue_ok :: "upload_queue \<Rightarrow> bool" where
  "queue_ok q \<longleftrightarrow>
     batch_size q = payload (current_batch q) \<and> payload (current_batch q) \<le> MAX_UPLOAD_SIZE \<and>
     (\<forall>b \<in> set (closed q). payload (butlast b) \<le> MAX_UPLOAD_SIZE \<and> MAX_UPLOAD_SIZE < payload b)"

definition queued :: "upload_queue \<Rightarrow> (string \<times> bytes) list" where
  "queued q = concat (batches q)"

lemma queue_ok_push: "queue_ok q \<Longrightarrow> queue_ok (push_chunk c d q)"
  by (auto simp: queue_ok_def push_chunk_def Let_def)

lemma queued_push: "queued (push_chunk c d q) = queued q @ [(c, d)]"
  by (simp add: queued_def batches_def push_chunk_def Let_def)

lemma queue_chunks_spec:
  assumes "queue_chunks cs q s = (r, s')"
  shows "s' = s \<and> (\<forall>q'. r = Ok q' \<longrightarrow>
    (\<exists>ds. answers s cs ds \<and> queued q' = queued q @ zip cs ds \<and> (queue_ok q \<longrightarrow> queue_ok q')))"
  using assms
proof (induction cs q arbitrary: s rule: queue_chunks.induct)
  case (2 c cs q)
  show ?case
  proof (cases "cache_get (cache s) c")
    case (Ok d)
    with "2.prems" have "queue_chunks cs (push_chunk c d q) s = (r, s')"
      by (simp add: read_chunk_def prog_simps)
    from "2.IH" [OF this] Ok show ?thesis
      by (fastforce simp: answers_def queued_push intro: queue_ok_push)
  qed (use "2.prems" in \<open>auto simp: read_chunk_def prog_simps\<close>)
qed (auto simp: ret_def answers_def)

lemma queue_chunks_same [simp]: "snd (queue_chunks cs q s) = s"
  using queue_chunks_spec [of cs q s] by (metis surjective_pairing)

lemma queue_chunks_exact:
  assumes "queue_ok q"
  shows "if \<forall>k \<in> set ks. check_chunk k s
    then \<exists>q'. queue_chunks ks q s = (Ok q', s) \<and> queue_ok q'
      \<and> (\<exists>ds. answers s ks ds \<and> queued q' = queued q @ zip ks ds)
    else queue_chunks ks q s = (Err GetFromCacheError, s)"
  using assms
proof (induction ks q arbitrary: s rule: queue_chunks.induct)
  case (2 k ks q)
  show ?case
  proof (cases "check_chunk k s")
    case True
    then obtain d where d: "cache_get (cache s) k = Ok d" using cc.contains_iff by blast
    then have run: "queue_chunks (k # ks) q s = queue_chunks ks (push_chunk k d q) s"
      by (simp add: read_chunk_def and_then_def)
    have "queue_ok (push_chunk k d q)" using "2.prems" by (rule queue_ok_push)
    note IH = "2.IH" [OF this, of s]
    show ?thesis
    proof (cases "\<forall>k \<in> set ks. check_chunk k s")
      case all: True
      with IH obtain q' ds where q': "queue_chunks ks (push_chunk k d q) s = (Ok q', s)" "queue_ok q'"
        and ds: "answers s ks ds" "queued q' = queued (push_chunk k d q) @ zip ks ds" by auto
      have "answers s (k # ks) (d # ds)" "queued q' = queued q @ zip (k # ks) (d # ds)"
        using ds d by (simp_all add: answers_def queued_push)
      with q' run all True show ?thesis by auto
    qed (use IH run in auto)
  next
    case False
    then have "cache_get (cache s) k = Err GetFromCacheError"
      using cc.contains_iff cc.get_miss by metis
    with False show ?thesis by (auto simp: read_chunk_def and_then_def)
  qed
qed (auto simp: ret_apply answers_def)

lemma queue_chunks_all:
  "queue_ok q \<Longrightarrow> \<forall>k \<in> set ks. check_chunk k s \<Longrightarrow>
   \<exists>q' ds. queue_chunks ks q s = (Ok q', s) \<and> queue_ok q' \<and> answers s ks ds \<and>
     queued q' = queued q @ zip ks ds"
  using queue_chunks_exact [of q ks s] by auto

section \<open>The loop over the files\<close>

lemma hashify_tree_kept:
  assumes "digest_ok x"
  shows "tree_kept c (snd (hashify x p c)) \<and> records (snd (hashify x p c)) = records c"
  using hashify_cache_only [OF assms] by (rule tree_kept_cache_only)

text \<open>
  One file of the loop, as one program: the commit's answer and the queue after it.
\<close>

definition upload_file ::
    "'srv sync_env \<Rightarrow> file_record \<Rightarrow> upload_queue \<Rightarrow> ('z, 'srv, upload_queue \<times> bool) syncing" where
  "upload_file e f q =
     and_then (if \<not> deleted f then on_client (hashify (ext e) (path f)) else ret [[]]) (\<lambda>chunk_ids.
     and_then (on_server (commit (http e) (remote_client e) (path f) (deleted f)
                 (join_with [COMMA] chunk_ids))) (\<lambda>r.
       (case r of
          Success j \<Rightarrow> and_then (on_client (set_records (update_jid f j))) (\<lambda>_. ret (q, True))
        | NeedChunks chunks \<Rightarrow>
            and_then (on_client (queue_chunks (split_on COMMA chunks) q)) (\<lambda>q'. ret (q', False)))))"

lemma upload_files_Cons:
  "upload_files e (f # fs) q ac =
     and_then (upload_file e f q) (\<lambda>(q', ok). upload_files e fs q' (ac \<and> ok))"
  unfolding upload_files.simps upload_file_def and_then_assoc
  by (intro arg_cong2 [where f = and_then] refl ext)
     (simp add: and_then_assoc split: commit_result.splits)

declare upload_files.simps(2) [simp del] 

lemma upload_file_cases:
  assumes "upload_file e f q (c, v) = (r, (c', v'))"
  obtains (failed) "c' = c \<or> (\<not> deleted f \<and> c' = snd (hashify (ext e) (path f) c))" "\<And>y. r \<noteq> Ok y"
  | (accepted) c1 j where "c1 = c \<or> (\<not> deleted f \<and> c1 = snd (hashify (ext e) (path f) c))" "r = Ok (q, True)"
      "c' = c1\<lparr>records := update_jid f j (records c1)\<rparr>"
  | (refused) cs q' where "c' = c \<or> (\<not> deleted f \<and> c' = snd (hashify (ext e) (path f) c))" "r = Ok (q', False)"
      "queue_chunks cs q c' = (Ok q', c')"
proof -
  let ?ids = "(if \<not> deleted f then on_client (hashify (ext e) (path f)) else ret [[]])
      :: ('a, 'b, string list) syncing"
  obtain r1 c1 v1 where s1: "?ids (c, v) = (r1, (c1, v1))" by (metis prod.collapse)
  then have c1: "c1 = c \<or> (\<not> deleted f \<and> c1 = snd (hashify (ext e) (path f) c))"
    by (auto simp: prog_simps split: if_splits)
  show thesis
  proof (cases r1)
    case (Ok ids)
    let ?com = "commit (http e) (remote_client e) (path f) (deleted f) (join_with [COMMA] ids)"
    obtain r2 v2 where s2: "?com v1 = (r2, v2)" by (metis prod.collapse)
    have "upload_file e f q (c, v) =
      (case r2 of
         Ok (Success j) \<Rightarrow> (Ok (q, True), (c1\<lparr>records := update_jid f j (records c1)\<rparr>, v2))
       | Ok (NeedChunks cs) \<Rightarrow>
           (case fst (queue_chunks (split_on COMMA cs) q c1) of
              Ok q' \<Rightarrow> (Ok (q', False), (c1, v2))
            | Err er \<Rightarrow> (Err er, (c1, v2)) | Panic \<Rightarrow> (Panic, (c1, v2)))
       | Err er \<Rightarrow> (Err er, (c1, v2)) | Panic \<Rightarrow> (Panic, (c1, v2)))"
      using s1 s2 Ok unfolding upload_file_def
      by (simp add: and_then_def prog_simps split: res.splits commit_result.splits)
    with assms c1 failed accepted refused show thesis
      by (auto split: res.splits commit_result.splits) (metis prod.collapse queue_chunks_same)+
  qed (use s1 c1 assms failed in \<open>auto simp: upload_file_def and_then_def\<close>)
qed

lemma upload_file_spec:
  assumes "digest_ok (ext e)" "upload_file e f q (c, v) = (r, (c', v'))"
  shows "tree_kept c c' \<and>
    ((records c' = records c \<and> (\<forall>q' ok. r = Ok (q', ok) \<longrightarrow> \<not> ok)) \<or>
     (\<exists>j. records c' = update_jid f j (records c) \<and> r = Ok (q, True)))"
proof -
  have kept: "tree_kept c c1 \<and> records c1 = records c"
    if "c1 = c \<or> (\<not> deleted f \<and> c1 = snd (hashify (ext e) (path f) c))" for c1
    using that hashify_tree_kept [OF assms(1), of c "path f"] by auto
  from assms(2) show ?thesis
  proof (cases rule: upload_file_cases)
    case failed
    with kept [OF failed(1)] show ?thesis by simp
  next
    case (accepted c1 j)
    with kept [OF accepted(1)] show ?thesis using tree_kept_trans [OF _ tree_kept_records] by auto
  next
    case (refused cs q')
    with kept [OF refused(1)] show ?thesis by simp
  qed
qed

lemma upload_files_spec:
  assumes "digest_ok (ext e)" "upload_files e fs q ac (c, v) = (r, (c', v'))"
  shows "tree_kept c c' \<and> (\<exists>acc. subseq (map fst acc) fs \<and> records c' = committed acc (records c) \<and>
    (\<forall>q' b. r = Ok (q', b) \<longrightarrow> (b \<longleftrightarrow> ac \<and> map fst acc = fs)))"
  using assms(2)
proof (induction fs arbitrary: q ac c v)
  case (Cons f fs)
  obtain r1 c1 v1 where s1: "upload_file e f q (c, v) = (r1, (c1, v1))" by (metis prod.collapse)
  note one = upload_file_spec [OF assms(1) s1]
  show ?case
  proof (cases r1)
    case (Ok y)
    obtain q1 ok where y: "y = (q1, ok)" by (cases y)
    from Cons.prems s1 Ok y have "upload_files e fs q1 (ac \<and> ok) (c1, v1) = (r, (c', v'))"
      by (simp add: upload_files_Cons and_then_def)
    from Cons.IH [OF this] obtain acc where
      acc: "tree_kept c1 c'" "subseq (map fst acc) fs" "records c' = committed acc (records c1)"
        "\<forall>q' b. r = Ok (q', b) \<longrightarrow> (b \<longleftrightarrow> (ac \<and> ok) \<and> map fst acc = fs)" by blast
    have tk: "tree_kept c c'" using one acc(1) tree_kept_trans by blast
    show ?thesis
    proof (cases ok)
      case True
      with one Ok y obtain j where "records c1 = update_jid f j (records c)" by auto
      with acc tk True show ?thesis by (intro conjI exI [of _ "(f, j) # acc"]) auto
    next
      case False
      with one Ok y have "records c1 = records c" by auto
      moreover have "map fst acc \<noteq> f # fs"
        using acc(2) list_emb_length by fastforce
      ultimately show ?thesis
        using acc tk False by (intro conjI exI [of _ acc]) auto
    qed
  next
    case (Err er)
    with Cons.prems s1 one show ?thesis
      by (intro conjI exI [of _ "[]"]) (auto simp: upload_files_Cons and_then_def)
  next
    case Panic
    with Cons.prems s1 one show ?thesis
      by (intro conjI exI [of _ "[]"]) (auto simp: upload_files_Cons and_then_def)
  qed
qed (auto simp: ret_def intro!: exI [of _ "[]"])

lemma send_batches_client: "fst (snd (send_batches e n bs s)) = fst s"
proof (induction bs arbitrary: n s)
  case (Cons b bs)
  let ?m = "(if b \<noteq> [] then on_server (upload_batch (http e) (remote_client e) (batch_uuid e n) b)
               else ret ()) :: ('a, 'b, unit) syncing"
  have "fst (snd (?m s)) = fst s" by (simp add: ret_apply)
  with Cons.IH show ?case by (auto simp: and_then_apply split: res.splits)
qed (simp add: prog_simps)

section \<open>An upload pass\<close>

lemma subseq_subset: "subseq xs ys \<Longrightarrow> set xs \<subseteq> set ys"
  by (induction rule: list_emb.induct) auto

lemma subseq_distinct: "subseq xs ys \<Longrightarrow> distinct ys \<Longrightarrow> distinct xs"
  by (induction rule: list_emb.induct) (auto dest: subseq_subset)

lemma subseq_all:
  assumes "subseq xs ys" "distinct ys" "set ys \<subseteq> set xs"
  shows "xs = ys"
proof -
  have "length ys \<le> length xs"
    using assms(2,3) by (metis card_length card_mono distinct_card le_trans List.finite_set)
  moreover have "length xs \<le> length ys" using assms(1) by (rule list_emb_length)
  ultimately show ?thesis using subseq_same_length [OF assms(1)] by simp
qed

lemma upload_pass_spec:
  assumes "digest_ok (ext e)" "wf_table (records c)"
    and "check_upload_once e (c, v) = (res, (c', v'))"
  shows "files c' = files c \<and> jids_only (records c) (records c') \<and> wf_table (records c')
    \<and> set (updated_locally (namespace e) (records c')) \<subseteq> set (updated_locally (namespace e) (records c))
    \<and> (\<forall>b. res = Ok b \<longrightarrow> (b \<longleftrightarrow> updated_locally (namespace e) (records c') = []))"
proof -
  let ?todo = "updated_locally (namespace e) (records c)"
  let ?q0 = "\<lparr>closed = [], current_batch = [], batch_size = 0\<rparr>"
  obtain r1 c1 v1 where s1: "upload_files e ?todo ?q0 True (c, v) = (r1, (c1, v1))"
    by (metis prod.collapse)
  from upload_files_spec [OF assms(1) s1] obtain acc where
    acc: "tree_kept c c1" "subseq (map fst acc) ?todo" "records c1 = committed acc (records c)"
      "\<forall>q b. r1 = Ok (q, b) \<longrightarrow> (b \<longleftrightarrow> map fst acc = ?todo)" by auto
  have c': "c' = c1" and res: "\<forall>b. res = Ok b \<longrightarrow> (\<exists>q. r1 = Ok (q, b))"
    using assms(3) s1 send_batches_client [of e 0 _ "(c1, v1)"]
    by (auto simp: check_upload_once_def Let_def and_then_apply ret_apply
        split: res.splits prod.splits) (metis fst_conv)+
  have d: "distinct ?todo"
    using distinct_paths_updated_locally [OF assms(2)] by (simp add: distinct_map)
  have "distinct (map fst acc)" using acc(2) d by (rule subseq_distinct)
  moreover have "set (map fst acc) \<subseteq> set ?todo" using acc(2) by (rule subseq_subset)
  ultimately have "distinct (map fst acc)" "fst ` set acc \<subseteq> set ?todo" by simp_all
  from updated_locally_committed [OF assms(2) this]
  have wf: "wf_table (records c')" and left: "updated_locally (namespace e) (records c') =
      filter (\<lambda>r. r \<notin> fst ` set acc) ?todo" using acc(3) c' by simp_all
  have "map fst acc = ?todo \<longleftrightarrow> set ?todo \<subseteq> fst ` set acc"
    using subseq_all [OF acc(2) d] by (metis list.set_map order_refl)
  also have "\<dots> \<longleftrightarrow> updated_locally (namespace e) (records c') = []"
    unfolding left by (auto simp: filter_empty_conv)
  finally have empty: "map fst acc = ?todo \<longleftrightarrow> updated_locally (namespace e) (records c') = []" .
  have "files c' = files c" using tree_keptD(1) [OF acc(1)] c' by simp
  moreover have "jids_only (records c) (records c')"
    using jids_only_committed acc(3) c' by simp
  moreover have "set (updated_locally (namespace e) (records c')) \<subseteq> set ?todo"
    unfolding left by auto
  moreover have "\<forall>b. res = Ok b \<longrightarrow> (b \<longleftrightarrow> updated_locally (namespace e) (records c') = [])"
    using res acc(4) empty by blast
  ultimately show ?thesis using wf by blast
qed

lemma upload_pass_left:
  assumes "digest_ok (ext e)" "wf_table (records c)" "check_upload_once e (c, v) = (Ok b, (c', v'))"
  shows "b \<longleftrightarrow> updated_locally (namespace e) (records c') = []"
  using upload_pass_spec [OF assms] by blast

text \<open>The queue along the loop: its order, its cuts, and where its chunks come from.\<close>

lemma queue_chunks_from:
  assumes "queue_chunks cs q s = (Ok q', s')"
  shows "\<forall>(k, d) \<in> set (queued q') - set (queued q). cache_get (cache s) k = Ok d"
    "queue_ok q \<Longrightarrow> queue_ok q'"
proof -
  obtain ds where ds: "answers s cs ds" "queued q' = queued q @ zip cs ds"
    "queue_ok q \<longrightarrow> queue_ok q'" using queue_chunks_spec [OF assms] by blast
  then show "queue_ok q \<Longrightarrow> queue_ok q'" by blast
  from ds(1) have "\<forall>(k, d) \<in> set (zip cs ds). cache_get (cache s) k = Ok d"
    by (auto simp: answers_def list_all2_iff)
  then show "\<forall>(k, d) \<in> set (queued q') - set (queued q). cache_get (cache s) k = Ok d"
    using ds(2) by auto
qed

text \<open>
  A relation \<open>P\<close> between ids and contents that covers a file's chunks and holds throughout
  the cache still does after hashing the file, and then throughout what is queued.
\<close>

definition covers :: "(string \<Rightarrow> bytes \<Rightarrow> bool) \<Rightarrow> externals \<Rightarrow> 'z chunker_scheme \<Rightarrow> string \<Rightarrow> bool" where
  "covers P x s p \<longleftrightarrow>
     (\<forall>b t d. content_at s (full_path s p) = Some b \<longrightarrow> d \<in> set (chunks_of x t p b) \<longrightarrow>
        P (chunk_id x (hash_size_of p) d) d)"

lemma sound_hashify:
  assumes "digest_ok x" "cc.sound P s" "covers P x s p"
  shows "cc.sound P (snd (hashify x p s))"
proof (cases "listed p \<and> content_at s (full_path s p) \<noteq> None")
  case True
  then obtain b where b: "listed p" "content_at s (full_path s p) = Some b" by auto
  note eq = hashify_eq [OF assms(1) b]
  have "P k d" if "(k, d) \<in> set (named x (hash_size_of p) (chunks_of x (inserts s) p b))" for k d
    using that assms(3) b(2) by (auto simp: named_def covers_def)
  with assms(2) show ?thesis unfolding eq by (simp add: cc.sound_store_all)
next
  case False
  have "snd (hashify x p s) = s"
  proof (cases "listed p")
    case True
    with False have "content_at s (full_path s p) = None" by simp
    then have "node_at s (full_path s p) = None \<or> node_at s (full_path s p) = Some Dir"
      by (auto simp: content_at_def split: option.splits node.splits)
    with True show ?thesis using hashify_missing hashify_directory by (metis snd_conv)
  qed (simp add: hashify_unlisted)
  with assms(2) show ?thesis by simp
qed

lemma covers_kept: "tree_kept c c' \<Longrightarrow> covers P x c' = covers P x c"
  using tree_kept_node [of c c'] by (simp add: covers_def content_at_def fun_eq_iff)

lemma sound_records [simp]: "cc.sound P (c\<lparr>records := rows\<rparr>) = cc.sound P c"
  by (simp add: cc.sound_def)

lemma soundD: "cc.sound P s \<Longrightarrow> cache_get (cache s) k = Ok d \<Longrightarrow> (k = [] \<and> d = []) \<or> P k d"
  unfolding cc.sound_def by (cases "k = []") (auto simp: cache_get_def)

definition queue_sound :: "(string \<Rightarrow> bytes \<Rightarrow> bool) \<Rightarrow> upload_queue \<Rightarrow> bool" where
  "queue_sound P q \<longleftrightarrow> (\<forall>(k, d) \<in> set (queued q). (k = [] \<and> d = []) \<or> P k d)"

lemma upload_file_sound:
  assumes "digest_ok (ext e)" "cc.sound P c" "\<not> deleted f \<longrightarrow> covers P (ext e) c (path f)"
    "upload_file e f q (c, v) = (r, (c', v'))"
  shows "cc.sound P c' \<and>
    (\<forall>q' b. r = Ok (q', b) \<longrightarrow> queue_ok q \<longrightarrow> queue_sound P q \<longrightarrow> queue_ok q' \<and> queue_sound P q')"
proof -
  have sound: "cc.sound P c1" if "c1 = c \<or> (\<not> deleted f \<and> c1 = snd (hashify (ext e) (path f) c))" for c1
    using that sound_hashify [OF assms(1,2)] assms(2,3) by auto
  from assms(4) show ?thesis
  proof (cases rule: upload_file_cases)
    case failed
    with sound [OF failed(1)] show ?thesis by simp
  next
    case (accepted c1 j)
    with sound [OF accepted(1)] show ?thesis by simp
  next
    case (refused cs q')
    with sound [OF refused(1)] queue_chunks_from [OF refused(3)] soundD [of P c']
    show ?thesis unfolding queue_sound_def by fastforce
  qed
qed

lemma upload_files_sound:
  assumes "digest_ok (ext e)" "cc.sound P c" "\<forall>f \<in> set fs. \<not> deleted f \<longrightarrow> covers P (ext e) c (path f)"
    "upload_files e fs q ac (c, v) = (r, (c', v'))"
  shows "cc.sound P c' \<and>
    (\<forall>q' b. r = Ok (q', b) \<longrightarrow> queue_ok q \<longrightarrow> queue_sound P q \<longrightarrow> queue_ok q' \<and> queue_sound P q')"
  using assms(2-)
proof (induction fs arbitrary: q ac c v)
  case (Cons f fs)
  obtain r1 c1 v1 where s1: "upload_file e f q (c, v) = (r1, (c1, v1))" by (metis prod.collapse)
  from Cons.prems(2) have "\<not> deleted f \<longrightarrow> covers P (ext e) c (path f)" by simp
  note one = upload_file_sound [OF assms(1) Cons.prems(1) this s1]
  have "tree_kept c c1" using upload_file_spec [OF assms(1) s1] by blast
  with Cons.prems(2) have rest: "\<forall>f \<in> set fs. \<not> deleted f \<longrightarrow> covers P (ext e) c1 (path f)"
    by (simp add: covers_kept)
  show ?case
  proof (cases r1)
    case (Ok y)
    with Cons.prems(3) s1 have "upload_files e fs (fst y) (ac \<and> snd y) (c1, v1) = (r, (c', v'))"
      by (simp add: upload_files_Cons and_then_def case_prod_unfold)
    from Cons.IH [OF _ rest this] one Ok show ?thesis by (metis prod.collapse)
  qed (use Cons.prems(3) s1 one in \<open>auto simp: upload_files_Cons and_then_def\<close>)
qed (auto simp: ret_def)

text \<open>Every chunk in the cache has the id its content is named by.\<close>

definition named_ids :: "externals \<Rightarrow> string \<Rightarrow> bytes \<Rightarrow> bool" where
  "named_ids x k d \<longleftrightarrow> k = chunk_id x TEXT_HASH_SIZE d \<or> k = chunk_id x BINARY_HASH_SIZE d"

lemma covers_named [simp]: "covers (named_ids x) x s p"
  by (simp add: covers_def named_ids_def hash_size_of_def)

definition cache_named :: "externals \<Rightarrow> 'z chunker_scheme \<Rightarrow> bool" where
  "cache_named x s \<longleftrightarrow> cc.sound (named_ids x) s"

lemma cache_named_hashify:
  "digest_ok x \<Longrightarrow> cache_named x s \<Longrightarrow> cache_named x (snd (hashify x p s))"
  by (simp add: cache_named_def sound_hashify)

lemma cache_namedD:
  "cache_named x s \<Longrightarrow> cache_get (cache s) k = Ok d \<Longrightarrow> (k = [] \<and> d = []) \<or> named_ids x k d"
  unfolding cache_named_def by (rule soundD)

section \<open>Files before and after\<close>

definition file_at :: "'z world_scheme \<Rightarrow> pathbuf \<Rightarrow> (bytes \<times> timestamp) option" where
  "file_at w p = (case node_at w p of Some (File b t) \<Rightarrow> Some (b, t) | _ \<Rightarrow> None)"

lemma file_at_content: "content_at w p = map_option fst (file_at w p)"
  by (simp add: content_at_def file_at_def split: option.splits node.splits)

lemma file_at_put [simp]:
  "file_at (put_node p n w) q =
     (if q = p then (case n of File b t \<Rightarrow> Some (b, t) | Dir \<Rightarrow> None) else file_at w q)"
  by (simp add: file_at_def split: node.splits)

lemma file_at_drop [simp]: "file_at (drop_node p w) q = (if q = p then None else file_at w q)"
  by (simp add: file_at_def)

lemma file_at_more [simp]: "file_at (c\<lparr>records := rows\<rparr>) = file_at c"
  by (simp add: file_at_def node_at_def fun_eq_iff)

lemma make_dirs_files: "file_at (snd (make_dirs qs w)) p = file_at w p"
proof (induction qs arbitrary: w)
  case (Cons q qs)
  have "file_at (put_node q Dir w) p = file_at w p" if "node_at w q = None"
    using that by (simp add: file_at_def)
  with Cons show ?case by (auto simp: ret_apply split: option.splits node.splits)
qed (simp add: prog_simps)

lemma create_dir_all_files [simp]: "file_at (snd (create_dir_all d w)) p = file_at w p"
  by (simp add: create_dir_all_def make_dirs_files)

lemma create_file_OkD:
  "create_file p w = (Ok (), w') \<Longrightarrow> w' = put_node p (File [] (clock w)) w"
  by (auto simp: create_file_def split: option.splits if_splits)

lemma remove_dir_files: "file_at (snd (remove_dir d w)) p = file_at w p"
  by (auto simp: remove_dir_def file_at_def split: option.splits node.splits)

lemma remove_empty_parents_effect:
  "files_only s (snd (remove_empty_parents d s)) \<and>
   (\<forall>p. file_at (snd (remove_empty_parents d s)) p = file_at s p)"
proof (cases d)
  case (Some dir)
  have "files_only s (snd (remove_empty_parents (Some dir) s)) \<and>
     (\<forall>p. file_at (snd (remove_empty_parents (Some dir) s)) p = file_at s p)"
  proof (induction "length dir" arbitrary: dir s rule: less_induct)
    case less
    obtain r s1 where s1: "remove_dir dir s = (r, s1)" by (cases "remove_dir dir s")
    then have fo: "files_only s s1" "file_at s1 p = file_at s p" for p
      using keepsD [OF keeps_remove_dir, of s dir] remove_dir_files [of dir s p] by simp_all
    have "files_only s1 (snd (remove_empty_parents (parent dir) s1)) \<and>
        (\<forall>p. file_at (snd (remove_empty_parents (parent dir) s1)) p = file_at s1 p)"
      using less.hyps by (cases "parent dir") (auto simp: prog_simps dest: length_parent)
    with fo s1 show ?case
      by (auto simp: remove_empty_parents.simps(2) split: res.splits intro: files_only_trans)
  qed
  with Some show ?thesis by simp
qed (simp add: prog_simps)

lemma save_effect:
  assumes "save x rel hs s = (Ok (), t)"
  shows "files_only s t \<and> (\<exists>chunks. answers s hs chunks \<and>
    (\<forall>q. file_at t q = (if q = full_path s rel then Some (concat chunks, clock s) else file_at s q)))"
proof -
  let ?p = "full_path s rel"
  let ?m = "(case parent ?p of Some d \<Rightarrow> map_err (from_io_error rel) (create_dir_all d) | None \<Rightarrow> ret ())
    :: ('a, unit) chunking"
  from assms obtain u s1 s2 where s1: "?m s = (Ok u, s1)" and s2: "create_file ?p s1 = (Ok (), s2)"
    and wr: "write_chunks x ?p hs [] s2 = (Ok (), t)"
    by (auto simp: save_def Let_def and_then_Ok_iff map_err_Ok_iff)
  have f1: "files_only s s1" "file_at s1 q = file_at s q" for q
    using s1 keepsD [OF keeps_create_dir_all, of s] create_dir_all_files [of _ s q]
    by (auto simp: map_err_Ok_iff ret_def split: option.splits) (metis create_dir_all_files snd_conv)+
  note s2 = create_file_OkD [OF s2]
  from write_chunks_OkD [OF wr] obtain chunks where
    ch: "answers s2 hs chunks" "t = write_file ?p (concat chunks) s2" by auto
  have fo: "files_only s s2" using f1(1) s2 files_only_put files_only_trans by metis
  then have "files_only s t" using ch(2) files_only_write files_only_trans by metis
  moreover have "answers s hs chunks"
    using ch(1) files_onlyD(1) [OF fo] by (simp add: answers_def)
  moreover have "clock s2 = clock s" using fo by (rule files_only_clock)
  ultimately show ?thesis using ch(2) s2 f1(2) by (auto simp: write_file_def)
qed

lemma delete_effect:
  assumes "delete rel s = (Ok (), t)"
  shows "files_only s t \<and>
    (\<forall>q. file_at t q = (if q = full_path s rel then None else file_at s q))"
proof -
  let ?p = "full_path s rel"
  from assms obtain s1 where s1: "remove_file ?p s = (Ok (), s1)"
    and t: "remove_empty_parents (parent ?p) s1 = (Ok (), t)"
    by (auto simp: delete_def and_then_Ok_iff map_err_Ok_iff)
  then have s1: "s1 = drop_node ?p s"
    by (auto simp: remove_file_def split: option.splits node.splits)
  have "files_only s1 t" "file_at t q = file_at s1 q" for q
    using t remove_empty_parents_effect [of s1]
    by (metis snd_conv)+
  with s1 show ?thesis using files_only_drop files_only_trans by fastforce
qed

section \<open>Applying downloaded records\<close>

text \<open>
  What applying one record does: the file is written from the cache (or is gone), one row is
  added to the registry, nothing else changes.
\<close>

definition applied :: "'srv sync_env \<Rightarrow> response_record \<Rightarrow> 'z client_scheme \<Rightarrow> 'z client_scheme \<Rightarrow> bool" where
  "applied e d c c' \<longleftrightarrow>
     cache c' = cache c \<and> base_path c' = base_path c \<and> clock c' = clock c \<and>
     (\<exists>r. records c' = records c @ [r] \<and> path r = rr_path d \<and> jid r = Some (rr_id d) \<and>
        namespace_id r = namespace e \<and> deleted r = rr_deleted d \<and>
        modified_at r = truncate_to_seconds (clock c) \<and>
        (\<forall>q \<in> set (records c). record_id q < record_id r) \<and>
        (if rr_deleted d
         then \<forall>q. file_at c' q = (if q = full_path c (rr_path d) then None else file_at c q)
         else \<exists>chunks. answers c (split_on COMMA (rr_chunk_ids d)) chunks \<and>
           file_size r = int (length (concat chunks)) \<and>
           (\<forall>q. file_at c' q = (if q = full_path c (rr_path d) then Some (concat chunks, clock c)
                                else file_at c q))))"

lemma file_at_Some: "file_at w p = Some (b, t) \<longleftrightarrow> node_at w p = Some (File b t)"
  by (auto simp: file_at_def split: option.splits node.splits)

lemma file_at_None: "node_at w p = None \<Longrightarrow> file_at w p = None"
  by (simp add: file_at_def)

lemma create_one:
  "\<exists>i. (\<forall>q \<in> set rows. record_id q < i) \<and> create_records gap [f] rows = rows @ [created_row i f]"
  using creates.ins_Cons [of rows gap f "[]"] by (auto simp: creates.ins_Nil)

lemma delete_one:
  "\<exists>i. (\<forall>q \<in> set rows. record_id q < i) \<and> delete_records gap [f] rows = rows @ [deleted_row i f]"
  using deletes.ins_Cons [of rows gap f "[]"] by (auto simp: deletes.ins_Nil)

lemma files_only_client:
  assumes "files_only c (c' :: 'z client_scheme)"
  shows "records c' = records c" "cache c' = cache c" "base_path c' = base_path c" "clock c' = clock c"
proof -
  have "client.records (c\<lparr>files := files c'\<rparr>) = records c" by (cases c) simp
  with assms show "records c' = records c" unfolding files_only_def by metis
qed (use files_onlyD [OF assms] in simp_all)

lemma apply_deleted:
  assumes "rr_deleted d" "apply_record e d c = (Ok (), c')"
  shows "applied e d c c'"
proof -
  let ?form = "build_delete_form (rr_path d) (clock c) (rr_id d) (namespace e)"
  let ?c1 = "c\<lparr>records := delete_records (id_gap e) [?form] (records c)\<rparr>"
  have fp: "full_path ?c1 = full_path c" by (simp add: full_path_def fun_eq_iff)
  have run: "(if exists_file (rr_path d) ?c1 then delete (rr_path d) ?c1 else (Ok (), ?c1)) = (Ok (), c')"
    using assms unfolding apply_record_def by (simp add: and_then_Ok_eq [OF set_records_apply])
  have "files_only ?c1 c' \<and>
      (\<forall>q. file_at c' q = (if q = full_path ?c1 (rr_path d) then None else file_at ?c1 q))"
  proof (cases "exists_file (rr_path d) ?c1")
    case False
    then have "file_at ?c1 (full_path ?c1 (rr_path d)) = None"
      unfolding exists_file_def exists_path_def by (simp only: file_at_None not_not)
    with False run show ?thesis by simp
  qed (use delete_effect [of "rr_path d" ?c1 c'] run in simp)
  then have fo: "files_only ?c1 c'" and
    fl: "\<forall>q. file_at c' q = (if q = full_path c (rr_path d) then None else file_at c q)"
    unfolding fp file_at_more by blast+
  obtain i where "\<forall>q \<in> set (records c). record_id q < i"
    "records ?c1 = records c @ [deleted_row i ?form]"
    using delete_one by fastforce
  then show ?thesis
    using files_only_client [OF fo] fl assms(1)
    by (auto simp: applied_def deleted_row_def build_delete_form_def)
qed

lemma build_file_record_OkD:
  assumes "build_file_record p base j ns c = (Ok f, c')"
  shows "c' = c" and "file_at c (push_path base p) = Some (b, t) \<Longrightarrow> f =
    \<lparr>cf_jid = Some j, cf_path = p, cf_deleted = False, cf_size = int (length b),
     cf_modified_at = truncate_to_seconds t, cf_namespace_id = ns\<rparr>"
proof -
  from assms obtain len m c1 sz where md: "metadata (push_path base p) c = (Ok (len, m), c1)"
    and sz: "to_i64 len = Ok sz" "c' = c1" and f: "f = \<lparr>cf_jid = Some j, cf_path = p,
      cf_deleted = False, cf_size = sz, cf_modified_at = truncate_to_seconds m, cf_namespace_id = ns\<rparr>"
    unfolding build_file_record_def and_then_Ok_iff map_err_Ok_iff
    by (auto simp: ret_apply lift_res_apply and_then_Ok_iff)
  show "c' = c" using md sz(2) by (auto simp: metadata_def split: option.splits node.splits)
  show "f = \<lparr>cf_jid = Some j, cf_path = p, cf_deleted = False, cf_size = int (length b),
     cf_modified_at = truncate_to_seconds t, cf_namespace_id = ns\<rparr>"
    if "file_at c (push_path base p) = Some (b, t)"
    using that md sz f by (simp add: file_at_Some metadata_def to_i64_def split: if_splits)
qed

lemma apply_written:
  assumes "\<not> rr_deleted d" "apply_record e d c = (Ok (), c')"
  shows "applied e d c c'"
proof -
  let ?p = "full_path c (rr_path d)"
  from assms obtain c1 form where
    sv: "save (ext e) (rr_path d) (split_on COMMA (rr_chunk_ids d)) c = (Ok (), c1)"
    and fm: "build_file_record (rr_path d) (base_path c1) (rr_id d) (namespace e) c1 = (Ok form, c1)"
    and c': "c' = c1\<lparr>records := create_records (id_gap e) [form] (records c1)\<rparr>"
    using build_file_record_OkD(1)
    by (fastforce simp: apply_record_def and_then_Ok_iff set_records_apply)
  from save_effect [OF sv] obtain chunks where fo: "files_only c c1"
    and ch: "answers c (split_on COMMA (rr_chunk_ids d)) chunks"
    and fl: "\<forall>q. file_at c1 q = (if q = ?p then Some (concat chunks, clock c) else file_at c q)"
    by blast
  note same = files_only_client [OF fo]
  from fl have "file_at c1 (push_path (base_path c1) (rr_path d)) = Some (concat chunks, clock c)"
    by (simp add: full_path_def same)
  from build_file_record_OkD(2) [OF fm this]
  have "form = \<lparr>cf_jid = Some (rr_id d), cf_path = rr_path d, cf_deleted = False,
      cf_size = int (length (concat chunks)), cf_modified_at = truncate_to_seconds (clock c),
      cf_namespace_id = namespace e\<rparr>" .
  moreover obtain i where "\<forall>q \<in> set (records c). record_id q < i"
    "records c' = records c @ [created_row i form]"
    using create_one c' same by fastforce
  ultimately show ?thesis
    using assms(1) same ch fl c' by (auto simp: applied_def created_row_def)
qed

lemma apply_record_OkD: "apply_record e d c = (Ok (), c') \<Longrightarrow> applied e d c c'"
  using apply_deleted apply_written by blast

lemma view_append_one:
  "registry_view m (rows @ [r]) p =
     (if namespace_id r = m \<and> path r = p then Some r else registry_view m rows p)"
  by (simp add: registry_view_def)

lemma ids_sorted_append_one:
  "wf_table rows \<Longrightarrow> \<forall>q \<in> set rows. record_id q < record_id r \<Longrightarrow> wf_table (rows @ [r])"
  by (simp add: ids_sorted_def sorted_wrt_append)

text \<open>
  A record of the server as the client has it at the end of a pass: its current row carries
  the server's id, and the file is the one the row describes, put together from chunks the
  cache answered with, or is gone.
\<close>

definition landed ::
    "'srv sync_env \<Rightarrow> 'z client_scheme \<Rightarrow> 'z client_scheme \<Rightarrow> response_record \<Rightarrow> bool" where
  "landed e c c' d \<longleftrightarrow>
     (\<exists>r. registry_view (namespace e) (records c') (rr_path d) = Some r \<and>
        jid r = Some (rr_id d) \<and> deleted r = rr_deleted d \<and>
        modified_at r = truncate_to_seconds (clock c) \<and>
        (if rr_deleted d then file_at c' (full_path c (rr_path d)) = None
         else \<exists>chunks. answers c (split_on COMMA (rr_chunk_ids d)) chunks \<and>
           file_size r = int (length (concat chunks)) \<and>
           file_at c' (full_path c (rr_path d)) = Some (concat chunks, clock c)))"

lemma applied_landed: "applied e d c c' \<Longrightarrow> landed e c c' d"
  unfolding applied_def landed_def by (fastforce simp: view_append_one split: if_splits)

lemma applied_other:
  assumes "applied e d c c'"
  shows "q \<noteq> full_path c (rr_path d) \<Longrightarrow> file_at c' q = file_at c q"
    and "m \<noteq> namespace e \<or> p \<noteq> rr_path d \<Longrightarrow>
      registry_view m (records c') p = registry_view m (records c) p"
    and "wf_table (records c) \<Longrightarrow> wf_table (records c')"
    and "cache c' = cache c" "base_path c' = base_path c" "clock c' = clock c"
    and "set (records c) \<subseteq> set (records c')"
    and "\<exists>r \<in> set (records c'). namespace_id r = namespace e \<and> jid r = Some (rr_id d)"
  using assms unfolding applied_def
  by (auto simp: view_append_one intro!: ids_sorted_append_one split: if_splits)

lemma applied_all:
  assumes "for_each (apply_record e) ds c = (Ok (), c')"
    "distinct (map (full_path c \<circ> rr_path) ds)"
  shows "(\<forall>d \<in> set ds. landed e c c' d) \<and>
    (\<forall>q. q \<notin> (full_path c \<circ> rr_path) ` set ds \<longrightarrow> file_at c' q = file_at c q) \<and>
    (\<forall>m p. m \<noteq> namespace e \<or> p \<notin> rr_path ` set ds \<longrightarrow>
       registry_view m (records c') p = registry_view m (records c) p) \<and>
    (wf_table (records c) \<longrightarrow> wf_table (records c')) \<and>
    cache c' = cache c \<and> base_path c' = base_path c \<and> clock c' = clock c"
  using assms
proof (induction ds arbitrary: c)
  case (Cons d ds)
  from Cons.prems(1) obtain c1 where ap: "applied e d c c1"
    and rest: "for_each (apply_record e) ds c1 = (Ok (), c')"
    by (auto simp: and_then_Ok_iff dest: apply_record_OkD)
  note ot = applied_other [OF ap]
  have fp: "full_path c1 = full_path c" using ot(5) by (simp add: full_path_def fun_eq_iff)
  have "distinct (map (full_path c1 \<circ> rr_path) ds)" using Cons.prems(2) by (simp add: fp comp_def)
  note IH = Cons.IH [OF rest this, unfolded fp]
  have new: "full_path c (rr_path d) \<notin> (full_path c \<circ> rr_path) ` set ds" "rr_path d \<notin> rr_path ` set ds"
    using Cons.prems(2) by (auto simp: image_iff comp_def)
  have d: "landed e c c' d"
  proof -
    have "file_at c' (full_path c (rr_path d)) = file_at c1 (full_path c (rr_path d))"
      "registry_view (namespace e) (records c') (rr_path d) =
        registry_view (namespace e) (records c1) (rr_path d)" using IH new by blast+
    with applied_landed [OF ap] show ?thesis unfolding landed_def by (simp only:)
  qed
  have ds: "landed e c c' d'" if "d' \<in> set ds" for d'
  proof -
    have "landed e c1 c' d'" using IH that by blast
    then show ?thesis unfolding landed_def fp answers_def ot(4,6) .
  qed
  show ?case using d ds IH ot by auto
qed (auto simp: ret_def)

section \<open>Filling the cache\<close>

text \<open>What a phase that only touches the cache keeps.\<close>

lemma cache_only_save_downloaded:
  "\<exists>c'. save_downloaded e items c = (Ok (), c') \<and> cache_only c c' \<and>
     (cc.sound P c \<longrightarrow> (\<forall>(k, d) \<in> set items. P k d) \<longrightarrow> cc.sound P c')"
proof (induction items arbitrary: c)
  case (Cons i items)
  obtain k d where i: "i = (k, d)" by (cases i)
  let ?c = "cache_set (ext e) k d c"
  obtain c' where c': "save_downloaded e items ?c = (Ok (), c')" "cache_only ?c c'"
    "cc.sound P ?c \<longrightarrow> (\<forall>(k, d) \<in> set items. P k d) \<longrightarrow> cc.sound P c'"
    using Cons.IH by blast
  have "save_downloaded e (i # items) c = (Ok (), c')"
    using c'(1) i by (simp add: save_chunk_def and_then_def)
  moreover have "cache_only c c'" using cache_only_set c'(2) by (rule cache_only_trans)
  moreover have "cc.sound P c'" if "cc.sound P c" "\<forall>(k, d) \<in> set (i # items). P k d"
    using that c'(3) i by (auto intro: cc.sound_set)
  ultimately show ?case by blast
qed (simp add: ret_apply)

lemma collect_needed_spec:
  assumes "digest_ok (ext e)" "collect_needed e ds queue c = (r, c')"
  shows "cache_only c c' \<and> (cache_named (ext e) c \<longrightarrow> cache_named (ext e) c') \<and>
    (\<forall>q. r = Ok q \<longrightarrow> set q \<subseteq> set queue \<union> \<Union> ((\<lambda>d. set (split_on COMMA (rr_chunk_ids d))) ` set ds))"
  using assms(2)
proof (induction ds arbitrary: queue c)
  case (Cons d ds)
  show ?case
  proof (cases "rr_deleted d")
    case True
    with Cons.prems have "collect_needed e ds queue c = (r, c')" by simp
    from Cons.IH [OF this] show ?thesis by auto
  next
    case False
    let ?warm = "\<lambda>c. if exists_file (rr_path d) c
        then and_then (hashify (ext e) (rr_path d)) (\<lambda>_. ret ()) c else (Ok (), c)"
    obtain r1 c1 where s1: "?warm c = (r1, c1)" by (cases "?warm c")
    have c1: "c1 = c \<or> c1 = snd (hashify (ext e) (rr_path d) c)"
      using s1 by (auto simp: and_then_apply ret_apply split: if_splits res.splits)
    then have c1: "cache_only c c1" "cache_named (ext e) c \<longrightarrow> cache_named (ext e) c1"
      using hashify_cache_only [OF assms(1), of c "rr_path d"]
        cache_named_hashify [OF assms(1), of c "rr_path d"] by auto
    show ?thesis
    proof (cases r1)
      case (Ok u)
      with s1 Cons.prems False have "collect_needed e ds (queue @
          filter (\<lambda>h. \<not> check_chunk h c1) (split_on COMMA (rr_chunk_ids d))) c1 = (r, c')"
        by (simp add: and_then_Ok_eq)
      from Cons.IH [OF this] c1 show ?thesis by (auto intro: cache_only_trans)
    qed (use s1 Cons.prems False c1 in \<open>auto simp: and_then_Err_eq and_then_Panic_eq\<close>)
  qed
qed (auto simp: ret_apply)

text \<open>
  A download pass up to the last loop: what was listed, what was asked for, what came.
\<close>

definition fetched ::
    "'srv sync_env \<Rightarrow> response_record list \<Rightarrow> 'srv \<Rightarrow> (string \<times> bytes) list \<Rightarrow> 'srv \<Rightarrow> bool" where
  "fetched e ds v items v' \<longleftrightarrow>
     (items = [] \<and> v' = v) \<or>
     (\<exists>queue. set queue \<subseteq> \<Union> ((\<lambda>d. set (split_on COMMA (rr_chunk_ids d))) ` set ds) \<and>
        download_batch (http e) (remote_client e) queue v = (Ok (items, Ok ()), v'))"

definition from_items :: "externals \<Rightarrow> (string \<times> bytes) list \<Rightarrow> string \<Rightarrow> bytes \<Rightarrow> bool" where
  "from_items x items k d \<longleftrightarrow> named_ids x k d \<or> (k, d) \<in> set items"

lemma download_OkD:
  assumes "digest_ok (ext e)" "cache_named (ext e) c"
    "list_records (http e) (remote_client e) (latest_local e c) v = (Ok ds, v1)"
    "check_download_once e (c, v) = (Ok b, (c', v'))"
  shows "b = (ds \<noteq> []) \<and> (\<exists>items c1. fetched e ds v1 items v' \<and> cache_only c c1 \<and>
    cc.sound (from_items (ext e) items) c1 \<and> for_each (apply_record e) ds c1 = (Ok (), c'))"
proof -
  from assms(4) have "and_then (on_server (list_records (http e) (remote_client e) (latest_local e c)))
      (\<lambda>ds. and_then (on_client (collect_needed e ds [])) (\<lambda>queue.
        and_then (fetch_chunks e queue) (\<lambda>_.
          and_then (on_client (for_each (apply_record e) ds)) (\<lambda>_. ret (ds \<noteq> []))))) (c, v) =
      (Ok b, (c', v'))" by (simp add: check_download_once_def)
  then obtain queue c1 c2 where b: "b = (ds \<noteq> [])"
    and col: "collect_needed e ds [] c = (Ok queue, c1)"
    and fe: "fetch_chunks e queue (c1, v1) = (Ok (), (c2, v'))"
    and ap: "for_each (apply_record e) ds c2 = (Ok (), c')"
    using assms(3)
    by (auto simp: and_then_Ok_iff on_server_Ok_iff on_client_Ok_iff ret_apply)
  note c1 = collect_needed_spec [OF assms(1) col]
  have n1: "cc.sound (from_items (ext e) items) c1" for items
    using c1 assms(2) by (auto simp: cache_named_def cc.sound_def from_items_def)
  show ?thesis
  proof (cases "queue = []")
    case True
    with fe have "c2 = c1 \<and> v' = v1" by (simp add: fetch_chunks_def ret_apply)
    with b ap n1 c1 show ?thesis by (auto simp: fetched_def)
  next
    case False
    with fe obtain items where
      it: "download_batch (http e) (remote_client e) queue v1 = (Ok (items, Ok ()), v')"
      and sv: "save_downloaded e items c1 = (Ok (), c2)"
      by (auto simp: fetch_chunks_def and_then_Ok_iff on_server_Ok_iff on_client_Ok_iff lift_res_apply)
    from cache_only_save_downloaded [of e items c1 "from_items (ext e) items"] sv n1
    have "cache_only c1 c2" "cc.sound (from_items (ext e) items) c2"
      by (auto simp: from_items_def)
    with b ap it c1 show ?thesis by (auto simp: fetched_def intro: cache_only_trans)
  qed
qed

end
