(* ===== verification/RemoteFacts.thy ===== *)
theory RemoteFacts
  imports Remote
begin

text \<open>
  The streaming parser: what is complete in the buffer is parsed the same way whatever
  follows, so parsing does not depend on how the network cuts the stream; and what the parts
  of a well-formed stream parse to.
\<close>

section \<open>Parsing does not depend on the cuts\<close>

lemma extract_next_part_append:
  assumes "extract_next_part buffer bd = Ok (Some (part, rest))"
  shows "extract_next_part (buffer @ x) bd = Ok (Some (part, rest @ x))"
proof -
  obtain st nx where b: "bd \<noteq> []" "find_window bd buffer = Some st"
    "find_window bd (drop (st + length bd) buffer) = Some nx"
    "part = take nx (drop (st + length bd) buffer)" "rest = drop nx (drop (st + length bd) buffer)"
    using assms
    by (auto simp: extract_next_part_def find_boundary_def Let_def split: option.splits if_splits)
  have l: "st + length bd \<le> length buffer" "nx + length bd \<le> length (drop (st + length bd) buffer)"
    using find_window_bound b(2,3) by blast+
  from l(1) have d: "drop (st + length bd) (buffer @ x) = drop (st + length bd) buffer @ x" by simp
  show ?thesis
    using b l find_window_append_stable [OF b(2), of x] find_window_append_stable [OF b(3), of x]
    by (simp add: extract_next_part_def find_boundary_def Let_def d del: drop_append drop_drop)
       (simp del: drop_drop)
qed

lemma extract_next_part_total: "bd \<noteq> [] \<Longrightarrow> \<exists>r. extract_next_part buffer bd = Ok r"
  by (auto simp: extract_next_part_def Let_def split: option.splits)

text \<open>Reading more: the parts of the longer buffer are those of the shorter, then the rest's.\<close>

lemma drain_append:
  assumes "bd \<noteq> []"
  shows "drain bd (buffer @ x) =
    (case drain bd buffer of
       (items, Ok rest) \<Rightarrow> (case drain bd (rest @ x) of (more_items, r) \<Rightarrow> (items @ more_items, r))
     | (items, Err e) \<Rightarrow> (items, Err e)
     | (items, Panic) \<Rightarrow> (items, Panic))"
proof (induction "length buffer" arbitrary: buffer rule: less_induct)
  case less
  show ?case
  proof (cases "extract_next_part buffer bd")
    case (Ok o')
    show ?thesis
    proof (cases o')
      case None
      with Ok have "drain bd buffer = ([], Ok buffer)" by (subst drain.simps) simp
      then show ?thesis by simp
    next
      case (Some pr)
      obtain part rest where pr: "pr = (part, rest)" by (cases pr)
      with Ok Some have e: "extract_next_part buffer bd = Ok (Some (part, rest))" by simp
      note e' = extract_next_part_append [OF e, of x]
      have IH: "drain bd (rest @ x) =
        (case drain bd rest of
           (items, Ok r) \<Rightarrow> (case drain bd (r @ x) of (more_items, q) \<Rightarrow> (items @ more_items, q))
         | (items, Err e) \<Rightarrow> (items, Err e)
         | (items, Panic) \<Rightarrow> (items, Panic))"
        using less.hyps [OF extract_next_part_shorter [OF e]] .
      have 1: "drain bd buffer = (case process_part part of
             Panic \<Rightarrow> ([], Panic) | Err e \<Rightarrow> ([], Err e) | Ok None \<Rightarrow> drain bd rest
           | Ok (Some item) \<Rightarrow> (case drain bd rest of (items, r) \<Rightarrow> (item # items, r)))"
        using e by (subst drain.simps) simp
      have 2: "drain bd (buffer @ x) = (case process_part part of
             Panic \<Rightarrow> ([], Panic) | Err e \<Rightarrow> ([], Err e) | Ok None \<Rightarrow> drain bd (rest @ x)
           | Ok (Some item) \<Rightarrow> (case drain bd (rest @ x) of (items, r) \<Rightarrow> (item # items, r)))"
        using e' by (subst drain.simps) simp
      show ?thesis
        unfolding 1 2 IH by (auto split: res.splits option.splits prod.splits)
    qed
  qed (use extract_next_part_total [OF assms, of buffer] in auto)
qed

lemma drain_rest:
  "drain bd buffer = (items, Ok rest) \<Longrightarrow> extract_next_part rest bd = Ok None"
proof (induction "length buffer" arbitrary: buffer items rule: less_induct)
  case less
  note prems = less.prems
  show ?case
  proof (cases "extract_next_part buffer bd")
    case (Ok o')
    show ?thesis
    proof (cases o')
      case None
      with Ok prems show ?thesis by (subst (asm) drain.simps) simp
    next
      case (Some pr)
      obtain part r where pr: "pr = (part, r)" by (cases pr)
      with Ok Some have e: "extract_next_part buffer bd = Ok (Some (part, r))" by simp
      obtain items' where "drain bd r = (items', Ok rest)"
        using prems e by (subst (asm) drain.simps) (auto split: res.splits option.splits prod.splits)
      with extract_next_part_shorter [OF e] show ?thesis by (rule less.hyps)
    qed
  qed (use prems in \<open>subst (asm) drain.simps, simp\<close>)+
qed

lemma drain_stuck: "extract_next_part rest bd = Ok None \<Longrightarrow> drain bd rest = ([], Ok rest)"
  by (subst drain.simps) simp

text \<open>A stream without failures parses as its concatenation does in one piece.\<close>

lemma parse_stream_concat:
  assumes "bd \<noteq> []" "extract_next_part buffer bd = Ok None"
  shows "parse_stream bd (map Data chunks) buffer =
    (case drain bd (buffer @ concat chunks) of
       (items, Ok _) \<Rightarrow> (items, Ok ())
     | (items, Err e) \<Rightarrow> (items, Err e)
     | (items, Panic) \<Rightarrow> (items, Panic))"
  using assms(2)
proof (induction chunks arbitrary: buffer)
  case Nil
  then show ?case by (simp add: drain_stuck)
next
  case (Cons c chunks)
  have split: "drain bd (buffer @ concat (c # chunks)) =
    (case drain bd (buffer @ c) of
       (items, Ok rest) \<Rightarrow>
         (case drain bd (rest @ concat chunks) of (more_items, r) \<Rightarrow> (items @ more_items, r))
     | (items, Err e) \<Rightarrow> (items, Err e)
     | (items, Panic) \<Rightarrow> (items, Panic))"
    using drain_append [OF assms(1), of "buffer @ c" "concat chunks"] by simp
  show ?case
  proof (cases "drain bd (buffer @ c)")
    case (Pair items r)
    show ?thesis
    proof (cases r)
      case (Ok rest)
      with Pair have "extract_next_part rest bd = Ok None" by (auto intro: drain_rest)
      from Cons.IH [OF this] show ?thesis
        unfolding split using Pair Ok by (auto split: res.splits prod.splits)
    qed (use Pair split in auto)
  qed
qed

lemma extract_nothing [simp]: "bd \<noteq> [] \<Longrightarrow> extract_next_part [] bd = Ok None"
  by (simp add: extract_next_part_def find_boundary_def)

section \<open>Well-formed parts\<close>

lemma extract_framed:
  assumes "bd \<noteq> []" "\<not> sublist bd (junk @ butlast bd)" "\<not> sublist bd (part @ butlast bd)"
  shows "extract_next_part (junk @ bd @ part @ bd @ rest) bd = Ok (Some (part, bd @ rest))"
  using find_window_at [OF assms(1,2), of "part @ bd @ rest"]
    find_window_at [OF assms(1,3), of rest] assms(1)
  by (simp add: extract_next_part_def find_boundary_def Let_def)

end
