(* ===== verification/MultipartFacts.thy ===== *)
theory MultipartFacts
  imports RemoteFacts ChunkStore
begin

text \<open>
  The server's multipart body against the client's parser: what the parser makes of the
  body the server writes, when ids and boundary are alphanumeric and no chunk contains the
  boundary line.
\<close>

section \<open>Searching in framed text\<close>

lemma find_window_skip:
  "c \<notin> set xs \<Longrightarrow> find_window (c # w) (xs @ ys) = map_option ((+) (length xs)) (find_window (c # w) ys)"
  by (cases "find_window (c # w) ys"; induction xs; auto)

lemma find_window_line:
  assumes "c \<noteq> d" "xs \<noteq> []" "c \<notin> set xs"
  shows "find_window [c, d, c, d] (c # d # xs @ ys) =
    map_option ((+) (2 + length xs)) (find_window [c, d, c, d] ys)"
proof -
  obtain x xs' where xs: "xs = x # xs'" using assms(2) by (cases xs) auto
  have "c \<notin> set xs'" using assms(3) xs by simp
  from find_window_skip [OF this, of "[d, c, d]" ys] show ?thesis
    using assms xs by (cases "find_window [c, d, c, d] ys") simp_all
qed

lemma bytes_distinct: "(of_char CR :: byte) \<noteq> of_char LF"
  by (simp add: CR_def LF_def)

definition alnum :: "string \<Rightarrow> bool" where
  "alnum s \<longleftrightarrow> s \<noteq> [] \<and> list_all is_ascii_alphanumeric s"

lemma alnum_notin:
  assumes "alnum s" "\<not> is_ascii_alphanumeric c"
  shows "c \<notin> set s" "of_char c \<notin> set (to_bytes s)"
  using assms set_to_bytes by (auto simp: alnum_def list_all_iff)

lemma not_alnum [simp]:
  "\<not> is_ascii_alphanumeric CR" "\<not> is_ascii_alphanumeric LF"
  "\<not> is_ascii_alphanumeric CHR ''-''" "\<not> is_ascii_alphanumeric CHR '' ''"
  "\<not> is_ascii_alphanumeric CHR '':''"
  "\<not> is_ascii_alphanumeric CHR 0x0D" "\<not> is_ascii_alphanumeric CHR 0x0A"
  by (simp_all add: is_ascii_alphanumeric_def CR_def LF_def)

lemma alnum_ascii: "alnum s \<Longrightarrow> c \<in> set s \<Longrightarrow> (of_char c :: nat) < 128"
  by (auto simp: alnum_def list_all_iff is_ascii_alphanumeric_def Let_def)

section \<open>One section\<close>

definition line1 :: string where "line1 = ''Content-Type: '' @ SECTION_CONTENT_TYPE"
definition line2 :: "string \<Rightarrow> string" where "line2 chunk_id = ''X-Chunk-ID: '' @ chunk_id"
definition head_bytes :: "string \<Rightarrow> bytes" where
  "head_bytes chunk_id = to_bytes ([CR, LF] @ line1 @ [CR, LF] @ line2 chunk_id)"

definition part_bytes :: "string \<times> bytes \<Rightarrow> bytes" where
  "part_bytes c = head_bytes (fst c) @ to_bytes [CR, LF, CR, LF] @ snd c @ to_bytes [CR, LF]"

definition boundary_bytes :: "string \<Rightarrow> bytes" where
  "boundary_bytes boundary = to_bytes (''--'' @ boundary)"

lemma section_header_eq:
  "section_header boundary chunk_id =
    to_bytes [CR, LF] @ boundary_bytes boundary @ head_bytes chunk_id @ to_bytes [CR, LF, CR, LF]"
  by (simp add: section_header_def boundary_bytes_def head_bytes_def line1_def line2_def)

lemma crlf_notin_lines:
  "CR \<notin> set line1" "LF \<notin> set line1" "line1 \<noteq> []"
  by (code_simp, code_simp, code_simp)

lemma crlf_notin_line2:
  assumes "alnum i"
  shows "CR \<notin> set (line2 i)" "LF \<notin> set (line2 i)" "line2 i \<noteq> []"
  using alnum_notin(1) [OF assms] by (auto simp: line2_def CR_def LF_def)

lemma find_double_crlf_head:
  assumes "alnum i"
  shows "find_double_crlf (head_bytes i @ to_bytes [CR, LF, CR, LF] @ q) = Some (length (head_bytes i))"
proof -
  let ?c = "of_char CR :: byte" and ?d = "of_char LF :: byte"
  have w: "to_bytes (CRLF @ CRLF) = [?c, ?d, ?c, ?d]" by (simp add: CRLF_def)
  have l: "?c \<notin> set (to_bytes line1)" "?c \<notin> set (to_bytes (line2 i))"
    using crlf_notin_lines crlf_notin_line2 [OF assms] by (simp_all add: set_to_bytes)
  have ne: "to_bytes line1 \<noteq> []" "to_bytes (line2 i) \<noteq> []"
    using crlf_notin_lines(3) crlf_notin_line2(3) [OF assms] by (metis length_to_bytes length_0_conv)+
  have e: "find_window [?c, ?d, ?c, ?d] ([?c, ?d, ?c, ?d] @ q) = Some 0" by simp
  have h: "head_bytes i @ to_bytes [CR, LF, CR, LF] @ q =
      ?c # ?d # to_bytes line1 @ ?c # ?d # to_bytes (line2 i) @ [?c, ?d, ?c, ?d] @ q"
    by (simp add: head_bytes_def)
  show ?thesis
    unfolding find_double_crlf_def w h
    unfolding find_window_line [OF bytes_distinct ne(1) l(1)] find_window_line [OF bytes_distinct ne(2) l(2)] e
    by (simp add: head_bytes_def)
qed

lemma head_utf8:
  assumes "alnum i"
  shows "utf8_ok (head_bytes i)"
proof -
  have "\<forall>c \<in> set ([CR, LF] @ line1 @ [CR, LF] @ ''X-Chunk-ID: ''). (of_char c :: nat) < 128"
    by code_simp
  then have "\<forall>c \<in> set ([CR, LF] @ line1 @ [CR, LF] @ line2 i). (of_char c :: byte) < 0x80"
    using alnum_ascii [OF assms] by (auto simp: line2_def intro: of_char_less_128)
  then have "\<forall>b \<in> set (head_bytes i). b < 0x80" by (auto simp: head_bytes_def to_bytes_def)
  then show ?thesis by (rule utf8_ok_ascii)
qed

lemma lines_of_head:
  assumes "alnum i"
  shows "str_lines (of_bytes (head_bytes i)) = [[], line1, line2 i]"
proof -
  have e: "[CR, LF] @ line1 @ [CR, LF] @ line2 i = [CR] @ LF # ((line1 @ [CR]) @ LF # line2 i)"
    by simp
  have "LF \<notin> set [CR]" "LF \<notin> set (line1 @ [CR])"
    using crlf_notin_lines by (simp_all add: CR_def LF_def)
  from split_on_append_sep [OF this(1)] split_on_append_sep [OF this(2)]
  have "split_on LF ([CR, LF] @ line1 @ [CR, LF] @ line2 i) = [[CR], line1 @ [CR], line2 i]"
    unfolding e using split_on_no_sep [OF crlf_notin_line2(2) [OF assms]] by metis
  then show ?thesis
    using crlf_notin_line2(3) [OF assms]
    unfolding head_bytes_def of_bytes_to_bytes str_lines_def Let_def by (simp add: strip_cr_def)
qed

lemma alnum_not_ws:
  assumes "alnum i"
  shows "trim i = i"
proof -
  have no: "list_all (\<lambda>c. \<not> is_ascii_alphanumeric c) ws_bytes" by code_simp
  have "hd i \<in> set i" "last i \<in> set i" using assms by (auto simp: alnum_def)
  then have "is_ascii_alphanumeric (hd i)" "is_ascii_alphanumeric (last i)"
    using assms by (auto simp: alnum_def list_all_iff)
  with no show ?thesis by (intro trim_id) (auto simp: list_all_iff)
qed

lemma id_of_line2:
  assumes "alnum i"
  shows "nth_opt (split_str '': '' (line2 i)) 1 = Some i"
proof -
  have "\<not> sublist '': '' (''X-Chunk-ID'' @ butlast '': '')" by code_simp
  from split_str_at [OF _ this, of i]
  have "split_str '': '' (''X-Chunk-ID'' @ '': '' @ i) = ''X-Chunk-ID'' # split_str '': '' i" by simp
  moreover have "\<not> sublist '': '' i"
  proof
    assume "sublist '': '' i"
    then have "CHR '':'' \<in> set i" by (auto simp: sublist_def)
    with alnum_notin(1) [OF assms, of "CHR '':''"] show False by simp
  qed
  then have "split_str '': '' i = [i]" by (rule split_str_absent)
  ultimately show ?thesis by (simp add: line2_def)
qed

lemma process_part_section:
  assumes "alnum (fst c)"
  shows "process_part (part_bytes c) = Ok (Some c)"
proof -
  let ?h = "head_bytes (fst c)"
  have "find_double_crlf (part_bytes c) = Some (length ?h)"
    unfolding part_bytes_def by (rule find_double_crlf_head [OF assms])
  moreover have "take (length ?h) (part_bytes c) = ?h" by (simp add: part_bytes_def)
  moreover have "find (prefix CHUNK_ID_HEADER) (str_lines (of_bytes ?h)) = Some (line2 (fst c))"
  proof -
    have "\<not> prefix CHUNK_ID_HEADER []" "\<not> prefix CHUNK_ID_HEADER line1" by code_simp+
    moreover have "prefix CHUNK_ID_HEADER (line2 (fst c))"
      by (simp add: CHUNK_ID_HEADER_def line2_def)
    ultimately show ?thesis by (simp add: lines_of_head [OF assms])
  qed
  ultimately show ?thesis
    using head_utf8 [OF assms] id_of_line2 [OF assms] alnum_not_ws [OF assms]
    by (simp add: process_part_def part_bytes_def)
qed

section \<open>The whole body\<close>

lemma sublist_hyphens: "sublist (boundary_bytes b) xs \<Longrightarrow> sublist (to_bytes ''--'') xs"
  by (auto simp: boundary_bytes_def sublist_def)

lemma boundary_notin:
  assumes "alnum b"
  shows "of_char CR \<notin> set (boundary_bytes b)" "of_char LF \<notin> set (boundary_bytes b)"
  using alnum_notin(2) [OF assms, of CR] alnum_notin(2) [OF assms, of LF]
  by (simp_all add: boundary_bytes_def CR_def LF_def)

lemma boundary_notin_lines:
  assumes "alnum i"
  shows "\<not> sublist (boundary_bytes b) (to_bytes line1)"
    "\<not> sublist (boundary_bytes b) (to_bytes (line2 i))"
proof -
  let ?h = "to_bytes ''--''"
  have 1: "\<not> sublist ?h (to_bytes line1)" by code_simp
  have 2: "\<not> sublist ?h (to_bytes ''X-Chunk-ID:'')" by code_simp
  have 3: "\<not> sublist ?h (to_bytes i)"
  proof
    assume "sublist ?h (to_bytes i)"
    then have "of_char CHR ''-'' \<in> set (to_bytes i)" by (auto simp: sublist_def)
    with alnum_notin(2) [OF assms, of "CHR ''-''"] show False by simp
  qed
  have l2: "line2 i = ''X-Chunk-ID:'' @ CHR '' '' # i" by (simp add: line2_def)
  have "of_char CHR '' '' \<notin> set ?h" by simp
  from sublist_across [OF this, of "to_bytes ''X-Chunk-ID:''" "to_bytes i"] 2 3
  have 4: "\<not> sublist ?h (to_bytes (line2 i))"
    unfolding l2 to_bytes_append to_bytes_Cons by blast
  show "\<not> sublist (boundary_bytes b) (to_bytes line1)"
    "\<not> sublist (boundary_bytes b) (to_bytes (line2 i))"
    using 1 4 sublist_hyphens by blast+
qed

lemma boundary_first_in_part:
  assumes b: "alnum b" and i: "alnum (fst c)" and content: "\<not> sublist (boundary_bytes b) (snd c)"
  shows "find_window (boundary_bytes b) (part_bytes c @ boundary_bytes b @ rest) =
    Some (length (part_bytes c))"
proof -
  let ?bd = "boundary_bytes b" and ?c = "of_char CR :: byte" and ?d = "of_char LF :: byte"
  note cd = boundary_notin [OF b]
  have ne: "?bd \<noteq> []" by (simp add: boundary_bytes_def)
  have tiny: "\<not> sublist ?bd []" using ne by (auto dest: sublist_length)
  note across = sublist_across [OF cd(1)] sublist_across [OF cd(2)]
  have 1: "\<not> sublist ?bd ([] @ ?c # ys)" if "\<not> sublist ?bd ys" for ys
    using across(1) [of "[]" ys] that tiny by blast
  have 2: "\<not> sublist ?bd ([] @ ?d # ys)" if "\<not> sublist ?bd ys" for ys
    using across(2) [of "[]" ys] that tiny by blast
  have 3: "\<not> sublist ?bd (xs @ ?c # ys)" if "\<not> sublist ?bd xs" "\<not> sublist ?bd ys" for xs ys
    using across(1) [of xs ys] that by blast
  have "\<not> sublist ?bd ([?c, ?d] @ to_bytes line1 @ [?c, ?d] @ to_bytes (line2 (fst c)) @ [?c, ?d, ?c, ?d] @ snd c)"
    using 1 2 3 content boundary_notin_lines [OF i] by simp
  then have u: "\<not> sublist ?bd (head_bytes (fst c) @ to_bytes [CR, LF, CR, LF] @ snd c)"
    by (simp add: head_bytes_def)
  show ?thesis
    using find_window_after_crlf [OF ne cd u, of rest]
    by (simp add: part_bytes_def)
qed

text \<open>What follows the first line break of the body.\<close>

fun after_crlf :: "string \<Rightarrow> (string \<times> bytes) list \<Rightarrow> bytes" where
  "after_crlf b [] = boundary_bytes b @ to_bytes (''--'' @ [CR, LF])"
| "after_crlf b (c # cs) = boundary_bytes b @ part_bytes c @ after_crlf b cs"

lemma after_crlf_starts: "\<exists>rest. after_crlf b cs = boundary_bytes b @ rest"
  by (cases cs) auto

lemma extract_after_crlf:
  assumes b: "alnum b" and c: "alnum (fst c)" "\<not> sublist (boundary_bytes b) (snd c)"
  shows "extract_next_part (after_crlf b (c # cs)) (boundary_bytes b) =
    Ok (Some (part_bytes c, after_crlf b cs))"
proof -
  obtain rest where rest: "after_crlf b cs = boundary_bytes b @ rest"
    using after_crlf_starts by blast
  have ne: "boundary_bytes b \<noteq> []" by (simp add: boundary_bytes_def)
  show ?thesis
    using boundary_first_in_part [OF b c, of rest] ne
    by (simp add: extract_next_part_def find_boundary_def find_window_at_start rest)
qed

lemma drain_after_crlf:
  assumes b: "alnum b"
    and cs: "\<forall>c \<in> set cs. alnum (fst c) \<and> \<not> sublist (boundary_bytes b) (snd c)"
  shows "drain (boundary_bytes b) (after_crlf b cs) = (cs, Ok (after_crlf b []))"
  using cs
proof (induction cs)
  case Nil
  let ?bd = "boundary_bytes b"
  have ne: "?bd \<noteq> []" "2 < length ?bd"
    using b by (auto simp: boundary_bytes_def alnum_def)
  have "\<not> sublist ?bd (to_bytes ''--'' @ of_char CR # [of_char LF])"
  proof -
    have "\<not> sublist ?bd (to_bytes ''--'')" "\<not> sublist ?bd [of_char LF]"
      using ne(2) by (auto dest!: sublist_length)
    then show ?thesis using sublist_across [OF boundary_notin(1) [OF b]] by blast
  qed
  then have "find_window ?bd (to_bytes (''--'' @ [CR, LF])) = None"
    by (simp only: find_window_None_iff to_bytes_append to_bytes_Cons to_bytes_Nil not_False_eq_True)
  then have "extract_next_part (after_crlf b []) ?bd = Ok None"
    using ne(1) by (simp add: extract_next_part_def find_boundary_def find_window_at_start)
  then show ?case by (rule drain_stuck)
next
  case (Cons c cs)
  then show ?case
    using extract_after_crlf [OF b, of c cs] process_part_section [of c]
    by (subst drain.simps) simp
qed

lemma drain_body:
  assumes b: "alnum b"
    and cs: "\<forall>c \<in> set cs. alnum (fst c) \<and> \<not> sublist (boundary_bytes b) (snd c)"
  shows "drain (boundary_bytes b) (to_bytes [CR, LF] @ after_crlf b cs) =
    (cs, Ok (if cs = [] then to_bytes [CR, LF] @ after_crlf b [] else after_crlf b []))"
proof -
  let ?bd = "boundary_bytes b" and ?c = "of_char CR :: byte" and ?d = "of_char LF :: byte"
  have ne: "?bd \<noteq> []" "2 < length ?bd"
    using b by (auto simp: boundary_bytes_def alnum_def)
  obtain rest where rest: "after_crlf b cs = ?bd @ rest"
    using after_crlf_starts by blast
  have "\<not> sublist ?bd []" using ne(1) by (auto dest: sublist_length)
  from find_window_after_crlf [OF ne(1) boundary_notin [OF b] this]
  have "find_window ?bd (to_bytes [CR, LF] @ after_crlf b cs) = Some 2"
    by (simp add: rest)
  then have e: "extract_next_part (to_bytes [CR, LF] @ after_crlf b cs) ?bd =
    (case extract_next_part (after_crlf b cs) ?bd of Ok (Some x) \<Rightarrow> Ok (Some x) | r \<Rightarrow> r)"
    using ne(1) by (auto simp: extract_next_part_def find_boundary_def find_window_at_start Let_def rest
        split: option.splits)
  show ?thesis
  proof (cases cs)
    case Nil
    have "drain ?bd (after_crlf b []) = ([], Ok (after_crlf b []))"
      using drain_after_crlf [OF b, of "[]"] by simp
    then have "extract_next_part (after_crlf b []) ?bd = Ok None" by (rule drain_rest)
    with e Nil have "extract_next_part (to_bytes [CR, LF] @ after_crlf b []) ?bd = Ok None" by simp
    with Nil show ?thesis by (simp only: drain_stuck) simp
  next
    case (Cons c cs')
    with cs e extract_after_crlf [OF b, of c cs'] process_part_section [of c]
      drain_after_crlf [OF b, of cs']
    show ?thesis by (subst drain.simps) simp
  qed
qed

end
