(* ===== verification/StoreFacts.thy ===== *)
theory StoreFacts
  imports ChunkStore WorldFacts MultipartFacts
begin

text \<open>
  Where chunks are stored and what an upload writes: paths of alphanumeric ids, the writer's
  loop over the pieces of a field, and the invariant of the storage directory under which
  every alphanumeric id can be written.
\<close>

section \<open>Paths of ids\<close>

definition store_root :: "string option \<Rightarrow> pathbuf" where
  "store_root d = components (case d of Some d \<Rightarrow> d | None \<Rightarrow> ''./upload'')"

definition stored_at :: "string option \<Rightarrow> string \<Rightarrow> pathbuf" where
  "stored_at d i =
     store_root d @
       (if length i < 2 then [Normal ''null'', Normal i]
        else [Normal [i ! 0], Normal [i ! 1], Normal i])"

lemma plain_single:
  assumes "s \<noteq> []" "list_all is_ascii_alphanumeric s"
  shows "plain_path s" "push_path base s = base @ [Normal s]"
proof -
  have no: "\<not> is_ascii_alphanumeric SLASH" "\<not> is_ascii_alphanumeric DOT"
    by (simp_all add: is_ascii_alphanumeric_def SLASH_def DOT_def)
  with assms have "SLASH \<notin> set s" "s \<noteq> [DOT]" "s \<noteq> [DOT, DOT]" by (auto simp: list_all_iff)
  then have "split_on SLASH s = [s]" "plain_name s"
    using assms(1) by (simp_all add: split_on_no_sep plain_name_def)
  then show "plain_path s" by (simp add: plain_path_def)
  from push_path_plain [OF this, of base] \<open>split_on SLASH s = [s]\<close>
  show "push_path base s = base @ [Normal s]" by simp
qed

lemma alnum_not_cont:
  assumes "is_ascii_alphanumeric c"
  shows "\<not> is_cont (of_char c)"
proof -
  have "(of_char c :: nat) < 128" using assms by (auto simp: is_ascii_alphanumeric_def Let_def)
  then have "(of_char c :: byte) < 0x80" by (rule of_char_less_128)
  then show ?thesis by (auto simp: is_cont_def dest: leD)
qed

lemma file_path_alnum:
  assumes "alnum i"
  shows "file_path d i = Ok (stored_at d i)"
proof -
  have i: "i \<noteq> []" "list_all is_ascii_alphanumeric i" using assms by (simp_all add: alnum_def)
  show ?thesis
  proof (cases "length i < 2")
    case True
    have "push_path base ''null'' = base @ [Normal ''null'']" for base
      by (rule plain_single(2)) (simp, code_simp)
    with True plain_single(2) [OF i] show ?thesis
      by (simp add: file_path_def stored_at_def store_root_def Let_def)
  next
    case False
    then obtain a b r where ab: "i = a # b # r"
      by (cases i; cases "tl i") auto
    with i have "is_ascii_alphanumeric a" "is_ascii_alphanumeric b" by simp_all
    then have one: "push_path base [a] = base @ [Normal [a]]" "push_path base [b] = base @ [Normal [b]]" for base
      by (intro plain_single(2); simp)+
    have "char_boundary i 1" "char_boundary i 2"
      using i ab alnum_not_cont by (cases r; auto simp: char_boundary_def)+
    with False ab one plain_single(2) [OF i] show ?thesis
      by (simp add: file_path_def stored_at_def store_root_def Let_def)
  qed
qed

lemma last_stored_at [simp]: "last (stored_at d i) = Normal i"
  by (simp add: stored_at_def)

lemma stored_at_ne [simp]: "stored_at d i \<noteq> []"
  by (simp add: stored_at_def)

lemma stored_at_inject [simp]: "stored_at d i = stored_at d j \<longleftrightarrow> i = j"
  by (metis component.inject last_stored_at)

text \<open>No stored chunk lies on the way to another.\<close>

lemma stored_at_prefix:
  assumes "prefix (stored_at d i) (stored_at d j)"
  shows "i = j"
proof -
  from assms have "prefix (if length i < 2 then [Normal ''null'', Normal i]
        else [Normal [i ! 0], Normal [i ! 1], Normal i])
      (if length j < 2 then [Normal ''null'', Normal j]
        else [Normal [j ! 0], Normal [j ! 1], Normal j])"
    by (simp add: stored_at_def)
  then show ?thesis by (simp split: if_splits)
qed

section \<open>Storing a field\<close>

lemma write_pieces_ok:
  assumes "\<And>n. \<not> write_fails x p n"
  shows "write_pieces x p bs n written True (write_file p written w) =
    write_file p (written @ concat bs) w"
proof (induction bs arbitrary: n written)
  case (Cons b bs)
  have "write_file p (written @ b) (write_file p written w) = write_file p (written @ b) w"
    by (simp add: write_file_def put_node_def)
  with Cons assms show ?case by simp
qed simp

lemma write_pieces_unlinked: "write_pieces x p bs n written False w = w"
  by (induction bs arbitrary: n written) auto

lemma create_then_write:
  assumes "writable w p"
  shows "and_then (case parent p of Some d \<Rightarrow> map_err g (create_dir_all d) | None \<Rightarrow> ret ()) (\<lambda>_.
      and_then (map_err g (create_file p)) k) w = k () (after_dirs p w)"
proof -
  have p: "p \<noteq> []" "last p \<noteq> RootDir" and m: "makeable w (butlast p)" and nd: "node_at w p \<noteq> Some Dir"
    using assms by (simp_all add: writable_def)
  obtain v where c: "create_dir_all (butlast p) w = (Ok (), v)"
    using create_dir_all_ok(1) [OF m] by (metis prod.collapse)
  have v: "snd (create_dir_all (butlast p) w) = v" using c by simp
  have par: "parent p = Some (butlast p)" using p by (simp add: parent_def)
  have "dir_at v (butlast p)" "node_at v p \<noteq> Some Dir"
    using nd not_prefix_butlast [OF p(1)] create_dir_all_ok(2) [OF m] unfolding v
    by (auto simp: dir_at_def)
  moreover have "clock v = clock w"
    using files_only_clock [OF keepsD [OF keeps_create_dir_all]] v by blast
  ultimately have "create_file p v = (Ok (), after_dirs p w)"
    using par by (simp add: create_file_def after_dirs_def v)
  with c par show ?thesis by (simp add: and_then_def map_err_def)
qed

lemma after_dirs_write: "write_file p [] (after_dirs p w) = after_dirs p w" if "writable w p"
proof -
  have "clock (after_dirs p w) = clock w"
    using after_dirs_facts(1) [OF that] by (rule files_only_clock)
  then show ?thesis by (simp add: write_file_def after_dirs_def put_node_def)
qed

lemma store_field_ok:
  assumes name: "field_name f = Some i" "alnum i" and complete: "field_complete f"
    and ok: "\<And>n. \<not> write_fails x (stored_at (upload_dir x) i) n"
    and wr: "writable w (stored_at (upload_dir x) i)"
  shows "store_field x f w = (Ok (), write_file (stored_at (upload_dir x) i) (concat (field_pieces f))
    (after_dirs (stored_at (upload_dir x) i) w))"
proof -
  let ?p = "stored_at (upload_dir x) i"
  have "write_pieces x ?p (field_pieces f) 0 [] True (after_dirs ?p w) =
      write_file ?p (concat (field_pieces f)) (after_dirs ?p w)"
    using write_pieces_ok [OF ok, of "field_pieces f" 0 "[]" "after_dirs ?p w"]
    by (simp add: after_dirs_write [OF wr])
  moreover have "i \<noteq> []" using name(2) by (simp add: alnum_def)
  ultimately show ?thesis
    using name(1) complete
    by (simp add: store_field_def file_path_alnum [OF name(2)] lift_res_def
        create_then_write [OF wr] and_then_Pair and_then_def [of "\<lambda>s. (Ok ?p, s)"])
qed

section \<open>The storage directory\<close>

definition store_ok :: "string option \<Rightarrow> 'z world_scheme \<Rightarrow> bool" where
  "store_ok d w \<longleftrightarrow> wf_world w \<and> (\<forall>i. alnum i \<longrightarrow> writable w (stored_at d i))"

lemma store_ok_saved:
  assumes "store_ok d w" "alnum i"
  shows "store_ok d (write_file (stored_at d i) b (after_dirs (stored_at d i) w))"
proof -
  let ?p = "stored_at d i"
  let ?w = "write_file ?p b (after_dirs ?p w)"
  from assms have wf: "wf_world w" and wr: "writable w ?p" by (simp_all add: store_ok_def)
  have "writable ?w (stored_at d j)" if j: "alnum j" for j
  proof -
    let ?q = "stored_at d j"
    have wq: "makeable w (butlast ?q)" "last ?q \<noteq> RootDir" "node_at w ?q \<noteq> Some Dir"
      using assms(1) j by (simp_all add: store_ok_def writable_def)
    have off: "\<not> prefix ?p (butlast ?q)"
    proof
      assume pre: "prefix ?p (butlast ?q)"
      then have "prefix ?p ?q" by (metis prefixeq_butlast prefix_order.trans)
      with pre not_prefix_butlast [of ?q] show False by (auto dest!: stored_at_prefix)
    qed
    have "node_at ?w r = None \<or> node_at ?w r = Some Dir" if "prefix r (butlast ?q)" "r \<noteq> []" for r
      using that off wq(1) unfolding saved_node [OF wr] makeable_def by auto
    moreover have "node_at ?w ?q \<noteq> Some Dir"
    proof -
      have "\<not> prefix ?q (butlast ?p)" if "?q \<noteq> ?p"
      proof
        assume "prefix ?q (butlast ?p)"
        then have "prefix ?q ?p" by (metis prefixeq_butlast prefix_order.trans)
        with that show False by (auto dest!: stored_at_prefix)
      qed
      with wq(3) show ?thesis unfolding saved_node [OF wr] by auto
    qed
    ultimately show ?thesis using wq(2) by (simp add: writable_def makeable_def)
  qed
  with wf_saved [OF wf wr] show ?thesis by (simp add: store_ok_def)
qed

text \<open>A batch of good fields: each is stored, later ones overwrite earlier ones.\<close>

definition good_field :: "store_env \<Rightarrow> field \<Rightarrow> bool" where
  "good_field x f \<longleftrightarrow> (\<exists>i. field_name f = Some i \<and> alnum i \<and>
     (\<forall>n. \<not> write_fails x (stored_at (upload_dir x) i) n)) \<and> field_complete f"

definition uploaded :: "field list \<Rightarrow> string \<Rightarrow> bytes option" where
  "uploaded fs = map_of (rev (map (\<lambda>f. (the (field_name f), concat (field_pieces f))) fs))"

lemma stored_batch:
  assumes "store_ok (upload_dir x) w" "\<forall>f \<in> set fs. good_field x f"
  shows "\<exists>w'. for_each (store_field x) fs w = (Ok (), w') \<and> store_ok (upload_dir x) w' \<and>
    (\<forall>i. content_at w' (stored_at (upload_dir x) i) =
      (case uploaded fs i of Some b \<Rightarrow> Some b | None \<Rightarrow> content_at w (stored_at (upload_dir x) i))) \<and>
    (\<forall>i. node_at w (stored_at (upload_dir x) i) \<noteq> None \<longrightarrow>
      node_at w' (stored_at (upload_dir x) i) \<noteq> None) \<and>
    files_only w w'"
  using assms
proof (induction fs arbitrary: w)
  case Nil
  then show ?case by (simp add: ret_def uploaded_def)
next
  case (Cons f fs)
  let ?d = "upload_dir x"
  obtain j where j: "field_name f = Some j" "alnum j" "\<And>n. \<not> write_fails x (stored_at ?d j) n"
    and c: "field_complete f"
    using Cons.prems(2) by (auto simp: good_field_def)
  let ?w = "write_file (stored_at ?d j) (concat (field_pieces f)) (after_dirs (stored_at ?d j) w)"
  have wr: "writable w (stored_at ?d j)" using Cons.prems(1) j(2) by (simp add: store_ok_def)
  have step: "store_field x f w = (Ok (), ?w)" by (rule store_field_ok [OF j(1,2) c j(3) wr])
  have "\<forall>g \<in> set fs. good_field x g" using Cons.prems(2) by simp
  from Cons.IH [OF store_ok_saved [OF Cons.prems(1) j(2)] this]
  obtain w' where w': "for_each (store_field x) fs ?w = (Ok (), w')" "store_ok ?d w'"
    "\<forall>i. content_at w' (stored_at ?d i) =
      (case uploaded fs i of Some b \<Rightarrow> Some b | None \<Rightarrow> content_at ?w (stored_at ?d i))"
    "\<forall>i. node_at ?w (stored_at ?d i) \<noteq> None \<longrightarrow> node_at w' (stored_at ?d i) \<noteq> None"
    "files_only ?w w'" by blast
  have "content_at w' (stored_at ?d i) = (case uploaded (f # fs) i of Some b \<Rightarrow> Some b
      | None \<Rightarrow> content_at w (stored_at ?d i))" for i
    using w'(3) saved_content [OF wr] j(1)
    by (auto simp: uploaded_def map_add_def split: option.splits)
  moreover have "node_at w' (stored_at ?d i) \<noteq> None" if "node_at w (stored_at ?d i) \<noteq> None" for i
    using w'(4) [unfolded saved_node [OF wr]] that by auto
  moreover have "files_only w w'"
    using after_dirs_facts(1) [OF wr] files_only_write w'(5) by (meson files_only_trans)
  ultimately show ?case using w'(1,2) step by (auto simp: and_then_Ok_eq)
qed

end
