(* ===== verification/Service.thy ===== *)
theory Service
  imports SyncerFacts StoreFacts
begin

text \<open>
  What the syncer needs of a server, as an interface over the operations of the HTTP client
  (\<open>sync_service\<close>): a store of chunks that only uploads extend, a current record for each
  path that only commits change, listings and downloads that show them. Inside it: an upload
  pass against any such server, and why two of them suffice.
\<close>

section \<open>What a client commits\<close>

text \<open>Reads that fill the buffer, so that a binary file is always cut the same way.\<close>

definition steady :: "externals \<Rightarrow> string \<Rightarrow> bool" where
  "steady x p \<longleftrightarrow> is_text (components p) \<or> (\<forall>n. BINARY_CHUNK_SIZE \<le> read_size x n)"

lemma steady_chunks:
  assumes "steady x p"
  shows "chunks_of x t p b = chunks_of x 0 p b"
proof (cases "is_text (components p)")
  case False
  with assms have read: "bytes_read x t k = bytes_read x 0 k" for t k
  proof -
    have "min (read_size x m) (min BINARY_CHUNK_SIZE k) = min BINARY_CHUNK_SIZE k" for m
      using assms False by (intro min_absorb2) (auto simp: steady_def min.coboundedI1)
    then show ?thesis by (simp add: bytes_read_def)
  qed
  have "binary_chunks x t b = binary_chunks x u b" for t u
  proof (induction "length b" arbitrary: b t u rule: less_induct)
    case less
    show ?case
    proof (cases "b = []")
      case False
      then have "length (drop (bytes_read x 0 (length b)) b) < length b" by simp
      from less.hyps [OF this] have "binary_chunks x (Suc t) (drop (bytes_read x 0 (length b)) b) =
          binary_chunks x (Suc u) (drop (bytes_read x 0 (length b)) b)" .
      then show ?thesis
        unfolding binary_chunks_step [OF False, of x t] binary_chunks_step [OF False, of x u]
          read [of t] read [of u] by simp
    qed simp
  qed
  with False show ?thesis by (simp add: chunks_of_def)
qed (simp add: chunks_of_def)

text \<open>The chunks of a row's file, and the ids its commit names.\<close>

definition chunk_list :: "externals \<Rightarrow> 'z client_scheme \<Rightarrow> file_record \<Rightarrow> bytes list" where
  "chunk_list x c f =
     (if deleted f then [] else chunks_of x 0 (path f) (the (content_at c (full_path c (path f)))))"

definition id_list :: "externals \<Rightarrow> 'z client_scheme \<Rightarrow> file_record \<Rightarrow> string list" where
  "id_list x c f =
     (if deleted f then [[]] else map (chunk_id x (hash_size_of (path f))) (chunk_list x c f))"

definition commit_ids :: "externals \<Rightarrow> 'z client_scheme \<Rightarrow> file_record \<Rightarrow> string" where
  "commit_ids x c f = join_with [COMMA] (id_list x c f)"

definition needs :: "externals \<Rightarrow> 'z client_scheme \<Rightarrow> file_record \<Rightarrow> string set" where
  "needs x c f = set (split_on COMMA (commit_ids x c f)) - {[]}"

definition uploadable :: "externals \<Rightarrow> 'z client_scheme \<Rightarrow> file_record \<Rightarrow> bool" where
  "uploadable x c f \<longleftrightarrow> deleted f \<or>
     (listed (path f) \<and> steady x (path f) \<and> content_at c (full_path c (path f)) \<noteq> None)"

lemma tree_kept_same:
  assumes "tree_kept c c'"
  shows "chunk_list x c' = chunk_list x c" "id_list x c' = id_list x c"
    "commit_ids x c' = commit_ids x c" "needs x c' = needs x c" "uploadable x c' = uploadable x c"
proof -
  have "content_at c' p = content_at c p" "full_path c' q = full_path c q" for p q
    using tree_kept_node [OF assms] by (simp_all add: content_at_def)
  then show "chunk_list x c' = chunk_list x c" "uploadable x c' = uploadable x c"
    by (simp_all add: chunk_list_def uploadable_def fun_eq_iff)
  then show "id_list x c' = id_list x c" "commit_ids x c' = commit_ids x c" "needs x c' = needs x c"
    by (simp_all add: id_list_def commit_ids_def needs_def fun_eq_iff)
qed

lemma chunk_id_is_alnum: "digest_ok x \<Longrightarrow> alnum (chunk_id x (hash_size_of p) d)"
  using chunk_id_alnum [of x "hash_size_of p" d] length_chunk_id [of x "hash_size_of p" d]
    hash_size_pos [of p]
  by (auto simp: alnum_def list_all_iff)

lemma split_commit_ids:
  assumes "digest_ok x"
  shows "split_on COMMA (commit_ids x c f) = (if id_list x c f = [] then [[]] else id_list x c f)"
    and "i \<in> set (split_on COMMA (commit_ids x c f)) \<Longrightarrow> i = [] \<or> alnum i"
proof -
  have al: "i = [] \<or> alnum i" if "i \<in> set (id_list x c f)" for i
    using that chunk_id_is_alnum [OF assms] by (auto simp: id_list_def split: if_splits)
  moreover have "\<not> is_ascii_alphanumeric COMMA"
    by (simp add: is_ascii_alphanumeric_def COMMA_def)
  ultimately have "\<forall>i \<in> set (id_list x c f). COMMA \<notin> set i"
    by (fastforce simp: alnum_def list_all_iff)
  then show eq: "split_on COMMA (commit_ids x c f) = (if id_list x c f = [] then [[]] else id_list x c f)"
    unfolding commit_ids_def by (auto simp: split_on_join)
  show "i \<in> set (split_on COMMA (commit_ids x c f)) \<Longrightarrow> i = [] \<or> alnum i"
    using al eq by (auto split: if_splits)
qed

lemma needs_eq:
  assumes "digest_ok x"
  shows "needs x c f = chunk_id x (hash_size_of (path f)) ` set (chunk_list x c f)"
proof -
  have "chunk_id x (hash_size_of (path f)) d \<noteq> []" for d
    using chunk_id_is_alnum [OF assms] by (metis alnum_def)
  then show ?thesis
    unfolding needs_def split_commit_ids [OF assms]
    by (auto simp: id_list_def chunk_list_def)
qed

text \<open>With nothing evicted, hashing a file leaves all its chunks in the cache.\<close>

lemma hashify_caches:
  assumes "digest_ok x" "no_eviction x = x" "uploadable x c f" "\<not> deleted f"
  shows "\<exists>c1. hashify x (path f) c = (Ok (id_list x c f), c1) \<and> cache_only c c1 \<and>
    (\<forall>k \<in> needs x c f. check_chunk k c1)"
proof -
  from assms(3,4) obtain b where b: "listed (path f)" "steady x (path f)"
    "content_at c (full_path c (path f)) = Some b" by (auto simp: uploadable_def)
  let ?n = "hash_size_of (path f)" and ?cs = "chunks_of x 0 (path f) b"
  have run: "hashify x (path f) c =
      (Ok (map (chunk_id x ?n) ?cs), cc.store_all x (named x ?n ?cs) c)"
    using hashify_eq [OF assms(1) b(1,3)] steady_chunks [OF b(2), of _ b] by metis
  have cl: "chunk_list x c f = ?cs" using assms(4) b(3) by (simp add: chunk_list_def)
  have "check_chunk k (cc.store_all (no_eviction x) (named x ?n ?cs) c)" if "k \<in> needs x c f" for k
  proof -
    from that obtain d where "(k, d) \<in> set (named x ?n ?cs)"
      unfolding needs_eq [OF assms(1)] cl by (auto simp: named_def)
    then show ?thesis using rc.get_stored_some cc.contains_iff by metis
  qed
  then show ?thesis
    using run assms(2,4) cl by (auto simp: id_list_def)
qed

definition empty_queue :: upload_queue where
  "empty_queue = \<lparr>closed = [], current_batch = [], batch_size = 0\<rparr>"

lemma empty_queue_facts [simp]: "queue_ok empty_queue" "queued empty_queue = []" "queue_sound P empty_queue"
  by (simp_all add: empty_queue_def queue_ok_def queued_def batches_def queue_sound_def)

text \<open>The chunks a pass over some rows can send: those of their files, or of the cache.\<close>

definition known :: "externals \<Rightarrow> 'z client_scheme \<Rightarrow> file_record set \<Rightarrow> string \<Rightarrow> bytes \<Rightarrow> bool" where
  "known x c F i d \<longleftrightarrow> cache c i = Some d \<or>
     (\<exists>f \<in> F. \<not> deleted f \<and> d \<in> set (chunk_list x c f) \<and> i = chunk_id x (hash_size_of (path f)) d)"

lemma sound_known: "cc.sound (known x c F) c"
  by (auto simp: cc.sound_def known_def cache_get_def split: option.splits)

lemma covers_known:
  assumes "f \<in> F" "uploadable x c f" "\<not> deleted f"
  shows "covers (known x c F) x c (path f)"
  unfolding covers_def known_def
proof (intro allI impI disjI2 bexI [OF _ assms(1)] conjI)
  show "d \<in> set (chunk_list x c f)"
    if "content_at c (full_path c (path f)) = Some b" "d \<in> set (chunks_of x t (path f) b)" for b t d
    using that assms(2,3) steady_chunks [of x "path f" t b] by (auto simp: uploadable_def chunk_list_def)
qed (use assms(3) in simp_all)

text \<open>The batches of a pass are within what \<open>fits\<close> allows.\<close>

definition batches_fit ::
    "('srv sync_env \<Rightarrow> string \<Rightarrow> (string \<times> bytes) list \<Rightarrow> bool) \<Rightarrow>
     'srv sync_env \<Rightarrow> 'z client_scheme \<Rightarrow> 'srv \<Rightarrow> bool" where
  "batches_fit fits e c v =
     (case fst (upload_files e (updated_locally (namespace e) (records c)) empty_queue True (c, v)) of
        Ok (q, b) \<Rightarrow>
          list_all (\<lambda>n. batches q ! n \<noteq> [] \<longrightarrow> fits e (batch_uuid e n) (batches q ! n))
            [0..<length (batches q)]
      | _ \<Rightarrow> True)"

text \<open>What \<open>run_upload_once\<close> does after the index: a pass, and one more if needed.\<close>

definition upload_passes :: "'srv sync_env \<Rightarrow> ('z, 'srv, unit) syncing" where
  "upload_passes e =
     and_then (check_upload_once e) (\<lambda>all_commited.
       if all_commited then ret () else and_then (check_upload_once e) (\<lambda>_. ret ()))"

lemma check_upload_once_eq:
  "check_upload_once e (c, v) =
     and_then (upload_files e (updated_locally (namespace e) (records c)) empty_queue True)
       (\<lambda>(q, all_commited). and_then (send_batches e 0 (batches q)) (\<lambda>_. ret all_commited)) (c, v)"
  by (simp add: check_upload_once_def empty_queue_def Let_def)

section \<open>Rows that were committed\<close>

lemma view_committed_other:
  assumes "registry_view ns rows p = Some x" "\<forall>r \<in> fst ` set acc. record_id r \<noteq> record_id x"
  shows "registry_view ns (committed acc rows) p = Some x"
  using assms
proof (induction acc arbitrary: rows)
  case (Cons a acc)
  obtain r j where a: "a = (r, j)" by (cases a)
  have "registry_view ns (update_jid r j rows) p = Some x"
    using Cons.prems a by (auto simp: view_update_jid)
  with Cons a show ?case by simp
qed simp

lemma view_committed:
  assumes "wf_table rows" "distinct (map fst acc)" "fst ` set acc \<subseteq> set (updated_locally ns rows)"
    "(f, j) \<in> set acc"
  shows "registry_view ns (committed acc rows) (path f) = Some (f\<lparr>jid := Some j\<rparr>)"
  using assms
proof (induction acc arbitrary: rows)
  case (Cons a acc)
  obtain r i where a: "a = (r, i)" by (cases a)
  from Cons.prems(3) a have r: "r \<in> set (updated_locally ns rows)" by simp
  note one = updated_locally_update_jid [OF Cons.prems(1) r, of i]
  have sub: "fst ` set acc \<subseteq> set (updated_locally ns (update_jid r i rows))"
    using one Cons.prems(2,3) a by auto
  have in_rows: "q \<in> set rows" if "q \<in> set (updated_locally ns rows)" for q
    using that set_updated_locally [OF Cons.prems(1)] view_SomeD(1) by blast
  show ?case
  proof (cases "(f, j) = a")
    case True
    have "record_id q \<noteq> record_id (f\<lparr>jid := Some j\<rparr>)" if q: "q \<in> fst ` set acc" for q
    proof
      assume "record_id q = record_id (f\<lparr>jid := Some j\<rparr>)"
      then have "record_id q = record_id r" using True a by simp
      moreover have "q \<in> set rows" "r \<in> set rows"
        using in_rows r q Cons.prems(3) a by auto
      ultimately have "q = r" using ids_sorted_inj [OF Cons.prems(1)] by metis
      with q Cons.prems(2) a show False by auto
    qed
    with one True a view_committed_other show ?thesis by auto
  next
    case False
    with Cons.prems(4) have "(f, j) \<in> set acc" by simp
    from Cons.IH [OF _ _ sub this] one Cons.prems(2) a show ?thesis by simp
  qed
qed simp

section \<open>The interface\<close>

text \<open>
  \<open>ok\<close> is whatever the server keeps invariant; \<open>stored_chunk\<close> and \<open>current_rec\<close> (id, deleted
  flag and chunk ids of a path) are what it shows; the \<open>fits\<close> predicates are the limits it
  puts on requests.
\<close>

locale sync_service =
  fixes ok :: "'srv sync_env \<Rightarrow> 'srv \<Rightarrow> bool"
    and stored_chunk :: "'srv sync_env \<Rightarrow> 'srv \<Rightarrow> string \<Rightarrow> bytes option"
    and current_rec :: "'srv sync_env \<Rightarrow> 'srv \<Rightarrow> string \<Rightarrow> (int \<times> bool \<times> string) option"
    and fits_commit :: "'srv sync_env \<Rightarrow> string \<Rightarrow> bool \<Rightarrow> string \<Rightarrow> bool"
    and fits_batch :: "'srv sync_env \<Rightarrow> string \<Rightarrow> (string \<times> bytes) list \<Rightarrow> bool"
    and fits_download :: "'srv sync_env \<Rightarrow> 'srv \<Rightarrow> string list \<Rightarrow> bool"
  assumes commit_law: "ok e s \<Longrightarrow> fits_commit e p del ids \<Longrightarrow>
      \<forall>i \<in> set (split_on COMMA ids). i = [] \<or> alnum i \<Longrightarrow>
      if \<forall>i \<in> set (split_on COMMA ids) - {[]}. stored_chunk e s i \<noteq> None
      then \<exists>j s'. commit (http e) (remote_client e) p del ids s = (Ok (Success j), s') \<and> ok e s' \<and>
        stored_chunk e s' = stored_chunk e s \<and>
        current_rec e s' = (current_rec e s)(p \<mapsto> (j, del, ids))
      else commit (http e) (remote_client e) p del ids s =
        (Ok (NeedChunks (join_with [COMMA]
          (filter (\<lambda>i. i \<noteq> [] \<and> stored_chunk e s i = None) (split_on COMMA ids)))), s)"
    and upload_law: "ok e s \<Longrightarrow> fits_batch e u b \<Longrightarrow> \<forall>(k, d) \<in> set b. alnum k \<Longrightarrow>
      \<exists>s'. upload_batch (http e) (remote_client e) u b s = (Ok (), s') \<and> ok e s' \<and>
        current_rec e s' = current_rec e s \<and>
        (\<forall>i. stored_chunk e s' i = (case map_of (rev b) i of Some d \<Rightarrow> Some d | None \<Rightarrow> stored_chunk e s i))"
    and list_law: "ok e s \<Longrightarrow>
      \<exists>ds. list_records (http e) (remote_client e) after s = (Ok ds, s) \<and> distinct (map rr_path ds) \<and>
        set ds = {d. current_rec e s (rr_path d) = Some (rr_id d, rr_deleted d, rr_chunk_ids d) \<and> after < rr_id d}"
    and download_law: "ok e s \<Longrightarrow> fits_download e s ks \<Longrightarrow>
      \<forall>k \<in> set ks. alnum k \<and> stored_chunk e s k \<noteq> None \<Longrightarrow>
      download_batch (http e) (remote_client e) ks s =
        (Ok (map (\<lambda>k. (k, the (stored_chunk e s k))) ks, Ok ()), s)"
    and id_law: "ok e s \<Longrightarrow> current_rec e s p = Some (j, del, ids) \<Longrightarrow> 0 < j"
begin

text \<open>
  One file: it is accepted exactly when the server has all its chunks, and then becomes the
  current record of its path; else its missing chunks are queued.
\<close>

lemma upload_file_step:
  assumes "ok e v" "digest_ok (ext e)" "no_eviction (ext e) = ext e" "uploadable (ext e) c f"
    "fits_commit e (path f) (deleted f) (commit_ids (ext e) c f)" "queue_ok q"
  obtains (accepted) c' v' j where "upload_file e f q (c, v) = (Ok (q, True), (c', v'))"
      "\<forall>k \<in> needs (ext e) c f. stored_chunk e v k \<noteq> None"
      "tree_kept c c'" "records c' = update_jid f j (records c)" "ok e v'"
      "stored_chunk e v' = stored_chunk e v"
      "current_rec e v' = (current_rec e v)(path f \<mapsto> (j, deleted f, commit_ids (ext e) c f))"
  | (refused) q' c' where "upload_file e f q (c, v) = (Ok (q', False), (c', v))"
      "\<not> (\<forall>k \<in> needs (ext e) c f. stored_chunk e v k \<noteq> None)"
      "tree_kept c c'" "records c' = records c" "queue_ok q'"
      "fst ` set (queued q') = fst ` set (queued q) \<union> {k \<in> needs (ext e) c f. stored_chunk e v k = None}"
proof -
  let ?ids = "commit_ids (ext e) c f"
  let ?missing = "filter (\<lambda>i. i \<noteq> [] \<and> stored_chunk e v i = None) (split_on COMMA ?ids)"
  obtain c1 where run: "(if \<not> deleted f then on_client (hashify (ext e) (path f)) else ret [[]]) (c, v) =
      (Ok (id_list (ext e) c f), (c1, v))" and co: "cache_only c c1"
    and cached: "\<forall>k \<in> needs (ext e) c f. check_chunk k c1"
  proof (cases "deleted f")
    case True
    then have "(if \<not> deleted f then on_client (hashify (ext e) (path f)) else ret [[]]) (c, v) =
        (Ok (id_list (ext e) c f), (c, v))" by (simp add: ret_apply id_list_def)
    moreover have "needs (ext e) c f = {}"
      using True by (simp add: needs_eq [OF assms(2)] chunk_list_def)
    ultimately show ?thesis using that by simp
  next
    case False
    with hashify_caches [OF assms(2-4)] obtain c1 where
      c1: "hashify (ext e) (path f) c = (Ok (id_list (ext e) c f), c1)" "cache_only c c1"
        "\<forall>k \<in> needs (ext e) c f. check_chunk k c1" by blast
    with False that show ?thesis by (simp add: on_client_def)
  qed
  have c1: "tree_kept c c1" "records c1 = records c" using tree_kept_cache_only [OF co] by auto
  have ids: "\<forall>i \<in> set (split_on COMMA ?ids). i = [] \<or> alnum i"
    using split_commit_ids(2) [OF assms(2)] by blast
  note law = commit_law [OF assms(1,5) ids, folded needs_def]
  show thesis
  proof (cases "\<forall>k \<in> needs (ext e) c f. stored_chunk e v k \<noteq> None")
    case True
    with law obtain j v' where com:
      "commit (http e) (remote_client e) (path f) (deleted f) ?ids v = (Ok (Success j), v')"
      "ok e v'" "stored_chunk e v' = stored_chunk e v"
      "current_rec e v' = (current_rec e v)(path f \<mapsto> (j, deleted f, ?ids))" by auto
    let ?c = "c1\<lparr>records := update_jid f j (records c1)\<rparr>"
    have "upload_file e f q (c, v) = (Ok (q, True), (?c, v'))"
      using run com(1) by (simp add: upload_file_def and_then_def on_server_def on_client_def
          set_records_apply ret_def commit_ids_def)
    moreover have "tree_kept c ?c" using c1(1) tree_kept_records by (rule tree_kept_trans)
    ultimately show ?thesis using accepted True com(2-4) c1(2) by simp
  next
    case False
    then have mem: "set ?missing = {k \<in> needs (ext e) c f. stored_chunk e v k = None}"
      by (auto simp: needs_def)
    have ne: "?missing \<noteq> []"
    proof
      assume "?missing = []"
      then have "set ?missing = {}" by (simp only: set_empty)
      with mem have "{k \<in> needs (ext e) c f. stored_chunk e v k = None} = {}" by metis
      with False show False by auto
    qed
    have "\<forall>k \<in> set ?missing. COMMA \<notin> set k" by (auto dest: split_on_pieces_no_sep)
    then have split: "split_on COMMA (join_with [COMMA] ?missing) = ?missing"
      using ne by (intro split_on_join)
    have "\<forall>k \<in> set ?missing. check_chunk k c1" using mem cached by blast
    with assms(6) obtain q' ds where q': "queue_chunks ?missing q c1 = (Ok q', c1)" "queue_ok q'"
      "answers c1 ?missing ds" "queued q' = queued q @ zip ?missing ds"
      using queue_chunks_all by blast
    have com: "commit (http e) (remote_client e) (path f) (deleted f) ?ids v =
        (Ok (NeedChunks (join_with [COMMA] ?missing)), v)" using law False by simp
    have "upload_file e f q (c, v) = (Ok (q', False), (c1, v))"
      using run com q'(1) split by (simp add: upload_file_def and_then_def on_server_def on_client_def
          ret_def commit_ids_def)
    moreover have "length ?missing = length ds"
      using q'(3) unfolding answers_def by (rule list_all2_lengthD)
    then have "set (map fst (zip ?missing ds)) = set ?missing"
      by (intro arg_cong [where f = set] map_fst_zip)
    then have "fst ` set (queued q') = fst ` set (queued q) \<union> {k \<in> needs (ext e) c f. stored_chunk e v k = None}"
      unfolding q'(4) set_append image_Un mem list.set_map by (simp only:)
    ultimately show ?thesis using False c1 q'(2) by (intro refused)
  qed
qed

lemma upload_files_step:
  assumes "ok e v" "digest_ok (ext e)" "no_eviction (ext e) = ext e" "queue_ok q"
    "\<forall>f \<in> set fs. uploadable (ext e) c f \<and> fits_commit e (path f) (deleted f) (commit_ids (ext e) c f)"
    "distinct (map path fs)"
  shows "\<exists>q' b c' v' acc. upload_files e fs q ac (c, v) = (Ok (q', b), (c', v')) \<and>
    tree_kept c c' \<and> ok e v' \<and> stored_chunk e v' = stored_chunk e v \<and> queue_ok q' \<and>
    fst ` set (queued q') = fst ` set (queued q) \<union>
      {k \<in> \<Union> (needs (ext e) c ` set fs). stored_chunk e v k = None} \<and>
    records c' = committed acc (records c) \<and>
    map fst acc = filter (\<lambda>f. \<forall>k \<in> needs (ext e) c f. stored_chunk e v k \<noteq> None) fs \<and>
    (\<forall>(f, j) \<in> set acc. current_rec e v' (path f) = Some (j, deleted f, commit_ids (ext e) c f)) \<and>
    (\<forall>p. p \<notin> path ` fst ` set acc \<longrightarrow> current_rec e v' p = current_rec e v p)"
  using assms(1,4-)
proof (induction fs arbitrary: q ac c v)
  case Nil
  then show ?case
    by (intro exI [of _ q] exI [of _ ac] exI [of _ c] exI [of _ v] exI [of _ "[]"])
       (simp add: ret_apply)
next
  case (Cons f fs)
  have f: "uploadable (ext e) c f" "fits_commit e (path f) (deleted f) (commit_ids (ext e) c f)"
    using Cons.prems(3) by auto
  show ?case
  proof (cases rule: upload_file_step [OF Cons.prems(1) assms(2,3) f Cons.prems(2)])
    case (1 c1 v1 j)
    note same = tree_kept_same [OF 1(3)]
    have "\<forall>f \<in> set fs. uploadable (ext e) c1 f \<and>
        fits_commit e (path f) (deleted f) (commit_ids (ext e) c1 f)"
      using Cons.prems(3) same by simp
    from Cons.IH [OF 1(5) Cons.prems(2) this, of ac] Cons.prems(4) obtain q' b c' v' acc where
      ih: "upload_files e fs q ac (c1, v1) = (Ok (q', b), (c', v'))"
      "tree_kept c1 c'" "ok e v'" "stored_chunk e v' = stored_chunk e v" "queue_ok q'"
      "fst ` set (queued q') = fst ` set (queued q) \<union>
        {k \<in> \<Union> (needs (ext e) c ` set fs). stored_chunk e v k = None}"
      "records c' = committed acc (update_jid f j (records c))"
      "map fst acc = filter (\<lambda>f. \<forall>k \<in> needs (ext e) c f. stored_chunk e v k \<noteq> None) fs"
      "\<forall>(f, j) \<in> set acc. current_rec e v' (path f) = Some (j, deleted f, commit_ids (ext e) c f)"
      "\<forall>p. p \<notin> path ` fst ` set acc \<longrightarrow> current_rec e v' p = current_rec e v1 p"
      unfolding same 1(4,6) by auto
    have run: "upload_files e (f # fs) q ac (c, v) = (Ok (q', b), (c', v'))"
      using 1(1) ih(1) by (simp add: upload_files_Cons and_then_def)
    have "set (map fst acc) \<subseteq> set fs" unfolding ih(8) by auto
    then have new: "path f \<notin> path ` fst ` set acc" using Cons.prems(4) by auto
    have tk: "tree_kept c c'" using 1(3) ih(2) by (rule tree_kept_trans)
    have queue: "fst ` set (queued q') = fst ` set (queued q) \<union>
        {k \<in> \<Union> (needs (ext e) c ` set (f # fs)). stored_chunk e v k = None}"
      unfolding ih(6) using 1(2) by auto
    have recs: "records c' = committed ((f, j) # acc) (records c)" using ih(7) by simp
    have accs: "map fst ((f, j) # acc) =
        filter (\<lambda>f. \<forall>k \<in> needs (ext e) c f. stored_chunk e v k \<noteq> None) (f # fs)"
      using ih(8) 1(2) by simp
    have cur: "\<forall>(g, i) \<in> set ((f, j) # acc). current_rec e v' (path g) = Some (i, deleted g, commit_ids (ext e) c g)"
      using ih(9,10) new 1(7) by auto
    have other: "\<forall>p. p \<notin> path ` fst ` set ((f, j) # acc) \<longrightarrow> current_rec e v' p = current_rec e v p"
      using ih(10) 1(7) by auto
    show ?thesis using run tk ih(3-5) queue recs accs cur other by blast
  next
    case (2 q1 c1)
    note same = tree_kept_same [OF 2(3)]
    have "\<forall>f \<in> set fs. uploadable (ext e) c1 f \<and>
        fits_commit e (path f) (deleted f) (commit_ids (ext e) c1 f)"
      using Cons.prems(3) same by simp
    from Cons.IH [OF Cons.prems(1) 2(5) this, of False] Cons.prems(4) obtain q' b c' v' acc where
      ih: "upload_files e fs q1 False (c1, v) = (Ok (q', b), (c', v'))"
      "tree_kept c1 c'" "ok e v'" "stored_chunk e v' = stored_chunk e v" "queue_ok q'"
      "fst ` set (queued q') = fst ` set (queued q1) \<union>
        {k \<in> \<Union> (needs (ext e) c ` set fs). stored_chunk e v k = None}"
      "records c' = committed acc (records c)"
      "map fst acc = filter (\<lambda>f. \<forall>k \<in> needs (ext e) c f. stored_chunk e v k \<noteq> None) fs"
      "\<forall>(f, j) \<in> set acc. current_rec e v' (path f) = Some (j, deleted f, commit_ids (ext e) c f)"
      "\<forall>p. p \<notin> path ` fst ` set acc \<longrightarrow> current_rec e v' p = current_rec e v p"
      unfolding same 2(4) by auto
    have run: "upload_files e (f # fs) q ac (c, v) = (Ok (q', b), (c', v'))"
      using 2(1) ih(1) by (simp add: upload_files_Cons and_then_def)
    have tk: "tree_kept c c'" using 2(3) ih(2) by (rule tree_kept_trans)
    have queue: "fst ` set (queued q') = fst ` set (queued q) \<union>
        {k \<in> \<Union> (needs (ext e) c ` set (f # fs)). stored_chunk e v k = None}"
      unfolding ih(6) 2(6) by auto
    have accs: "map fst acc =
        filter (\<lambda>f. \<forall>k \<in> needs (ext e) c f. stored_chunk e v k \<noteq> None) (f # fs)"
      using ih(8) 2(2) by simp
    show ?thesis using run tk ih(3-5,7,9,10) queue accs by blast
  qed
qed

lemma send_batches_step:
  assumes "ok e v" "\<forall>n < length bs. bs ! n \<noteq> [] \<longrightarrow> fits_batch e (batch_uuid e (m + n)) (bs ! n)"
    "\<forall>(k, d) \<in> set (concat bs). alnum k"
  shows "\<exists>v'. send_batches e m bs (c, v) = (Ok (), (c, v')) \<and> ok e v' \<and>
    current_rec e v' = current_rec e v \<and>
    (\<forall>i. stored_chunk e v' i =
      (case map_of (rev (concat bs)) i of Some d \<Rightarrow> Some d | None \<Rightarrow> stored_chunk e v i))"
  using assms
proof (induction bs arbitrary: m v)
  case Nil
  then show ?case by (simp add: ret_apply)
next
  case (Cons b bs)
  obtain v1 where v1: "(if b \<noteq> [] then on_server (upload_batch (http e) (remote_client e) (batch_uuid e m) b)
      else ret ()) (c, v) = (Ok (), (c, v1))" "ok e v1" "current_rec e v1 = current_rec e v"
    "\<forall>i. stored_chunk e v1 i = (case map_of (rev b) i of Some d \<Rightarrow> Some d | None \<Rightarrow> stored_chunk e v i)"
  proof (cases "b = []")
    case True
    with Cons.prems(1) that show ?thesis by (simp add: ret_apply)
  next
    case False
    with Cons.prems(2) have "fits_batch e (batch_uuid e m) b" by fastforce
    from upload_law [OF Cons.prems(1) this] Cons.prems(3) False that show ?thesis
      by (auto simp: on_server_def)
  qed
  have "\<forall>n < length bs. bs ! n \<noteq> [] \<longrightarrow> fits_batch e (batch_uuid e (Suc m + n)) (bs ! n)"
    using Cons.prems(2) by (metis Suc_less_eq add_Suc add_Suc_right length_Cons nth_Cons_Suc)
  from Cons.IH [OF v1(2) this] Cons.prems(3) obtain v' where
    v': "send_batches e (Suc m) bs (c, v1) = (Ok (), (c, v'))" "ok e v'"
    "current_rec e v' = current_rec e v1"
    "\<forall>i. stored_chunk e v' i =
      (case map_of (rev (concat bs)) i of Some d \<Rightarrow> Some d | None \<Rightarrow> stored_chunk e v1 i)" by auto
  have "send_batches e m (b # bs) (c, v) = (Ok (), (c, v'))"
    using v1(1) v'(1) by (simp add: and_then_Ok_eq)
  moreover have "stored_chunk e v' i =
      (case map_of (rev (concat (b # bs))) i of Some d \<Rightarrow> Some d | None \<Rightarrow> stored_chunk e v i)" for i
    using v'(4) v1(4) by (simp add: map_add_def split: option.splits)
  ultimately show ?case using v'(2,3) v1(3) by auto
qed

text \<open>
  A whole pass: what had all its chunks is accepted, the rest has them afterwards, and no
  other chunk is changed or comes under a wrong id.
\<close>

lemma upload_pass:
  assumes "ok e v" "digest_ok (ext e)" "no_eviction (ext e) = ext e" "wf_table (records c)"
    "\<forall>f \<in> set (updated_locally (namespace e) (records c)).
      uploadable (ext e) c f \<and> fits_commit e (path f) (deleted f) (commit_ids (ext e) c f)"
    "batches_fit fits_batch e c v"
  shows "\<exists>b c' v' acc. check_upload_once e (c, v) = (Ok b, (c', v')) \<and> tree_kept c c' \<and> ok e v' \<and>
    records c' = committed acc (records c) \<and>
    map fst acc = filter (\<lambda>f. \<forall>k \<in> needs (ext e) c f. stored_chunk e v k \<noteq> None)
      (updated_locally (namespace e) (records c)) \<and>
    (b \<longleftrightarrow> updated_locally (namespace e) (records c') = []) \<and>
    (\<forall>f \<in> set (updated_locally (namespace e) (records c)). \<forall>k \<in> needs (ext e) c f. stored_chunk e v' k \<noteq> None) \<and>
    (\<forall>i d. stored_chunk e v i = Some d \<and> i \<notin> \<Union> (needs (ext e) c ` set (updated_locally (namespace e) (records c)))
      \<longrightarrow> stored_chunk e v' i = Some d) \<and>
    (\<forall>i d. stored_chunk e v' i = Some d \<longrightarrow> stored_chunk e v i = Some d \<or>
      known (ext e) c (set (updated_locally (namespace e) (records c))) i d) \<and>
    ((\<forall>f \<in> set (updated_locally (namespace e) (records c)). \<forall>k \<in> needs (ext e) c f.
      stored_chunk e v k \<noteq> None) \<longrightarrow> stored_chunk e v' = stored_chunk e v) \<and>
    (\<forall>(f, j) \<in> set acc. current_rec e v' (path f) = Some (j, deleted f, commit_ids (ext e) c f)) \<and>
    (\<forall>p. p \<notin> path ` fst ` set acc \<longrightarrow> current_rec e v' p = current_rec e v p)"
proof -
  let ?todo = "updated_locally (namespace e) (records c)"
  have dp: "distinct (map path ?todo)" using assms(4) by (rule distinct_paths_updated_locally)
  from upload_files_step [OF assms(1-3) empty_queue_facts(1) assms(5) dp, of True] obtain q b c' v1 acc where
    up: "upload_files e ?todo empty_queue True (c, v) = (Ok (q, b), (c', v1))"
    "tree_kept c c'" "ok e v1" "stored_chunk e v1 = stored_chunk e v" "queue_ok q"
    "fst ` set (queued q) = {k \<in> \<Union> (needs (ext e) c ` set ?todo). stored_chunk e v k = None}"
    "records c' = committed acc (records c)"
    "map fst acc = filter (\<lambda>f. \<forall>k \<in> needs (ext e) c f. stored_chunk e v k \<noteq> None) ?todo"
    "\<forall>(f, j) \<in> set acc. current_rec e v1 (path f) = Some (j, deleted f, commit_ids (ext e) c f)"
    "\<forall>p. p \<notin> path ` fst ` set acc \<longrightarrow> current_rec e v1 p = current_rec e v p" by auto
  have fit: "\<forall>n < length (batches q). batches q ! n \<noteq> [] \<longrightarrow>
      fits_batch e (batch_uuid e (0 + n)) (batches q ! n)"
    using assms(6) up(1) by (simp add: batches_fit_def list_all_iff)
  have al: "\<forall>(k, d) \<in> set (concat (batches q)). alnum k"
  proof -
    have "alnum k" if k: "k \<in> fst ` set (queued q)" for k
    proof -
      from k obtain f where "k \<in> needs (ext e) c f" unfolding up(6) by blast
      then show ?thesis unfolding needs_eq [OF assms(2)] using chunk_id_is_alnum [OF assms(2)] by auto
    qed
    then show ?thesis unfolding queued_def by force
  qed
  from send_batches_step [OF up(3) fit al] obtain v' where
    v': "send_batches e 0 (batches q) (c', v1) = (Ok (), (c', v'))" "ok e v'"
    "current_rec e v' = current_rec e v1"
    "\<forall>i. stored_chunk e v' i = (case map_of (rev (queued q)) i of Some d \<Rightarrow> Some d | None \<Rightarrow> stored_chunk e v i)"
    unfolding queued_def up(4) by blast
  have run: "check_upload_once e (c, v) = (Ok b, (c', v'))"
    using up(1) v'(1) by (simp add: check_upload_once_eq and_then_Ok_eq ret_apply)
  have "digest_ok (ext e) \<and> wf_table (records c)" using assms(2,4) by simp
  then have left: "b \<longleftrightarrow> updated_locally (namespace e) (records c') = []"
    using upload_pass_left [OF assms(2,4) run] by simp
  have dom: "map_of (rev (queued q)) i = None \<longleftrightarrow> i \<notin> fst ` set (queued q)" for i
    by (simp add: map_of_eq_None_iff)
  have stored: "stored_chunk e v' k \<noteq> None" if "f \<in> set ?todo" "k \<in> needs (ext e) c f" for f k
  proof (cases "stored_chunk e v k")
    case None
    with that have "k \<in> fst ` set (queued q)" unfolding up(6) by auto
    with v'(4) dom [of k] show ?thesis by (auto split: option.splits)
  next
    case (Some d)
    with v'(4) show ?thesis by (auto split: option.splits)
  qed
  have kept: "stored_chunk e v' i = Some d"
    if "stored_chunk e v i = Some d" "i \<notin> \<Union> (needs (ext e) c ` set ?todo)" for i d
  proof -
    have "i \<notin> fst ` set (queued q)" using that(2) unfolding up(6) by blast
    with dom [of i] v'(4) that(1) show ?thesis by simp
  qed
  have covered: "\<forall>f \<in> set ?todo. \<not> deleted f \<longrightarrow> covers (known (ext e) c (set ?todo)) (ext e) c (path f)"
    using assms(5) covers_known by blast
  have named: "stored_chunk e v i = Some d \<or> known (ext e) c (set ?todo) i d"
    if "stored_chunk e v' i = Some d" for i d
  proof (cases "map_of (rev (queued q)) i")
    case None
    with v'(4) that show ?thesis by simp
  next
    case (Some d')
    with v'(4) that have "map_of (rev (queued q)) i = Some d" by simp
    then have mem: "(i, d) \<in> set (queued q)" by (auto dest: map_of_SomeD)
    have "i \<noteq> []" using mem al unfolding queued_def by (auto simp: alnum_def)
    moreover have "queue_sound (known (ext e) c (set ?todo)) q"
      using upload_files_sound [OF assms(2) sound_known covered up(1)] empty_queue_facts(1,3) by blast
    ultimately show ?thesis using mem unfolding queue_sound_def by fastforce
  qed
  have same: "stored_chunk e v' = stored_chunk e v"
    if "\<forall>f \<in> set ?todo. \<forall>k \<in> needs (ext e) c f. stored_chunk e v k \<noteq> None"
  proof -
    have "fst ` set (queued q) = {}" unfolding up(6) using that by auto
    then show ?thesis using v'(4) by (simp add: fun_eq_iff)
  qed
  have a: "\<forall>f \<in> set ?todo. \<forall>k \<in> needs (ext e) c f. stored_chunk e v' k \<noteq> None"
    using stored by blast
  have b: "\<forall>i d. stored_chunk e v i = Some d \<and> i \<notin> \<Union> (needs (ext e) c ` set ?todo)
      \<longrightarrow> stored_chunk e v' i = Some d" using kept by blast
  have c: "\<forall>i d. stored_chunk e v' i = Some d \<longrightarrow>
      stored_chunk e v i = Some d \<or> known (ext e) c (set ?todo) i d" using named by blast
  have d: "(\<forall>f \<in> set ?todo. \<forall>k \<in> needs (ext e) c f. stored_chunk e v k \<noteq> None) \<longrightarrow>
      stored_chunk e v' = stored_chunk e v" using same by blast
  show ?thesis
    by (intro exI [of _ b] exI [of _ c'] exI [of _ v'] exI [of _ acc] conjI run up(2,7,8) v'(2) left a b c d
        up(9,10) [folded v'(3)])
qed

text \<open>When the server has every chunk already, there is nothing to send.\<close>

lemma nothing_to_send:
  assumes "ok e v" "digest_ok (ext e)" "no_eviction (ext e) = ext e" "wf_table (records c)"
    "\<forall>f \<in> set (updated_locally (namespace e) (records c)).
      uploadable (ext e) c f \<and> fits_commit e (path f) (deleted f) (commit_ids (ext e) c f)"
    "\<forall>f \<in> set (updated_locally (namespace e) (records c)). \<forall>k \<in> needs (ext e) c f. stored_chunk e v k \<noteq> None"
  shows "batches_fit fits_batch e c v"
proof -
  let ?todo = "updated_locally (namespace e) (records c)"
  have dp: "distinct (map path ?todo)" using assms(4) by (rule distinct_paths_updated_locally)
  from upload_files_step [OF assms(1-3) empty_queue_facts(1) assms(5) dp, of True] obtain q b s' where
    up: "upload_files e ?todo empty_queue True (c, v) = (Ok (q, b), s')"
    and q: "fst ` set (queued q) = {k \<in> \<Union> (needs (ext e) c ` set ?todo). stored_chunk e v k = None}" by auto
  have "fst ` set (queued q) = {}" unfolding q using assms(6) by auto
  then have "\<forall>b \<in> set (batches q). b = []" by (auto simp: queued_def)
  then show ?thesis using up by (auto simp: batches_fit_def list_all_iff)
qed

text \<open>
  Two passes suffice: afterwards no local change waits, each is the server's current record of
  its path under the id the registry now has for it, and its chunks are stored.
\<close>

lemma upload_passes_sync:
  assumes "ok e v" "digest_ok (ext e)" "no_eviction (ext e) = ext e" "wf_table (records c)"
    "\<forall>f \<in> set (updated_locally (namespace e) (records c)).
      uploadable (ext e) c f \<and> fits_commit e (path f) (deleted f) (commit_ids (ext e) c f)"
    "batches_fit fits_batch e c v"
  shows "\<exists>c' v'. upload_passes e (c, v) = (Ok (), (c', v')) \<and> tree_kept c c' \<and> ok e v' \<and>
    jids_only (records c) (records c') \<and> wf_table (records c') \<and>
    updated_locally (namespace e) (records c') = [] \<and>
    (\<forall>f \<in> set (updated_locally (namespace e) (records c)). \<exists>j.
      current_rec e v' (path f) = Some (j, deleted f, commit_ids (ext e) c f) \<and>
      registry_view (namespace e) (records c') (path f) = Some (f\<lparr>jid := Some j\<rparr>) \<and>
      (\<forall>k \<in> needs (ext e) c f. stored_chunk e v' k \<noteq> None)) \<and>
    (\<forall>p. p \<notin> path ` set (updated_locally (namespace e) (records c)) \<longrightarrow>
      current_rec e v' p = current_rec e v p) \<and>
    (\<forall>i d. stored_chunk e v i = Some d \<and>
      i \<notin> \<Union> (needs (ext e) c ` set (updated_locally (namespace e) (records c)))
      \<longrightarrow> stored_chunk e v' i = Some d) \<and>
    (\<forall>i d. stored_chunk e v' i = Some d \<longrightarrow> stored_chunk e v i = Some d \<or>
      known (ext e) c (set (updated_locally (namespace e) (records c))) i d)"
proof -
  let ?ns = "namespace e" and ?x = "ext e"
  let ?todo = "updated_locally ?ns (records c)"
  let ?all = "\<Union> (needs ?x c ` set ?todo)"
  from upload_pass [OF assms(1-6)] obtain b c1 v1 acc where
    one: "check_upload_once e (c, v) = (Ok b, (c1, v1))" "tree_kept c c1" "ok e v1"
      "records c1 = committed acc (records c)"
      "map fst acc = filter (\<lambda>f. \<forall>k \<in> needs ?x c f. stored_chunk e v k \<noteq> None) ?todo"
      "b \<longleftrightarrow> updated_locally ?ns (records c1) = []"
      "\<forall>f \<in> set ?todo. \<forall>k \<in> needs ?x c f. stored_chunk e v1 k \<noteq> None"
      "\<forall>i d. stored_chunk e v i = Some d \<and> i \<notin> ?all \<longrightarrow> stored_chunk e v1 i = Some d"
      "\<forall>i d. stored_chunk e v1 i = Some d \<longrightarrow> stored_chunk e v i = Some d \<or> known ?x c (set ?todo) i d"
      "\<forall>(f, j) \<in> set acc. current_rec e v1 (path f) = Some (j, deleted f, commit_ids ?x c f)"
      "\<forall>p. p \<notin> path ` fst ` set acc \<longrightarrow> current_rec e v1 p = current_rec e v p" by blast
  have dt: "distinct ?todo"
    using distinct_paths_updated_locally [OF assms(4)] by (simp add: distinct_map)
  have inj: "inj_on path (set ?todo)"
    using distinct_paths_updated_locally [OF assms(4)] by (simp add: distinct_map)
  have da: "distinct (map fst acc)" unfolding one(5) using dt by simp
  have "set (map fst acc) \<subseteq> set ?todo" unfolding one(5) by (rule filter_is_subset)
  then have sa: "fst ` set acc \<subseteq> set ?todo" by (simp only: list.set_map)
  from updated_locally_committed [OF assms(4) da sa] one(4)
  have wf1: "wf_table (records c1)" and left: "updated_locally ?ns (records c1) =
      filter (\<lambda>r. r \<notin> fst ` set acc) ?todo" by simp_all
  have view1: "registry_view ?ns (records c1) (path f) = Some (f\<lparr>jid := Some j\<rparr>)" if "(f, j) \<in> set acc" for f j
    unfolding one(4) using view_committed [OF assms(4) da sa that] .
  show ?thesis
  proof (cases b)
    case True
    have run: "upload_passes e (c, v) = (Ok (), (c1, v1))"
      using one(1) True by (simp add: upload_passes_def and_then_def ret_def)
    have "set ?todo \<subseteq> fst ` set acc" using True one(6) left by (auto simp: filter_empty_conv)
    then have ex: "\<exists>j. (f, j) \<in> set acc" if "f \<in> set ?todo" for f using that by force
    have each: "\<forall>f \<in> set ?todo. \<exists>j. current_rec e v1 (path f) = Some (j, deleted f, commit_ids ?x c f) \<and>
      registry_view ?ns (records c1) (path f) = Some (f\<lparr>jid := Some j\<rparr>) \<and>
      (\<forall>k \<in> needs ?x c f. stored_chunk e v1 k \<noteq> None)"
      using ex view1 one(7,10) by fast
    have others: "\<forall>p. p \<notin> path ` set ?todo \<longrightarrow> current_rec e v1 p = current_rec e v p"
      using one(11) sa by blast
    have "jids_only (records c) (records c1)" unfolding one(4) by (rule jids_only_committed)
    moreover have "updated_locally ?ns (records c1) = []" using one(6) True by simp
    ultimately show ?thesis using run one(2,3,8,9) wf1 each others by (intro exI conjI)
  next
    case False
    let ?todo1 = "updated_locally ?ns (records c1)"
    note same = tree_kept_same [OF one(2)]
    have sub: "set ?todo1 \<subseteq> set ?todo" unfolding left by auto
    have ready: "\<forall>f \<in> set ?todo1. uploadable ?x c1 f \<and>
        fits_commit e (path f) (deleted f) (commit_ids ?x c1 f)"
      using assms(5) sub unfolding same by blast
    have all: "\<forall>f \<in> set ?todo1. \<forall>k \<in> needs ?x c1 f. stored_chunk e v1 k \<noteq> None"
      using one(7) sub unfolding same by blast
    from upload_pass [OF one(3) assms(2,3) wf1 ready nothing_to_send [OF one(3) assms(2,3) wf1 ready all]]
    obtain b2 c2 v2 acc2 where
      two: "check_upload_once e (c1, v1) = (Ok b2, (c2, v2))" "tree_kept c1 c2" "ok e v2"
      "records c2 = committed acc2 (records c1)"
      "map fst acc2 = filter (\<lambda>f. \<forall>k \<in> needs ?x c f. stored_chunk e v1 k \<noteq> None) ?todo1"
      "\<forall>f \<in> set ?todo1. \<forall>k \<in> needs ?x c f. stored_chunk e v2 k \<noteq> None"
      "\<forall>i d. stored_chunk e v1 i = Some d \<and> i \<notin> \<Union> (needs ?x c ` set ?todo1) \<longrightarrow> stored_chunk e v2 i = Some d"
      "(\<forall>f \<in> set ?todo1. \<forall>k \<in> needs ?x c f. stored_chunk e v1 k \<noteq> None) \<longrightarrow>
        stored_chunk e v2 = stored_chunk e v1"
      "\<forall>(f, j) \<in> set acc2. current_rec e v2 (path f) = Some (j, deleted f, commit_ids ?x c f)"
      "\<forall>p. p \<notin> path ` fst ` set acc2 \<longrightarrow> current_rec e v2 p = current_rec e v1 p"
      unfolding same by blast
    have jids: "jids_only (records c) (records c2)"
      using jids_only_committed jids_only_committed jids_only_trans unfolding one(4) two(4) by blast
    have accs: "map fst acc2 = ?todo1" unfolding two(5) using all unfolding same
      by (simp add: filter_id_conv)
    have dt1: "distinct ?todo1" unfolding left using dt by simp
    have sa2: "fst ` set acc2 \<subseteq> set ?todo1" "set ?todo1 \<subseteq> fst ` set acc2"
      using arg_cong [OF accs, of set] by (simp_all only: list.set_map order_refl)
    have da2: "distinct (map fst acc2)" unfolding accs by (rule dt1)
    from updated_locally_committed [OF wf1 da2 sa2(1)] two(4)
    have wf2: "wf_table (records c2)" and left2: "updated_locally ?ns (records c2) =
        filter (\<lambda>r. r \<notin> fst ` set acc2) ?todo1" by simp_all
    have none: "updated_locally ?ns (records c2) = []"
      unfolding left2 using sa2(2) by (auto simp: filter_empty_conv)
    have "b2" using upload_pass_left [OF assms(2) wf1 two(1)] none by simp
    then have run: "upload_passes e (c, v) = (Ok (), (c2, v2))"
      using one(1) two(1) False by (simp add: upload_passes_def and_then_def ret_def)
    have view2: "registry_view ?ns (records c2) (path f) = Some (f\<lparr>jid := Some j\<rparr>)" if "(f, j) \<in> set acc2" for f j
      unfolding two(4) using view_committed [OF wf1 da2 sa2(1) that] .
    have each: "\<exists>j. current_rec e v2 (path f) = Some (j, deleted f, commit_ids ?x c f) \<and>
      registry_view ?ns (records c2) (path f) = Some (f\<lparr>jid := Some j\<rparr>) \<and>
      (\<forall>k \<in> needs ?x c f. stored_chunk e v2 k \<noteq> None)" if f: "f \<in> set ?todo" for f
    proof -
      have stored: "\<forall>k \<in> needs ?x c f. stored_chunk e v2 k \<noteq> None"
      proof
        fix k assume k: "k \<in> needs ?x c f"
        show "stored_chunk e v2 k \<noteq> None"
        proof (cases "k \<in> \<Union> (needs ?x c ` set ?todo1)")
          case True
          then show ?thesis using two(6) by blast
        next
          case False
          from one(7) f k obtain d where "stored_chunk e v1 k = Some d" by blast
          with two(7) False show ?thesis by auto
        qed
      qed
      show ?thesis
      proof (cases "f \<in> set ?todo1")
        case True
        with sa2(2) obtain j where "(f, j) \<in> set acc2" by force
        with two(9) view2 stored show ?thesis by fast
      next
        case False
        with f left have "f \<in> fst ` set acc" by simp
        then obtain j where j: "(f, j) \<in> set acc" by force
        have new: "path f \<notin> path ` fst ` set acc2"
          using inj_onD [OF inj] f sub sa2(1) False by blast
        have "current_rec e v2 (path f) = Some (j, deleted f, commit_ids ?x c f)"
          using two(10) new one(10) j by fastforce
        moreover have "registry_view ?ns (records c2) (path f) = Some (f\<lparr>jid := Some j\<rparr>)"
          unfolding two(4) using view1 [OF j]
        proof (rule view_committed_other)
          show "\<forall>r \<in> fst ` set acc2. record_id r \<noteq> record_id (f\<lparr>jid := Some j\<rparr>)"
          proof
            fix r assume r: "r \<in> fst ` set acc2"
            then have rt: "r \<in> set ?todo" "r \<noteq> f" using sa2(1) sub False by auto
            have "r \<in> set (records c)" "f \<in> set (records c)"
              using rt(1) f set_updated_locally [OF assms(4)] view_SomeD(1) by blast+
            then show "record_id r \<noteq> record_id (f\<lparr>jid := Some j\<rparr>)"
              using ids_sorted_inj [OF assms(4)] rt(2) by (metis file_record.select_convs(1) file_record.surjective file_record.update_convs(2))
          qed
        qed
        ultimately show ?thesis using stored by blast
      qed
    qed
    have others: "\<forall>p. p \<notin> path ` set ?todo \<longrightarrow> current_rec e v2 p = current_rec e v p"
    proof (intro allI impI)
      fix p assume p: "p \<notin> path ` set ?todo"
      then have "p \<notin> path ` fst ` set acc" "p \<notin> path ` fst ` set acc2" using sa sa2(1) sub by blast+
      then show "current_rec e v2 p = current_rec e v p" using one(11) two(10) by simp
    qed
    have "stored_chunk e v2 = stored_chunk e v1" using two(8) all unfolding same by blast
    then have named: "\<forall>i d. stored_chunk e v2 i = Some d \<longrightarrow>
        stored_chunk e v i = Some d \<or> known ?x c (set ?todo) i d" using one(9) by simp
    have kept: "\<forall>i d. stored_chunk e v i = Some d \<and> i \<notin> ?all \<longrightarrow> stored_chunk e v2 i = Some d"
    proof (intro allI impI)
      fix i d assume i: "stored_chunk e v i = Some d \<and> i \<notin> ?all"
      then have "stored_chunk e v1 i = Some d" using one(8) by simp
      moreover have "i \<notin> \<Union> (needs ?x c ` set ?todo1)" using i sub by auto
      ultimately show "stored_chunk e v2 i = Some d" using two(7) by simp
    qed
    have "tree_kept c c2" using one(2) two(2) by (rule tree_kept_trans)
    moreover have "\<forall>f \<in> set ?todo. \<exists>j. current_rec e v2 (path f) = Some (j, deleted f, commit_ids ?x c f) \<and>
      registry_view ?ns (records c2) (path f) = Some (f\<lparr>jid := Some j\<rparr>) \<and>
      (\<forall>k \<in> needs ?x c f. stored_chunk e v2 k \<noteq> None)" using each by blast
    ultimately show ?thesis using run two(3) jids wf2 none others kept named
      by (intro exI [of _ c2] exI [of _ v2] conjI)
  qed
qed

end

end
