(* ===== verification/Landing.thy ===== *)
theory Landing
  imports Service
begin

text \<open>
  When the last loop of a download pass succeeds: each listed path can be written, or deleted,
  and no listed path lies below another, so that applying one record leaves the place of the
  others free; and the whole pass against a server that keeps the contract of
  \<open>sync_service\<close>.
\<close>

section \<open>Places that stay free\<close>

definition place_free :: "'z client_scheme \<Rightarrow> response_record \<Rightarrow> bool" where
  "place_free c d \<longleftrightarrow>
     (if rr_deleted d then node_at c (full_path c (rr_path d)) \<noteq> Some Dir
      else writable c (full_path c (rr_path d)))"

definition apart :: "pathbuf \<Rightarrow> pathbuf \<Rightarrow> bool" where
  "apart p q \<longleftrightarrow> \<not> prefix p q \<and> \<not> prefix q p"

lemma prefix_butlast_strict: "prefix q (butlast p) \<Longrightarrow> p \<noteq> [] \<Longrightarrow> strict_prefix q p"
  using not_prefix_butlast prefixeq_butlast by (metis prefix_order.dual_order.trans strict_prefix_def)

lemma writable_saved:
  assumes "writable s q" "writable s p" "apart p q"
  shows "writable (write_file q b (after_dirs q s)) p"
proof -
  let ?t = "write_file q b (after_dirs q s)"
  have node: "node_at ?t r = (if r = q then Some (File b (clock s))
      else if prefix r (butlast q) \<and> r \<noteq> [] then Some Dir else node_at s r)" for r
    by (rule saved_node [OF assms(1)])
  have p: "p \<noteq> []" "last p \<noteq> RootDir" "makeable s (butlast p)" "node_at s p \<noteq> Some Dir"
    using assms(2) by (auto simp: writable_def)
  have q: "q \<noteq> []" using assms(1) by (simp add: writable_def)
  have "\<not> prefix p (butlast q)" using assms(3) prefix_butlast_strict [OF _ q, of p] by (auto simp: apart_def strict_prefix_def)
  moreover have "p \<noteq> q" using assms(3) by (auto simp: apart_def)
  ultimately have "node_at ?t p \<noteq> Some Dir" using node [of p] p(4) by simp
  moreover have "r \<noteq> q" if "prefix r (butlast p)" for r
    using that assms(3) prefix_butlast_strict [OF _ p(1), of r] by (auto simp: apart_def strict_prefix_def)
  then have "node_at ?t r = None \<or> node_at ?t r = Some Dir" if "prefix r (butlast p)" "r \<noteq> []" for r
    using that p(3) node [of r] by (auto simp: makeable_def simp del: node_at_write)
  then have "makeable ?t (butlast p)" by (simp add: makeable_def del: node_at_write)
  ultimately show ?thesis using p(1,2) by (simp add: writable_def)
qed

text \<open>A successful deletion only removes nodes.\<close>

lemma remove_dir_shrinks:
  "node_at (snd (remove_dir d s)) p = node_at s p \<or> node_at (snd (remove_dir d s)) p = None"
  by (auto simp: remove_dir_def split: option.splits node.splits)

lemma remove_empty_parents_shrinks:
  "fst (remove_empty_parents d s) = Ok () \<and>
   (node_at (snd (remove_empty_parents d s)) p = node_at s p \<or>
    node_at (snd (remove_empty_parents d s)) p = None)"
proof (cases d)
  case (Some dir)
  have "fst (remove_empty_parents (Some dir) s) = Ok () \<and>
     (node_at (snd (remove_empty_parents (Some dir) s)) p = node_at s p \<or>
      node_at (snd (remove_empty_parents (Some dir) s)) p = None)"
  proof (induction "length dir" arbitrary: dir s rule: less_induct)
    case less
    obtain r s1 where s1: "remove_dir dir s = (r, s1)" by (cases "remove_dir dir s")
    then have one: "node_at s1 p = node_at s p \<or> node_at s1 p = None"
      using remove_dir_shrinks [of dir s p] by simp
    have "fst (remove_empty_parents (parent dir) s1) = Ok () \<and>
        (node_at (snd (remove_empty_parents (parent dir) s1)) p = node_at s1 p \<or>
         node_at (snd (remove_empty_parents (parent dir) s1)) p = None)"
      proof (cases "parent dir")
        case (Some a)
        from less.hyps [OF length_parent [OF Some], of s1] show ?thesis by (simp add: Some)
      qed (simp add: prog_simps)
    with one s1 show ?case
      by (auto simp: remove_empty_parents.simps(2) split: res.splits)
  qed
  with Some show ?thesis by simp
qed (simp add: prog_simps)

lemma delete_runs:
  assumes "content_at s (full_path s rel) = Some b"
  shows "\<exists>t. delete rel s = (Ok (), t) \<and>
    (\<forall>p. node_at t p = node_at s p \<or> node_at t p = None)"
proof -
  let ?p = "full_path s rel"
  from assms obtain u where "node_at s ?p = Some (File b u)" by (auto dest: content_at_SomeD)
  then have rm: "remove_file ?p s = (Ok (), drop_node ?p s)" by (simp add: remove_file_def)
  let ?r = "remove_empty_parents (parent ?p) (drop_node ?p s)"
  have "delete rel s = (Ok (), snd ?r)"
    using rm remove_empty_parents_shrinks [of "parent ?p" "drop_node ?p s"]
    by (simp add: delete_def and_then_def map_err_def) (metis prod.collapse)
  moreover have "node_at (snd ?r) p = node_at s p \<or> node_at (snd ?r) p = None" for p
    using remove_empty_parents_shrinks [of "parent ?p" "drop_node ?p s" p] by (auto split: if_splits)
  ultimately show ?thesis by blast
qed

lemma writable_shrunk:
  assumes "writable s p" "\<And>q. node_at t q = node_at s q \<or> node_at t q = None"
  shows "writable t p"
proof -
  have "node_at t q = None \<or> node_at t q = Some Dir" if "prefix q (butlast p)" "q \<noteq> []" for q
    using assms(1) assms(2) [of q] that by (auto simp: writable_def makeable_def)
  moreover have "node_at t p \<noteq> Some Dir" using assms(1) assms(2) [of p] by (auto simp: writable_def)
  ultimately show ?thesis using assms(1) by (simp add: writable_def makeable_def)
qed

lemma node_at_records [simp]: "node_at (c\<lparr>records := rows\<rparr>) = node_at c"
  by (simp add: node_at_def fun_eq_iff)

lemma writable_records [simp]: "writable (c\<lparr>records := rows\<rparr>) = writable c"
  by (simp add: writable_def makeable_def fun_eq_iff)

lemma full_path_records [simp]: "full_path (c\<lparr>records := rows\<rparr>) = full_path c"
  by (simp add: full_path_def fun_eq_iff)

lemma answers_records [simp]: "answers (c\<lparr>records := rows\<rparr>) = answers c"
  by (simp add: answers_def fun_eq_iff)

section \<open>The last loop succeeds\<close>

definition record_ids :: "response_record \<Rightarrow> string list" where
  "record_ids d = split_on COMMA (rr_chunk_ids d)"

definition applicable :: "'z client_scheme \<Rightarrow> response_record \<Rightarrow> bool" where
  "applicable c d \<longleftrightarrow> place_free c d \<and>
     (\<not> rr_deleted d \<longrightarrow> (\<exists>chunks. answers c (record_ids d) chunks \<and> length (concat chunks) \<le> I64_MAX))"

definition all_apart :: "'z client_scheme \<Rightarrow> response_record list \<Rightarrow> bool" where
  "all_apart c ds \<longleftrightarrow>
     sorted_wrt (\<lambda>d d'. apart (full_path c (rr_path d)) (full_path c (rr_path d'))) ds"

lemma apply_record_runs:
  assumes "applicable c d"
  shows "\<exists>c'. apply_record e d c = (Ok (), c') \<and> cache c' = cache c \<and> base_path c' = base_path c \<and>
    (\<forall>d'. place_free c d' \<longrightarrow> apart (full_path c (rr_path d)) (full_path c (rr_path d')) \<longrightarrow> place_free c' d')"
proof (cases "rr_deleted d")
  case True
  let ?c1 = "c\<lparr>records := delete_records (id_gap e)
      [build_delete_form (rr_path d) (clock c) (rr_id d) (namespace e)] (records c)\<rparr>"
  let ?p = "full_path c (rr_path d)"
  have free: "node_at c ?p \<noteq> Some Dir" using assms True by (simp add: applicable_def place_free_def)
  have run: "apply_record e d c =
      (if exists_file (rr_path d) ?c1 then delete (rr_path d) ?c1 else (Ok (), ?c1))"
    using True unfolding apply_record_def by (simp add: and_then_Ok_eq [OF set_records_apply])
  have shrunk: "place_free t d'" if "\<And>q. node_at t q = node_at c q \<or> node_at t q = None"
    "base_path t = base_path c" "place_free c d'" for d' and t :: "'a client_scheme"
  proof -
    have "full_path t = full_path c" using that(2) by (simp add: full_path_def fun_eq_iff)
    then show ?thesis using that(3) that(1) [of "full_path c (rr_path d')"] writable_shrunk [OF _ that(1)]
      by (auto simp: place_free_def split: if_splits)
  qed
  show ?thesis
  proof (cases "exists_file (rr_path d) ?c1")
    case False
    with run shrunk [of ?c1] show ?thesis by auto
  next
    case ex: True
    then have "node_at c ?p \<noteq> None" by (simp add: exists_file_def exists_path_def)
    with free obtain b u where "node_at c ?p = Some (File b u)"
      by (cases "node_at c ?p"; cases "the (node_at c ?p)") auto
    then have "content_at ?c1 (full_path ?c1 (rr_path d)) = Some b" by (simp add: content_at_def)
    from delete_runs [OF this] obtain t where t: "delete (rr_path d) ?c1 = (Ok (), t)"
      "\<forall>p. node_at t p = node_at c p \<or> node_at t p = None" by auto
    have fo: "files_only ?c1 t" using delete_effect [OF t(1)] by blast
    have "cache t = cache c" "base_path t = base_path c" using files_onlyD [OF fo] by simp_all
    with run ex t shrunk [of t] show ?thesis by auto
  qed
next
  case False
  let ?p = "full_path c (rr_path d)"
  from assms False obtain chunks where w: "writable c ?p" and ch: "answers c (record_ids d) chunks"
    and len: "length (concat chunks) \<le> I64_MAX" by (auto simp: applicable_def place_free_def)
  let ?c1 = "write_file ?p (concat chunks) (after_dirs ?p c)"
  have sv: "save (ext e) (rr_path d) (split_on COMMA (rr_chunk_ids d)) c = (Ok (), ?c1)"
    using save_ok [OF w ch] by (simp add: record_ids_def)
  have fo: "files_only c ?c1" using save_effect [OF sv] by blast
  note same = files_only_client [OF fo]
  have node: "node_at ?c1 ?p = Some (File (concat chunks) (clock c))"
    using saved_node [OF w, of "concat chunks" ?p] by (simp only: if_True simp_thms)
  let ?form = "\<lparr>cf_jid = Some (rr_id d), cf_path = rr_path d, cf_deleted = False,
      cf_size = int (length (concat chunks)), cf_modified_at = truncate_to_seconds (clock c),
      cf_namespace_id = namespace e\<rparr>"
  have bf: "build_file_record (rr_path d) (base_path ?c1) (rr_id d) (namespace e) ?c1 = (Ok ?form, ?c1)"
    using node len same(3)
    by (simp add: build_file_record_def full_path_def metadata_def map_err_def and_then_def
        lift_res_def to_i64_def ret_def)
  let ?c2 = "?c1\<lparr>records := create_records (id_gap e) [?form] (records ?c1)\<rparr>"
  have "apply_record e d c = (Ok (), ?c2)"
    using False sv bf by (simp add: apply_record_def and_then_Ok_eq set_records_apply)
  moreover have "place_free ?c2 d'" if "place_free c d'" "apart ?p (full_path c (rr_path d'))" for d'
  proof -
    let ?q = "full_path c (rr_path d')"
    have fp: "full_path ?c2 = full_path c" using same(3) by (simp add: full_path_def fun_eq_iff)
    have ap: "apart ?q ?p" using that(2) by (auto simp: apart_def)
    show ?thesis
    proof (cases "rr_deleted d'")
      case True
      have ne: "?p \<noteq> []" using w by (simp add: writable_def)
      have "\<not> prefix ?q (butlast ?p)"
        using ap prefix_butlast_strict [OF _ ne, of ?q] by (auto simp: apart_def strict_prefix_def)
      moreover have "?q \<noteq> ?p" using ap by (auto simp: apart_def)
      ultimately have "node_at ?c2 ?q = node_at c ?q"
        using saved_node [OF w, of "concat chunks" ?q] by (simp del: node_at_write)
      with that(1) True fp show ?thesis by (simp add: place_free_def)
    next
      case False
      with that(1) writable_saved [OF w _ ap, of "concat chunks"] fp show ?thesis
        by (simp add: place_free_def)
    qed
  qed
  moreover have "cache ?c2 = cache c" "base_path ?c2 = base_path c" using same by simp_all
  ultimately show ?thesis by (intro exI [of _ ?c2]) auto
qed

lemma apply_all_runs:
  assumes "\<forall>d \<in> set ds. applicable c d" "all_apart c ds"
  shows "\<exists>c'. for_each (apply_record e) ds c = (Ok (), c')"
  using assms
proof (induction ds arbitrary: c)
  case (Cons d ds)
  from Cons.prems(1) have "applicable c d" by simp
  from apply_record_runs [OF this, of e] obtain c1 where
    c1: "apply_record e d c = (Ok (), c1)" "cache c1 = cache c" "base_path c1 = base_path c"
    "\<forall>d'. place_free c d' \<longrightarrow> apart (full_path c (rr_path d)) (full_path c (rr_path d')) \<longrightarrow> place_free c1 d'"
    by blast
  have fp: "full_path c1 = full_path c" using c1(3) by (simp add: full_path_def fun_eq_iff)
  have "\<forall>d' \<in> set ds. applicable c1 d'"
    using Cons.prems c1(2,4) by (auto simp: applicable_def all_apart_def answers_def)
  moreover have "all_apart c1 ds" using Cons.prems(2) fp by (simp add: all_apart_def)
  ultimately show ?case using Cons.IH c1(1) by (simp add: and_then_Ok_eq)
qed (simp add: ret_apply)

section \<open>Filling the cache\<close>

text \<open>Warming the cache succeeds when what is there can be hashed; what is queued is missing.\<close>

definition warmable :: "'z client_scheme \<Rightarrow> response_record \<Rightarrow> bool" where
  "warmable c d \<longleftrightarrow> rr_deleted d \<or> \<not> exists_file (rr_path d) c \<or>
     (listed (rr_path d) \<and> content_at c (full_path c (rr_path d)) \<noteq> None)"

lemma check_chunk_hashify:
  assumes "digest_ok x" "no_eviction x = x" "check_chunk k c"
  shows "check_chunk k (snd (hashify x p c))"
proof (cases "listed p \<and> content_at c (full_path c p) \<noteq> None")
  case True
  then obtain b where "listed p" "content_at c (full_path c p) = Some b" by auto
  from hashify_eq [OF assms(1) this] have "snd (hashify x p c) =
      cc.store_all (no_eviction x) (named x (hash_size_of p) (chunks_of x (inserts c) p b)) c"
    using assms(2) by simp
  with assms(3) show ?thesis using rc.get_stored_some cc.contains_iff by metis
next
  case False
  have "snd (hashify x p c) = c"
  proof (cases "listed p")
    case True
    with False have "content_at c (full_path c p) = None" by simp
    then have "node_at c (full_path c p) = None \<or> node_at c (full_path c p) = Some Dir"
      by (auto simp: content_at_def split: option.splits node.splits)
    with True show ?thesis using hashify_missing hashify_directory by (metis snd_conv)
  qed (simp add: hashify_unlisted)
  with assms(3) show ?thesis by simp
qed

lemma collect_needed_runs:
  assumes "digest_ok (ext e)" "no_eviction (ext e) = ext e" "\<forall>d \<in> set ds. warmable c d"
  shows "\<exists>queue c1. collect_needed e ds q0 c = (Ok (q0 @ queue), c1) \<and> cache_only c c1 \<and>
    set queue \<subseteq> \<Union> (set ` record_ids ` {d \<in> set ds. \<not> rr_deleted d}) - {[]} \<and>
    (\<forall>k. check_chunk k c \<longrightarrow> check_chunk k c1) \<and>
    (\<forall>d \<in> set ds. \<not> rr_deleted d \<longrightarrow> (\<forall>k \<in> set (record_ids d). k \<in> set queue \<or> check_chunk k c1))"
  using assms(3)
proof (induction ds arbitrary: c q0)
  case Nil
  then show ?case by (simp add: ret_apply)
next
  case (Cons d ds)
  show ?case
  proof (cases "rr_deleted d")
    case True
    have "\<forall>d \<in> set ds. warmable c d" using Cons.prems by simp
    note IH = Cons.IH [OF this, of q0]
    have "{a \<in> set (d # ds). \<not> rr_deleted a} = {a \<in> set ds. \<not> rr_deleted a}"
      "collect_needed e (d # ds) q0 c = collect_needed e ds q0 c"
      "(\<forall>a \<in> set (d # ds). \<not> rr_deleted a \<longrightarrow> P a) \<longleftrightarrow> (\<forall>a \<in> set ds. \<not> rr_deleted a \<longrightarrow> P a)" for P
      using True by auto
    then show ?thesis using IH by presburger
  next
    case False
    let ?warm = "\<lambda>c. if exists_file (rr_path d) c
        then and_then (hashify (ext e) (rr_path d)) (\<lambda>_. ret ()) c else (Ok (), c)"
    have "\<exists>c1. ?warm c = (Ok (), c1) \<and> cache_only c c1 \<and> (\<forall>k. check_chunk k c \<longrightarrow> check_chunk k c1)"
    proof (cases "exists_file (rr_path d) c")
      case True
      with Cons.prems False obtain b where "listed (rr_path d)" "content_at c (full_path c (rr_path d)) = Some b"
        by (auto simp: warmable_def)
      from hashify_eq [OF assms(1) this] have "\<exists>ids. hashify (ext e) (rr_path d) c =
          (Ok ids, snd (hashify (ext e) (rr_path d) c))" by (metis snd_conv)
      with True show ?thesis
        using hashify_cache_only [OF assms(1), of c "rr_path d"] check_chunk_hashify [OF assms(1,2)]
        by (auto simp: and_then_Ok_eq ret_apply)
    qed simp
    then obtain c1 where c1: "?warm c = (Ok (), c1)" "cache_only c c1"
      "\<forall>k. check_chunk k c \<longrightarrow> check_chunk k c1" by blast
    have same: "content_at c1 p = content_at c p" "full_path c1 q = full_path c q"
      "exists_file q c1 = exists_file q c" for p q
      using cache_only_views [OF c1(2)] cache_only_node_at [OF c1(2)]
      by (simp_all add: exists_file_def exists_path_def)
    have "\<forall>d \<in> set ds. warmable c1 d" using Cons.prems same by (simp add: warmable_def)
    let ?new = "filter (\<lambda>h. \<not> check_chunk h c1) (split_on COMMA (rr_chunk_ids d))"
    from Cons.IH [OF \<open>\<forall>d \<in> set ds. warmable c1 d\<close>, of "q0 @ ?new"] obtain queue c2 where
      c2: "collect_needed e ds (q0 @ ?new) c1 = (Ok ((q0 @ ?new) @ queue), c2)" "cache_only c1 c2"
      "set queue \<subseteq> \<Union> (set ` record_ids ` {d \<in> set ds. \<not> rr_deleted d}) - {[]}"
      "\<forall>k. check_chunk k c1 \<longrightarrow> check_chunk k c2"
      "\<forall>d \<in> set ds. \<not> rr_deleted d \<longrightarrow> (\<forall>k \<in> set (record_ids d). k \<in> set queue \<or> check_chunk k c2)" by blast
    have run: "collect_needed e (d # ds) q0 c = (Ok (q0 @ (?new @ queue)), c2)"
      using c1(1) c2(1) False by (simp add: and_then_Ok_eq)
    have "check_chunk [] c1" by (simp add: check_chunk_def)
    then have "[] \<notin> set ?new" by auto
    then have "set (?new @ queue) \<subseteq> \<Union> (set ` record_ids ` {a \<in> set (d # ds). \<not> rr_deleted a}) - {[]}"
      using c2(3) False by (auto simp: record_ids_def)
    moreover have "\<forall>d' \<in> set (d # ds). \<not> rr_deleted d' \<longrightarrow>
        (\<forall>k \<in> set (record_ids d'). k \<in> set (?new @ queue) \<or> check_chunk k c2)"
      using c2(4,5) by (auto simp: record_ids_def)
    moreover have "cache_only c c2" using c1(2) c2(2) by (rule cache_only_trans)
    moreover have "\<forall>k. check_chunk k c \<longrightarrow> check_chunk k c2" using c1(3) c2(4) by simp
    ultimately show ?thesis using run by (intro exI [of _ "?new @ queue"] exI [of _ c2] conjI)
  qed
qed

text \<open>Saving what came: with nothing evicted, everything is there afterwards.\<close>

lemma save_downloaded_runs:
  assumes "no_eviction (ext e) = ext e"
  shows "\<exists>c'. save_downloaded e items c = (Ok (), c') \<and> cache_only c c' \<and>
    (\<forall>k. check_chunk k c \<or> k \<in> fst ` set items \<longrightarrow> check_chunk k c')"
proof (induction items arbitrary: c)
  case (Cons i items)
  obtain k d where i: "i = (k, d)" by (cases i)
  let ?c = "cache_set (ext e) k d c"
  obtain c' where c': "save_downloaded e items ?c = (Ok (), c')" "cache_only ?c c'"
    "\<forall>k. check_chunk k ?c \<or> k \<in> fst ` set items \<longrightarrow> check_chunk k c'"
    using Cons.IH by blast
  have keep: "check_chunk j (cache_set (no_eviction (ext e)) k d c)" if "check_chunk j c \<or> j = k" for j
    using that rc.get_set_some cc.contains_iff by metis
  have "save_downloaded e (i # items) c = (Ok (), c')"
    using c'(1) i by (simp add: save_chunk_def and_then_def)
  moreover have "cache_only c c'" using cache_only_set c'(2) by (rule cache_only_trans)
  moreover have "check_chunk j c'" if "check_chunk j c \<or> j \<in> fst ` set (i # items)" for j
    using that keep [of j] c'(3) i assms by auto
  ultimately show ?case by blast
qed (simp add: ret_apply)

section \<open>A whole pass\<close>

text \<open>What a listing after a record id shows; the contents behind a list of ids.\<close>

definition news :: "(string \<Rightarrow> (int \<times> bool \<times> string) option) \<Rightarrow> int \<Rightarrow> response_record set" where
  "news cur after =
     {d. cur (rr_path d) = Some (rr_id d, rr_deleted d, rr_chunk_ids d) \<and> after < rr_id d}"

definition stored_content :: "(string \<Rightarrow> bytes option) \<Rightarrow> string list \<Rightarrow> bytes" where
  "stored_content st ids = concat (map (\<lambda>k. if k = [] then [] else the (st k)) ids)"

text \<open>
  The request of a pass is within the limits, and what the warmed cache has under a listed id
  is what is stored.
\<close>

definition fetch_fits ::
    "('srv sync_env \<Rightarrow> 'srv \<Rightarrow> string list \<Rightarrow> bool) \<Rightarrow> (string \<Rightarrow> bytes option) \<Rightarrow> 'srv sync_env \<Rightarrow>
     response_record list \<Rightarrow> 'z client_scheme \<Rightarrow> 'srv \<Rightarrow> bool" where
  "fetch_fits fits st e ds c v =
     (case collect_needed e ds [] c of
        (Ok q, c1) \<Rightarrow> (q \<noteq> [] \<longrightarrow> fits e v q) \<and>
          list_all (\<lambda>d. list_all (\<lambda>k. cache c1 k = None \<or> cache c1 k = st k) (record_ids d)) ds
      | _ \<Rightarrow> True)"

text \<open>
  A client has room for what is listed: each path can be read and written, none lies below
  another, and no file is larger than the registry can say. The chunks are all stored.
\<close>

definition room_for :: "'z client_scheme \<Rightarrow> (string \<Rightarrow> bytes option) \<Rightarrow> response_record set \<Rightarrow> bool" where
  "room_for c st D \<longleftrightarrow>
     (\<forall>d \<in> D. warmable c d \<and> place_free c d \<and>
        (\<forall>d' \<in> D. d \<noteq> d' \<longrightarrow> apart (full_path c (rr_path d)) (full_path c (rr_path d'))) \<and>
        (\<not> rr_deleted d \<longrightarrow> length (stored_content st (record_ids d)) \<le> I64_MAX))"

definition all_stored :: "(string \<Rightarrow> bytes option) \<Rightarrow> response_record set \<Rightarrow> bool" where
  "all_stored st D \<longleftrightarrow>
     (\<forall>d \<in> D. \<not> rr_deleted d \<longrightarrow> (\<forall>k \<in> set (record_ids d). k = [] \<or> (alnum k \<and> st k \<noteq> None)))"

definition received ::
    "'srv sync_env \<Rightarrow> 'z client_scheme \<Rightarrow> 'z client_scheme \<Rightarrow> (string \<Rightarrow> bytes option) \<Rightarrow>
     response_record \<Rightarrow> bool" where
  "received e c c' st d \<longleftrightarrow>
     file_at c' (full_path c (rr_path d)) =
       (if rr_deleted d then None else Some (stored_content st (record_ids d), clock c)) \<and>
     (\<exists>r. registry_view (namespace e) (records c') (rr_path d) = Some r \<and>
        jid r = Some (rr_id d) \<and> deleted r = rr_deleted d \<and>
        modified_at r = truncate_to_seconds (clock c) \<and>
        (\<not> rr_deleted d \<longrightarrow> file_size r = int (length (stored_content st (record_ids d)))))"

lemma answers_stored:
  assumes "\<forall>k \<in> set ids. check_chunk k c" "cc.sound P c"
    "\<forall>k \<in> set ids. k = [] \<or> (\<forall>w. P k w \<longrightarrow> st k = Some w)"
  shows "answers c ids (map (\<lambda>k. if k = [] then [] else the (st k)) ids)"
proof -
  have "cache_get (cache c) k = Ok (if k = [] then [] else the (st k))" if k: "k \<in> set ids" for k
  proof (cases "k = []")
    case False
    from assms(1) k obtain w where w: "cache_get (cache c) k = Ok w" using cc.contains_iff by blast
    with assms(2) False have "P k w" by (simp add: cc.sound_def)
    with w False assms(3) k show ?thesis by auto
  qed (simp add: cache_get_def)
  then show ?thesis by (simp add: answers_def list_all2_map2 list_all2_same)
qed

context sync_service
begin

lemma download_pass:
  assumes "ok e v" "digest_ok (ext e)" "no_eviction (ext e) = ext e"
    "room_for c (stored_chunk e v) (news (current_rec e v) (latest_local e c))"
    "all_stored (stored_chunk e v) (news (current_rec e v) (latest_local e c))"
    "\<forall>ds. distinct ds \<longrightarrow> set ds = news (current_rec e v) (latest_local e c) \<longrightarrow> fetch_fits fits_download (stored_chunk e v) e ds c v"
  shows "\<exists>ds c'. check_download_once e (c, v) = (Ok (ds \<noteq> []), (c', v)) \<and>
    set ds = news (current_rec e v) (latest_local e c) \<and>
    (\<forall>d \<in> set ds. received e c c' (stored_chunk e v) d) \<and>
    (\<forall>q. q \<notin> (full_path c \<circ> rr_path) ` set ds \<longrightarrow> file_at c' q = file_at c q) \<and>
    (\<forall>m p. m \<noteq> namespace e \<or> p \<notin> rr_path ` set ds \<longrightarrow>
       registry_view m (records c') p = registry_view m (records c) p) \<and>
    (wf_table (records c) \<longrightarrow> wf_table (records c')) \<and> base_path c' = base_path c \<and>
    news (current_rec e v) (latest_local e c') = {}"
proof -
  let ?st = "stored_chunk e v" and ?after = "latest_local e c"
  from list_law [OF assms(1), of ?after] obtain ds where
    ls: "list_records (http e) (remote_client e) ?after v = (Ok ds, v)"
    and dis: "distinct (map rr_path ds)" and ds: "set ds = news (current_rec e v) ?after"
    unfolding news_def by blast
  note rec = assms(4) [folded ds, unfolded room_for_def, rule_format]
  note got_all = assms(5) [folded ds, unfolded all_stored_def, rule_format]
  have warm: "\<forall>d \<in> set ds. warmable c d" using rec by blast
  from collect_needed_runs [OF assms(2,3) warm, of "[]"] obtain q c1 where
    q: "collect_needed e ds [] c = (Ok q, c1)" "cache_only c c1"
    "set q \<subseteq> \<Union> (set ` record_ids ` {d \<in> set ds. \<not> rr_deleted d}) - {[]}"
    "\<forall>d \<in> set ds. \<not> rr_deleted d \<longrightarrow> (\<forall>k \<in> set (record_ids d). k \<in> set q \<or> check_chunk k c1)"
    by auto
  have qk: "\<forall>k \<in> set q. alnum k \<and> ?st k \<noteq> None"
  proof
    fix k assume "k \<in> set q"
    with q(3) obtain d where "d \<in> set ds" "\<not> rr_deleted d" "k \<in> set (record_ids d)" "k \<noteq> []" by blast
    with got_all show "alnum k \<and> ?st k \<noteq> None" by fastforce
  qed
  have "distinct ds" using dis by (simp add: distinct_map)
  with assms(6) ds have "fetch_fits fits_download ?st e ds c v" by blast
  with q(1) have fits: "q \<noteq> [] \<longrightarrow> fits_download e v q"
    and agree: "\<forall>d \<in> set ds. \<forall>k \<in> set (record_ids d). cache c1 k = None \<or> cache c1 k = ?st k"
    by (auto simp: fetch_fits_def list_all_iff)
  let ?items = "map (\<lambda>k. (k, the (?st k))) q"
  let ?P = "\<lambda>k w. (\<exists>d \<in> set ds. k \<in> set (record_ids d)) \<longrightarrow> ?st k = Some w"
  have sound1: "cc.sound ?P c1"
    unfolding cc.sound_def
  proof (intro allI impI)
    show "?st k = Some w" if "k \<noteq> []" "cache_get (cache c1) k = Ok w" "\<exists>d \<in> set ds. k \<in> set (record_ids d)" for k w
      using that agree by (fastforce simp: cache_get_def split: option.splits)
  qed
  have "\<exists>c2. fetch_chunks e q (c1, v) = (Ok (), (c2, v)) \<and> cache_only c1 c2 \<and> cc.sound ?P c2 \<and>
      (\<forall>k. check_chunk k c1 \<or> k \<in> set q \<longrightarrow> check_chunk k c2)"
  proof (cases "q = []")
    case True
    with sound1 show ?thesis by (simp add: fetch_chunks_def ret_apply)
  next
    case False
    with fits have "fits_download e v q" by simp
    note dl = download_law [OF assms(1) this qk]
    from save_downloaded_runs [OF assms(3), of ?items c1] obtain c2 where
      c2: "save_downloaded e ?items c1 = (Ok (), c2)" "cache_only c1 c2"
      "\<forall>k. check_chunk k c1 \<or> k \<in> fst ` set ?items \<longrightarrow> check_chunk k c2" by blast
    have "\<forall>(k, d) \<in> set ?items. ?P k d" using qk by auto
    then have "cc.sound ?P c2"
      using cache_only_save_downloaded [of e ?items c1 ?P] c2(1) sound1 by auto
    moreover have "fetch_chunks e q (c1, v) = (Ok (), (c2, v))"
      using False dl c2(1) by (simp add: fetch_chunks_def and_then_def on_server_def on_client_def
          lift_res_def)
    ultimately show ?thesis using c2(2,3) by (auto simp: image_image)
  qed
  then obtain c2 where c2: "fetch_chunks e q (c1, v) = (Ok (), (c2, v))" "cache_only c1 c2"
    "cc.sound ?P c2" "\<forall>k. check_chunk k c1 \<or> k \<in> set q \<longrightarrow> check_chunk k c2"
    by blast
  have co: "cache_only c c2" using q(2) c2(2) by (rule cache_only_trans)
  note views = cache_only_views [OF co] cache_only_node_at [OF co]
  have fp: "full_path c2 = full_path c" using views by (simp add: fun_eq_iff)
  have ans: "answers c2 (record_ids d) (map (\<lambda>k. if k = [] then [] else the (?st k)) (record_ids d))"
    if d: "d \<in> set ds" "\<not> rr_deleted d" for d
  proof (rule answers_stored [OF _ c2(3)])
    show "\<forall>k \<in> set (record_ids d). check_chunk k c2" using q(4) c2(4) d by blast
    show "\<forall>k \<in> set (record_ids d). k = [] \<or> (\<forall>w. ?P k w \<longrightarrow> ?st k = Some w)"
      using d(1) by blast
  qed
  have "applicable c2 d" if d: "d \<in> set ds" for d
    using rec [OF d] ans [OF d] views fp
    by (auto simp: applicable_def place_free_def writable_def makeable_def stored_content_def
        intro!: exI [of _ "map (\<lambda>k. if k = [] then [] else the (?st k)) (record_ids d)"])
  moreover have "all_apart c2 ds"
  proof -
    have di: "distinct ds" using dis by (simp add: distinct_map)
    have "apart (full_path c (rr_path (ds ! i))) (full_path c (rr_path (ds ! j)))"
      if "i < j" "j < length ds" for i j
      using rec [of "ds ! i"] that nth_eq_iff_index_eq [OF di, of i j] by auto
    then show ?thesis by (simp add: all_apart_def fp sorted_wrt_iff_nth_less)
  qed
  ultimately obtain c' where ap: "for_each (apply_record e) ds c2 = (Ok (), c')"
    using apply_all_runs [of ds c2 e] by blast
  have "distinct (map (full_path c2 \<circ> rr_path) ds)"
    unfolding distinct_map
  proof (intro conjI inj_onI)
    show "distinct ds" using dis by (simp add: distinct_map)
    show "d = d'" if "d \<in> set ds" "d' \<in> set ds" "(full_path c2 \<circ> rr_path) d = (full_path c2 \<circ> rr_path) d'" for d d'
      using rec [OF that(1)] that(2,3) by (auto simp: apart_def fp)
  qed
  note all = applied_all [OF ap this]
  have run: "check_download_once e (c, v) = (Ok (ds \<noteq> []), (c', v))"
    using ls q(1) c2(1) ap
    by (simp add: check_download_once_def and_then_def on_server_def on_client_def ret_def)
  have got: "received e c c' ?st d" if d: "d \<in> set ds" for d
  proof -
    have "landed e c2 c' d" using all d by blast
    moreover have "chunks = map (\<lambda>k. if k = [] then [] else the (?st k)) (record_ids d)"
      if "\<not> rr_deleted d" "answers c2 (split_on COMMA (rr_chunk_ids d)) chunks" for chunks
      using ans [OF d that(1)] that(2) unfolding answers_def record_ids_def
      by (auto simp: list_all2_conv_all_nth intro!: nth_equalityI)
    moreover have "clock c2 = clock c" using cache_onlyD [OF co] by blast
    ultimately show ?thesis
      unfolding landed_def received_def stored_content_def fp
      by (cases "rr_deleted d") (simp_all only: if_True if_False simp_thms, blast+)
  qed
  have same: "file_at c2 = file_at c" "records c2 = records c" "base_path c2 = base_path c"
    using views tree_kept_cache_only [OF co] cache_onlyD [OF co] by (auto simp: file_at_def fun_eq_iff)
  have upper: "rr_id d \<le> latest_local e c'" if d: "d \<in> set ds" for d
  proof -
    from got [OF d] obtain r where r: "registry_view (namespace e) (records c') (rr_path d) = Some r"
      "jid r = Some (rr_id d)" unfolding received_def by blast
    show ?thesis
      using latest_jid_upper [OF view_SomeD(1,3) [OF r(1)] r(2)] r(1) by (auto simp: latest_local_def)
  qed
  have "latest_local e c \<le> latest_local e c'"
  proof (cases ds)
    case Nil
    with ap same show ?thesis by (simp add: ret_apply latest_local_def)
  next
    case (Cons d r)
    then have "d \<in> set ds" by simp
    with upper have "rr_id d \<le> latest_local e c'" "d \<in> news (current_rec e v) (latest_local e c)"
      using ds by simp_all
    then show ?thesis by (simp add: news_def)
  qed
  with upper have quiet: "news (current_rec e v) (latest_local e c') = {}"
    using ds by (fastforce simp: news_def)
  show ?thesis
    using run ds got all quiet unfolding fp same
    by (intro exI [of _ ds] exI [of _ c'] conjI) blast+
qed

end

end
