(* ===== verification/MetadataProps.thy ===== *)
theory MetadataProps
  imports Metadata StoreFacts
begin

text \<open>
  The properties of the metadata handlers: the three outcomes of a commit and its
  idempotence, that uploading what a commit asked for makes it succeed, that a listing is
  exactly the difference between two states of the journal, and who a commit wakes.
\<close>

section \<open>Missing chunks\<close>

definition id_ok :: "string \<Rightarrow> bool" where
  "id_ok i \<longleftrightarrow> i = [] \<or> alnum i"

definition stored :: "string option \<Rightarrow> string \<Rightarrow> 'z world_scheme \<Rightarrow> bool" where
  "stored d i w \<longleftrightarrow> i = [] \<or> node_at w (stored_at d i) \<noteq> None"

lemma is_present_ok: "id_ok i \<Longrightarrow> is_present d i w = Ok (stored d i w)"
  by (auto simp: id_ok_def is_present_def stored_def file_path_alnum exists_path_def)

lemma missing_ids_ok:
  "\<forall>i \<in> set ids. id_ok i \<Longrightarrow> missing_ids d ids w = Ok (filter (\<lambda>i. \<not> stored d i w) ids)"
  by (induction ids) (auto simp: is_present_ok)

section \<open>Samples\<close>

definition sample_server :: server where
  "sample_server =
     \<lparr>files = [([RootDir], Dir)], dir_meta = (\<lambda>_. (0, Timestamp 0 0)), clock = Timestamp 2 0,
      rows = insert_records (\<lambda>_. 0)
        [\<lparr>nf_user_id = 1, nf_chunk_ids = [], nf_deleted = True, nf_path = ''a.cook''\<rparr>] [],
      notifier = \<lparr>clients = [(''u1'', 0), (''u2'', 1)], fired = {}, fresh = 2\<rparr>\<rparr>"

definition sample_meta :: metadata_env where
  "sample_meta = \<lparr>gap = (\<lambda>_. 0), row_order = rev\<rparr>"

definition sample_upload_env :: store_env where
  "sample_upload_env =
     \<lparr>upload_dir = Some ''/up'', multer = (\<lambda>_ _. []), parse_boundary = (\<lambda>_. None),
      form_decode = (\<lambda>_. None), write_fails = (\<lambda>_ _. False)\<rparr>"

definition sample_payload :: commit_payload where
  "sample_payload = \<lparr>cp_path = ''b.cook'', cp_deleted = False, cp_chunk_ids = ''ab1,c''\<rparr>"

lemma wf_sample_server: "wf_rows (rows sample_server)"
proof -
  have "wf_rows (insert_records (\<lambda>_. 0) fs [])" for fs
    by (rule commits.ids_sorted_ins) (simp add: ids_sorted_def)
  then show ?thesis by (simp add: sample_server_def)
qed

lemma sample_ids: "\<forall>i \<in> set (split_on COMMA (cp_chunk_ids sample_payload)). id_ok i"
  by code_simp

lemma sample_server_node: "node_at sample_server p = (if p = [RootDir] then Some Dir else None)"
  by (simp add: node_at_def sample_server_def)

lemma store_ok_sample_server: "store_ok (upload_dir sample_upload_env) sample_server"
proof -
  have r: "store_root (Some ''/up'') = [RootDir, Normal ''up'']" by code_simp
  have "wf_world sample_server" by (auto simp: wf_world_def sample_server_node dir_at_def)
  moreover have "writable sample_server (stored_at (Some ''/up'') i)" for i
    by (auto simp: writable_def makeable_def sample_server_node) (simp add: stored_at_def r)
  ultimately show ?thesis by (simp add: store_ok_def sample_upload_env_def)
qed

section \<open>Properties\<close>



text \<open>
  Committing the same payload again, right after it succeeded, answers with the same id and
  changes nothing, so a client that repeats a commit never adds a row or wakes anybody.
\<close>

theorem commit_idempotent:
  assumes "wf_rows (rows s)" "\<forall>i \<in> set (split_on COMMA (cp_chunk_ids p)). id_ok i"
    and "commit_handler x e user uid p s = (Ok (CommitSuccess j), s')"
  shows "commit_handler x e user uid' p s' = (Ok (CommitSuccess j), s')"
proof -
  let ?ids = "split_on COMMA (cp_chunk_ids p)" and ?d = "upload_dir x"
  let ?i = "next_id (gap e) (map sr_id (rows s))"
  let ?f = "from_payload_and_user_id p user"
  let ?new = "s\<lparr>rows := rows s @ [inserted_row ?i ?f], notifier := notify uid (notifier s)\<rparr>"
  have here: "filter (\<lambda>i. \<not> stored ?d i s) ?ids = []"
    and cases: "(s' = s \<and> (\<exists>old. server_view user (rows s) (cp_path p) = Some old \<and> j = sr_id old
        \<and> sr_chunk_ids old = cp_chunk_ids p \<and> sr_deleted old = cp_deleted p))
      \<or> (s' = ?new \<and> j = ?i)"
    using assms(3) latest_for_path_view [OF assms(1), of user "cp_path p"]
    by (auto simp: commit_handler_def non_local_chunks_def missing_ids_ok [OF assms(2)] Let_def
        insert_new_record_eq from_payload_and_user_id_def split: option.splits if_splits)
  have "node_at s' = node_at s" using cases by (auto simp: node_at_def fun_eq_iff)
  then have here': "filter (\<lambda>i. \<not> stored ?d i s') ?ids = []" using here by (simp add: stored_def)
  have wf: "wf_rows (rows s')"
    using cases assms(1) next_id_above [of _ "map sr_id (rows s)" "gap e"]
    by (auto simp: ids_sorted_def sorted_wrt_append inserted_row_def)
  have "\<exists>old. server_view user (rows s') (cp_path p) = Some old \<and> j = sr_id old
        \<and> sr_chunk_ids old = cp_chunk_ids p \<and> sr_deleted old = cp_deleted p"
    using cases by (auto simp: server_view_def inserted_row_def from_payload_and_user_id_def)
  then show ?thesis
    using latest_for_path_view [OF wf, of user "cp_path p"] here'
    by (auto simp: commit_handler_def non_local_chunks_def missing_ids_ok [OF assms(2)] Let_def
        from_payload_and_user_id_def)
qed

theorem commit_idempotent_witness:
  "\<exists>j s'. commit_handler sample_upload_env sample_meta 1 ''u1''
      \<lparr>cp_path = ''b.cook'', cp_deleted = False, cp_chunk_ids = []\<rparr> sample_server = (Ok (CommitSuccess j), s')
    \<and> commit_handler sample_upload_env sample_meta 1 ''u2''
      \<lparr>cp_path = ''b.cook'', cp_deleted = False, cp_chunk_ids = []\<rparr> s' = (Ok (CommitSuccess j), s')"
proof -
  let ?p = "\<lparr>cp_path = ''b.cook'', cp_deleted = False, cp_chunk_ids = []\<rparr>"
  have ids: "\<forall>i \<in> set (split_on COMMA (cp_chunk_ids ?p)). id_ok i" by (simp add: id_ok_def)
  have "server_view 1 (rows sample_server) ''b.cook'' = None" by code_simp
  then have "fst (commit_handler sample_upload_env sample_meta 1 ''u1'' ?p sample_server) =
      Ok (CommitSuccess (next_id (gap sample_meta) (map sr_id (rows sample_server))))"
    using latest_for_path_view [OF wf_sample_server, of 1 "''b.cook''"]
    by (simp add: commit_handler_def non_local_chunks_def Let_def from_payload_and_user_id_def insert_new_record_eq is_present_def)
  then obtain j s' where c: "commit_handler sample_upload_env sample_meta 1 ''u1'' ?p sample_server =
      (Ok (CommitSuccess j), s')" by (metis prod.collapse)
  with commit_idempotent [OF wf_sample_server ids c] show ?thesis by blast
qed

text \<open>Claim C15.
  The two halves of an upload fit together: after a commit was refused for missing chunks,
  storing the fields of a batch that contains them makes the same commit succeed, and the
  upload itself touches no record.
\<close>

theorem upload_enables_commit:
  assumes "wf_rows (rows s)" "\<forall>i \<in> set (split_on COMMA (cp_chunk_ids p)). id_ok i"
    and "store_ok (upload_dir x) s" "\<forall>f \<in> set fs. good_field x f"
    and "\<forall>i \<in> set (split_on COMMA (cp_chunk_ids p)).
      \<not> stored (upload_dir x) i s \<longrightarrow> (\<exists>f \<in> set fs. field_name f = Some i)"
  shows "\<exists>s1 j s2. for_each (store_field x) fs s = (Ok (), s1) \<and> rows s1 = rows s
    \<and> commit_handler x e user uid p s1 = (Ok (CommitSuccess j), s2)"
proof -
  let ?d = "upload_dir x"
  obtain s1 where s1: "for_each (store_field x) fs s = (Ok (), s1)"
    and content: "\<forall>i. content_at s1 (stored_at ?d i) =
      (case uploaded fs i of Some b \<Rightarrow> Some b | None \<Rightarrow> content_at s (stored_at ?d i))"
    and nodes: "\<forall>i. node_at s (stored_at ?d i) \<noteq> None \<longrightarrow> node_at s1 (stored_at ?d i) \<noteq> None"
    and frame: "files_only s s1"
    using stored_batch [OF assms(3,4)] by blast
  have "stored ?d i s1" if "i \<in> set (split_on COMMA (cp_chunk_ids p))" for i
  proof (cases "stored ?d i s")
    case True
    with nodes assms(2) that show ?thesis by (auto simp: stored_def id_ok_def)
  next
    case False
    with assms(5) that obtain f where "f \<in> set fs" "field_name f = Some i" by blast
    then have "i \<in> fst ` set (rev (map (\<lambda>f. (the (field_name f), concat (field_pieces f))) fs))"
      by force
    then have "uploaded fs i \<noteq> None" by (simp only: uploaded_def map_of_eq_None_iff) simp
    with content have "content_at s1 (stored_at ?d i) \<noteq> None" by (auto split: option.splits)
    then show ?thesis by (auto simp: stored_def content_at_def split: option.splits)
  qed
  then have none: "filter (\<lambda>i. \<not> stored ?d i s1) (split_on COMMA (cp_chunk_ids p)) = []"
    by (simp add: filter_empty_conv)
  obtain fl where "s1 = s\<lparr>files := fl\<rparr>" using frame unfolding files_only_def by blast
  then have rows: "rows s1 = rows s" by (cases s) simp
  show ?thesis
    using s1 rows none
    by (auto simp: commit_handler_def non_local_chunks_def missing_ids_ok [OF assms(2)] Let_def
        insert_new_record_eq split: option.splits)
qed

theorem upload_enables_commit_witness:
  "\<exists>s1 j s2. for_each (store_field sample_upload_env)
      [\<lparr>field_name = Some ''c'', field_pieces = [[5]], field_complete = True\<rparr>,
       \<lparr>field_name = Some ''ab1'', field_pieces = [], field_complete = True\<rparr>] sample_server = (Ok (), s1)
    \<and> commit_handler sample_upload_env sample_meta 1 ''u1'' sample_payload s1 = (Ok (CommitSuccess j), s2)"
proof -
  let ?fs = "[\<lparr>field_name = Some ''c'', field_pieces = [[5]], field_complete = True\<rparr>,
       \<lparr>field_name = Some ''ab1'', field_pieces = [], field_complete = True\<rparr>] :: field list"
  have "alnum ''ab1''" "alnum ''c''" by code_simp+
  then have good: "\<forall>f \<in> set ?fs. good_field sample_upload_env f"
    by (auto simp: sample_upload_env_def good_field_def)
  have "split_on COMMA (cp_chunk_ids sample_payload) = [''ab1'', ''c'']" by code_simp
  then have "\<forall>i \<in> set (split_on COMMA (cp_chunk_ids sample_payload)).
      \<not> stored (upload_dir sample_upload_env) i sample_server \<longrightarrow>
      (\<exists>f \<in> set ?fs. field_name f = Some i)" by simp
  from upload_enables_commit [OF wf_sample_server sample_ids store_ok_sample_server good this]
  show ?thesis by blast
qed

text \<open>Claim C14.
  A listing after an id is the difference between two states of the journal: when a client
  has seen the journal up to some id, and rows with larger ids have been appended since,
  then the listing after that id holds exactly the records that are current now and were
  not there before, and putting them on top of the user's old view gives the user's new
  view. Nothing is missed, and no record that has been superseded is sent.
\<close>

theorem list_is_delta:
  assumes "wf_rows (old @ new)" "\<And>xs. set (row_order e xs) = set xs"
    and "\<forall>r \<in> set old. sr_id r \<le> j" "\<forall>r \<in> set new. j < sr_id r" "rows s = old @ new"
  shows "server_view user (rows s) = server_view user old ++
      (\<lambda>p. find (\<lambda>r. sr_path r = p) (list_handler e user j s))
    \<and> (\<forall>r \<in> set (list_handler e user j s). r \<in> set new \<and> server_view user (rows s) (sr_path r) = Some r)"
proof -
  let ?new = "server_view user new" and ?l = "list_handler e user j s"
  have view: "server_view user (rows s) = server_view user old ++ ?new"
    using assms(5) by (simp add: server_view_def latest_append)
  have listed: "set ?l = {r. j < sr_id r \<and> server_view user (rows s) (sr_path r) = Some r}"
    using set_db_list [OF assms(1), of "row_order e" user j] assms(2,5) by (simp add: list_handler_def)
  have iff: "r \<in> set ?l \<longleftrightarrow> ?new (sr_path r) = Some r" for r
  proof
    assume r: "r \<in> set ?l"
    then have "j < sr_id r" "(server_view user old ++ ?new) (sr_path r) = Some r"
      unfolding listed view by simp_all
    moreover have "server_view user old (sr_path r) \<noteq> Some r"
      using \<open>j < sr_id r\<close> assms(3) server_view_SomeD(1) by fastforce
    ultimately show "?new (sr_path r) = Some r" by (auto simp: map_add_Some_iff)
  next
    assume r: "?new (sr_path r) = Some r"
    then have "r \<in> set new" by (rule server_view_SomeD)
    with r assms(4) show "r \<in> set ?l" unfolding listed view by (simp add: map_add_Some_iff)
  qed
  have find: "find (\<lambda>r. sr_path r = p) ?l = ?new p" for p
  proof (cases "?new p")
    case None
    then have "\<not> (\<exists>r \<in> set ?l. sr_path r = p)" using iff by fastforce
    with None show ?thesis by (simp add: find_None_iff)
  next
    case (Some r)
    then have p: "sr_path r = p" by (rule server_view_SomeD)
    with Some iff have "r \<in> set ?l" by simp
    with p obtain q where q: "find (\<lambda>r. sr_path r = p) ?l = Some q"
      by (cases "find (\<lambda>r. sr_path r = p) ?l") (auto simp: find_None_iff)
    then have "q \<in> set ?l" "sr_path q = p" by (auto simp: find_Some_iff)
    with iff Some q show ?thesis by simp
  qed
  have "r \<in> set new \<and> server_view user (rows s) (sr_path r) = Some r" if "r \<in> set ?l" for r
    using that iff server_view_SomeD(1) [of user new] unfolding view
    by (simp add: map_add_Some_iff)
  with view find show ?thesis by (auto simp: fun_eq_iff map_add_def split: option.splits)
qed

theorem list_is_delta_witness:
  "\<exists>s :: server. rows s = insert_records (\<lambda>_. 0)
      [\<lparr>nf_user_id = 1, nf_chunk_ids = [], nf_deleted = False, nf_path = ''a.cook''\<rparr>] (rows sample_server)
    \<and> server_view 1 (rows s) = server_view 1 (rows sample_server) ++
      (\<lambda>p. find (\<lambda>r. sr_path r = p) (list_handler sample_meta 1 1 s))"
proof -
  let ?f = "\<lparr>nf_user_id = 1, nf_chunk_ids = [], nf_deleted = False, nf_path = ''a.cook''\<rparr>"
  let ?old = "rows sample_server"
  let ?rows = "insert_records (\<lambda>_. 0) [?f] ?old"
  let ?s = "sample_server\<lparr>rows := ?rows\<rparr>"
  have r: "?rows = ?old @ [inserted_row 2 ?f]" by code_simp
  have wf: "wf_rows (?old @ [inserted_row 2 ?f])"
    unfolding r [symmetric] using wf_sample_server by (rule commits.ids_sorted_ins)
  have old: "\<forall>r \<in> set ?old. sr_id r \<le> 1" by code_simp
  have new: "\<forall>r \<in> set [inserted_row 2 ?f]. 1 < sr_id r" by code_simp
  have ord: "set (row_order sample_meta xs) = set xs" for xs by (simp add: sample_meta_def)
  have s: "rows ?s = ?old @ [inserted_row 2 ?f]" using r by simp
  from list_is_delta [OF wf ord old new s, of 1] show ?thesis
    by (intro exI [of _ ?s]) (simp add: r)
qed

text \<open>
  A user has files exactly when some path's current record is not a deletion; records of
  other users and superseded records do not count.
\<close>

theorem has_files_iff_live:
  assumes "wf_rows (rows s)"
  shows "has_files_handler user s \<longleftrightarrow>
    (\<exists>p r. server_view user (rows s) p = Some r \<and> \<not> sr_deleted r)"
  unfolding has_files_handler_def using assms by (rule db_has_files_iff)

theorem has_files_iff_live_witness: "\<not> has_files_handler 1 sample_server"
proof -
  have "server_view 1 (rows sample_server) p = None \<or>
      (\<exists>r. server_view 1 (rows sample_server) p = Some r \<and> sr_deleted r)" for p
  proof -
    have "\<forall>r \<in> set (rows sample_server). sr_deleted r" by code_simp
    then show ?thesis
      using server_view_SomeD(1) [of 1 "rows sample_server" p] by (cases "server_view 1 (rows sample_server) p") auto
  qed
  then show ?thesis using has_files_iff_live [OF wf_sample_server, of 1]
    by (metis option.discI option.inject)
qed

end
