(* ===== verification/MultipartProps.thy ===== *)
theory MultipartProps
  imports MultipartFacts
begin

text \<open>
  The properties of the batch download: the client's parser reads back what the server's
  response writes, however the network cuts it; it never depends on the cuts; what it never
  does; and where the stored chunks come from.
\<close>

section \<open>The server's response as a stream\<close>

definition chunk_file :: "'z world_scheme \<Rightarrow> string \<times> pathbuf \<Rightarrow> bytes \<Rightarrow> bool" where
  "chunk_file w c b \<longleftrightarrow> content_at w (snd c) = Some b"

lemma section_stream_body:
  assumes "list_all2 (chunk_file w) chunks contents"
  shows "whole_body (section_stream b chunks w) =
    Ok (to_bytes [CR, LF] @ after_crlf b (zip (map fst chunks) contents))"
  using assms
proof (induction rule: list_all2_induct)
  case Nil
  then show ?case by (simp add: closing_def boundary_bytes_def)
next
  case (Cons c chunks content contents)
  obtain i p where c: "c = (i, p)" by (cases c)
  with Cons.hyps(1) obtain t where "node_at w p = Some (File content t)"
    by (auto simp: chunk_file_def content_at_def split: option.splits node.splits)
  then have "open_file p w = (Ok (File content t), w)" by (simp add: open_file_def)
  with Cons c show ?case
    by (simp add: reader_stream_def section_header_eq part_bytes_def)
qed

lemma boundary_of_content_type:
  assumes "alnum b"
  shows "nth_opt (split_str ''boundary='' (''multipart/mixed; boundary='' @ b)) 1 = Some b"
proof -
  have "\<not> sublist ''boundary='' (''multipart/mixed; '' @ butlast ''boundary='')" by code_simp
  from split_str_at [OF _ this, of b]
  have "split_str ''boundary='' (''multipart/mixed; '' @ ''boundary='' @ b) =
    ''multipart/mixed; '' # split_str ''boundary='' b" by simp
  moreover have "\<not> sublist ''boundary='' b"
  proof
    assume "sublist ''boundary='' b"
    then have "CHR ''='' \<in> set b" by (auto simp: sublist_def)
    with alnum_notin(1) [OF assms, of "CHR ''=''"] show False
      by (simp add: is_ascii_alphanumeric_def)
  qed
  then have "split_str ''boundary='' b = [b]" by (rule split_str_absent)
  ultimately show ?thesis by simp
qed

text \<open>The client on the server's response, in whatever pieces its body arrives.\<close>

lemma batch_response_of:
  assumes "alnum (mm_boundary m)" "\<forall>c \<in> set (mm_chunks m). alnum (fst c)"
    and "list_all2 (chunk_file w) (mm_chunks m) contents"
    and "\<forall>b \<in> set contents. \<not> sublist (boundary_bytes (mm_boundary m)) b"
    and "whole_body items = whole_body (resp_body (multipart_response m w))"
  shows "batch_response h ((multipart_response m w)\<lparr>resp_body := items\<rparr>) =
    (zip (map fst (mm_chunks m)) contents, Ok ())"
proof -
  let ?b = "mm_boundary m" and ?cs = "zip (map fst (mm_chunks m)) contents"
  have cs: "\<forall>c \<in> set ?cs. alnum (fst c) \<and> \<not> sublist (boundary_bytes ?b) (snd c)"
  proof
    fix c assume "c \<in> set ?cs"
    then have "(fst c, snd c) \<in> set ?cs" by simp
    from set_zip_leftD [OF this] set_zip_rightD [OF this] assms(2,4) show "alnum (fst c) \<and> \<not> sublist (boundary_bytes ?b) (snd c)" by auto
  qed
  have ne: "boundary_bytes ?b \<noteq> []" by (simp add: boundary_bytes_def)
  have whole: "whole_body items = Ok (to_bytes [CR, LF] @ after_crlf ?b ?cs)"
    using assms(5) section_stream_body [OF assms(3), of ?b] by (simp add: multipart_response_def)
  then obtain pieces where items: "items = map Data pieces"
    and body: "concat pieces = to_bytes [CR, LF] @ after_crlf ?b ?cs"
    using whole_body_OkD by metis
  have "drain (boundary_bytes ?b) (concat pieces) =
      (?cs, Ok (if ?cs = [] then to_bytes [CR, LF] @ after_crlf ?b [] else after_crlf ?b []))"
    unfolding body by (rule drain_body [OF assms(1) cs])
  then have "parse_stream (boundary_bytes ?b) (map Data pieces) [] = (?cs, Ok ())"
    using parse_stream_concat [OF ne extract_nothing [OF ne], of pieces] by simp
  then show ?thesis
    unfolding items
    using boundary_of_content_type [OF assms(1)]
    by (simp add: batch_response_def multipart_response_def boundary_bytes_def)
qed

section \<open>Samples\<close>

definition sample_http :: "unit http" where
  "sample_http =
     \<lparr>send = (\<lambda>r. throw (SendFailed ''offline'')), header_ok = (\<lambda>_. True),
      status_text = (\<lambda>_. ''?''), form_encode = (\<lambda>_. []), parse_records = (\<lambda>_. Err ''json''),
      parse_commit = (\<lambda>_. Err ''json''), show_int = (\<lambda>_. ''0''), pkg_version = ''0''\<rparr>"

definition sample_store :: world where
  "sample_store =
     \<lparr>files = [(components ''./upload'' @ [Normal ''a'', Normal ''b'', Normal ''ab1''],
                 File [1, 13, 10, 45, 45, 2] (Timestamp 1 0)),
               (components ''./upload'' @ [Normal ''c'', Normal ''d'', Normal ''cd''],
                 File [] (Timestamp 1 0))],
      dir_meta = (\<lambda>_. (0, Timestamp 0 0)), clock = Timestamp 2 0\<rparr>"

section \<open>Properties\<close>

text \<open>Claim C2.
  The client's hand-written parser against the server's response: when the requested chunks
  are stored, ids and boundary are alphanumeric and no chunk contains the boundary line,
  then whatever pieces the network cuts the response body into, the client yields exactly
  the requested ids with the stored contents, in the order of the request, and no error.
\<close>

theorem download_roundtrip:
  assumes "alnum (mm_boundary m)" "\<forall>c \<in> set (mm_chunks m). alnum (fst c)"
    and "list_all2 (chunk_file w) (mm_chunks m) contents"
    and "\<forall>b \<in> set contents. \<not> sublist (boundary_bytes (mm_boundary m)) b"
    and "whole_body (resp_body (multipart_response m w)) = Ok (concat pieces)"
  shows "batch_response h ((multipart_response m w)\<lparr>resp_body := map Data pieces\<rparr>) =
    (zip (map fst (mm_chunks m)) contents, Ok ())"
  using assms batch_response_of [of m w contents "map Data pieces"] by simp

theorem download_roundtrip_witness:
  "\<exists>m. download_chunks
       \<lparr>upload_dir = None, multer = (\<lambda>_ _. []), parse_boundary = (\<lambda>_. None),
        form_decode = (\<lambda>_. Some [(''chunk_ids[]'', ''ab1''), (''k'', ''cd'')]),
        write_fails = (\<lambda>_ _. False)\<rparr>
       (\<lambda>_. CHR ''x'') ''application/x-www-form-urlencoded'' [] = Ok m
    \<and> batch_response sample_http ((multipart_response m sample_store)
         \<lparr>resp_body := map (\<lambda>b. Data [b])
            (to_bytes [CR, LF] @ after_crlf (replicate 15 CHR ''x'')
               [(''ab1'', [1, 13, 10, 45, 45, 2]), (''cd'', [])])\<rparr>) =
      ([(''ab1'', [1, 13, 10, 45, 45, 2]), (''cd'', [])], Ok ())"
proof -
  let ?m = "\<lparr>mm_boundary = replicate 15 CHR ''x'',
      mm_chunks = [(''ab1'', components ''./upload'' @ [Normal ''a'', Normal ''b'', Normal ''ab1'']),
                   (''cd'', components ''./upload'' @ [Normal ''c'', Normal ''d'', Normal ''cd''])]\<rparr>"
  let ?cs = "[[1, 13, 10, 45, 45, 2], []] :: bytes list"
  let ?body = "to_bytes [CR, LF] @ after_crlf (replicate 15 CHR ''x'') (zip [''ab1'', ''cd''] ?cs)"
  have d: "download_chunks
       \<lparr>upload_dir = None, multer = (\<lambda>_ _. []), parse_boundary = (\<lambda>_. None),
        form_decode = (\<lambda>_. Some [(''chunk_ids[]'', ''ab1''), (''k'', ''cd'')]),
        write_fails = (\<lambda>_ _. False)\<rparr>
       (\<lambda>_. CHR ''x'') ''application/x-www-form-urlencoded'' [] = Ok ?m" by code_simp
  have a: "alnum (mm_boundary ?m)" "\<forall>c \<in> set (mm_chunks ?m). alnum (fst c)" by code_simp+
  have f: "list_all2 (chunk_file sample_store) (mm_chunks ?m) ?cs" by code_simp
  have n: "\<forall>b \<in> set ?cs. \<not> sublist (boundary_bytes (mm_boundary ?m)) b" by code_simp
  have "whole_body (resp_body (multipart_response ?m sample_store)) = Ok ?body"
    using section_stream_body [OF f] by (simp add: multipart_response_def)
  then have "whole_body (resp_body (multipart_response ?m sample_store)) =
      Ok (concat (map (\<lambda>b. [b]) ?body))" by (simp only: concat_map_singleton list.map_ident)
  from download_roundtrip [OF a f n this, of sample_http] d show ?thesis
    by (intro exI [of _ ?m]) (simp add: comp_def)
qed

text \<open>Claim C17.
  For any boundary line and any byte stream, well-formed or not: the items the client
  yields, and the way the download ends (success, error or panic), depend only on the bytes
  received, not on how they were cut into pieces. If the connection breaks after some
  pieces, the items yielded are a prefix of those the whole stream would have yielded.
\<close>

theorem parse_ignores_cuts:
  assumes "bd \<noteq> []" "concat pieces = concat pieces'"
  shows "parse_stream bd (map Data pieces) [] = parse_stream bd (map Data pieces') []
    \<and> prefix (fst (parse_stream bd (map Data pieces @ [Broken e]) []))
             (fst (parse_stream bd (map Data (pieces' @ rest)) []))"
proof -
  have same: "parse_stream bd (map Data pieces) [] = parse_stream bd (map Data pieces') []"
    using parse_stream_concat [OF assms(1) extract_nothing [OF assms(1)]] assms(2) by simp
  have step: "fst (parse_stream bd (Data c # r) buf) =
      (case drain bd (buf @ c) of (items, Ok left) \<Rightarrow> items @ fst (parse_stream bd r left)
       | (items, _) \<Rightarrow> items)" for c r buf
    by (simp split: prod.splits res.splits)
  have broken: "fst (parse_stream bd (map Data cs @ [Broken e]) buf) =
      fst (parse_stream bd (map Data cs) buf)" for cs buf
    by (induction cs arbitrary: buf) (simp, simp only: list.map append_Cons step)
  have longer: "prefix (fst (parse_stream bd (map Data cs) buf))
      (fst (parse_stream bd (map Data (cs @ rest)) buf))" for cs buf
    by (induction cs arbitrary: buf)
       (simp, simp only: list.map append_Cons step, simp split: prod.splits res.splits)
  show ?thesis
    using same broken [of pieces "[]"] longer [of pieces' "[]"] by simp
qed

theorem parse_ignores_cuts_witness:
  "parse_stream (to_bytes ''--b'') [Data [45], Data [45, 98]] [] =
   parse_stream (to_bytes ''--b'') [Data [45, 45, 98]] []"
  using parse_ignores_cuts [of "to_bytes ''--b''" "[[45], [45, 98]]" "[[45, 45, 98]]"] by simp

end
