(* ===== verification/Hosting.thy ===== *)
theory Hosting
  imports Server Landing MetadataProps MultipartProps
begin

text \<open>
  The client against the server of this repository: \<open>linked\<close> says that what the client sends
  reaches \<open>serve\<close> and that the crates on the two sides read what the other wrote; under it
  the server keeps every law of \<open>sync_service\<close>, which is interpreted here.
\<close>

section \<open>What links the two programs\<close>

text \<open>
  A request for a path below the endpoint is served, and its answer comes back with its body
  in any pieces.
\<close>

definition relayed :: "server http \<Rightarrow> string \<Rightarrow> server_env \<Rightarrow> bool" where
  "relayed h base E \<longleftrightarrow>
     (\<forall>rq p s. req_url rq = base @ p \<longrightarrow>
        (\<exists>items. whole_body items = whole_body (resp_body (fst (serve E (rq\<lparr>req_url := p\<rparr>) s))) \<and>
           send h rq s =
             (Ok ((fst (serve E (rq\<lparr>req_url := p\<rparr>) s))\<lparr>resp_body := items\<rparr>),
              snd (serve E (rq\<lparr>req_url := p\<rparr>) s))))"

text \<open>The characters of a UUID's text.\<close>

definition uuid_text :: "string \<Rightarrow> bool" where
  "uuid_text u \<longleftrightarrow> list_all (\<lambda>c. is_ascii_alphanumeric c \<or> c = CHR ''-'') u"

definition upload_boundary :: "string \<Rightarrow> string" where
  "upload_boundary u = replicate 24 CHR ''-'' @ u"

definition field_is :: "field \<Rightarrow> string \<times> bytes \<Rightarrow> bool" where
  "field_is f c \<longleftrightarrow> field_name f = Some (fst c) \<and> concat (field_pieces f) = snd c \<and> field_complete f"

text \<open>
  The multipart crate: from a whole body of well-formed sections whose contents do not
  contain the delimiter it yields these sections.
\<close>

definition delimiter :: "string \<Rightarrow> bytes" where
  "delimiter b = to_bytes ([CR, LF] @ ''--'' @ b)"

definition multer_reads :: "store_env \<Rightarrow> bool" where
  "multer_reads x \<longleftrightarrow>
     (\<forall>u cs items. uuid_text u \<longrightarrow> (\<forall>(k, d) \<in> set cs. alnum k \<and> \<not> sublist (delimiter (upload_boundary u)) d) \<longrightarrow>
        whole_body items = Ok (upload_body (upload_boundary u) cs) \<longrightarrow>
        list_all2 field_is (multer x (upload_boundary u) items) cs) \<and>
     (\<forall>u. uuid_text u \<longrightarrow>
        parse_boundary x (''multipart/form-data; boundary='' @ upload_boundary u) = Some (upload_boundary u))"

definition to_commit_result :: "commit_status \<Rightarrow> commit_result" where
  "to_commit_result c = (case c of CommitSuccess i \<Rightarrow> Success i | CommitNeedChunks ks \<Rightarrow> NeedChunks ks)"

definition to_response_record :: "server_record \<Rightarrow> response_record" where
  "to_response_record r =
     \<lparr>rr_id = sr_id r, rr_path = sr_path r, rr_deleted = sr_deleted r, rr_chunk_ids = sr_chunk_ids r\<rparr>"

text \<open>The encodings: forms, query strings and JSON are read back as they were written.\<close>

definition commit_form_body :: "'srv http \<Rightarrow> string \<Rightarrow> bool \<Rightarrow> string \<Rightarrow> bytes" where
  "commit_form_body h p del ids =
     form_encode h [(''deleted'', if del then ''true'' else ''false''), (''chunk_ids'', ids), (''path'', p)]"

definition download_form_body :: "'srv http \<Rightarrow> string list \<Rightarrow> bytes" where
  "download_form_body h ks = form_encode h (map (\<lambda>i. (''chunk_ids[]'', i)) ks)"

definition codecs :: "server http \<Rightarrow> remote \<Rightarrow> server_env \<Rightarrow> bool" where
  "codecs h r E \<longleftrightarrow>
     (\<forall>p del ids. commit_form E (commit_form_body h p del ids) =
        Some \<lparr>cp_path = p, cp_deleted = del, cp_chunk_ids = ids\<rparr>) \<and>
     (\<forall>ks. utf8_ok (download_form_body h ks) \<and>
        form_decode (store E) (download_form_body h ks) = Some (map (\<lambda>i. (''chunk_ids[]'', i)) ks)) \<and>
     (\<forall>c. parse_commit h (json_commit E c) = Ok (to_commit_result c)) \<and>
     (\<forall>rs. parse_records h (json_list E rs) = Ok (map to_response_record rs)) \<and>
     (\<forall>j. list_query E (''jid='' @ show_int h j) = Some j) \<and>
     commit_query E (''uuid='' @ uuid r) \<noteq> None \<and>
     (\<forall>v. list_all visible v \<longrightarrow> header_ok h v) \<and>
     multer_reads (store E)"

text \<open>The token is one the server accepts for the user; the engine and the disk do their part.\<close>

definition linked :: "server_env \<Rightarrow> int \<Rightarrow> server sync_env \<Rightarrow> bool" where
  "linked E user e \<longleftrightarrow>
     relayed (http e) (api_endpoint (remote_client e)) E \<and>
     codecs (http e) (remote_client e) E \<and>
     list_all visible (''Bearer '' @ token (remote_client e)) \<and>
     snd (entitled_user_from_parts (auth E) (Some (''Bearer '' @ token (remote_client e)))) = Ok user \<and>
     (\<forall>p n. \<not> write_fails (store E) p n) \<and>
     (\<forall>xs. mset (row_order (meta E) xs) = mset xs) \<and>
     (\<forall>rq. alnum (map (draw E rq) [0..<BOUNDARY_LEN]))"

definition server_ok :: "server_env \<Rightarrow> server \<Rightarrow> bool" where
  "server_ok E s \<longleftrightarrow> wf_rows (rows s) \<and> (\<forall>r \<in> set (rows s). 0 < sr_id r) \<and> store_ok (upload_dir (store E)) s"

definition hosted :: "server_env \<Rightarrow> int \<Rightarrow> server sync_env \<Rightarrow> server \<Rightarrow> bool" where
  "hosted E user e s \<longleftrightarrow> linked E user e \<and> server_ok E s"

definition chunk_at :: "server_env \<Rightarrow> server \<Rightarrow> string \<Rightarrow> bytes option" where
  "chunk_at E s i = (if i = [] then None else content_at s (stored_at (upload_dir (store E)) i))"

definition record_of :: "int \<Rightarrow> server \<Rightarrow> string \<Rightarrow> (int \<times> bool \<times> string) option" where
  "record_of user s p =
     map_option (\<lambda>r. (sr_id r, sr_deleted r, sr_chunk_ids r)) (server_view user (rows s) p)"

text \<open>What the server's limits and its random boundary allow.\<close>

definition commit_fits :: "server sync_env \<Rightarrow> string \<Rightarrow> bool \<Rightarrow> string \<Rightarrow> bool" where
  "commit_fits e p del ids \<longleftrightarrow> length (commit_form_body (http e) p del ids) \<le> FORM_LIMIT"

definition batch_fits :: "server sync_env \<Rightarrow> string \<Rightarrow> (string \<times> bytes) list \<Rightarrow> bool" where
  "batch_fits e u b \<longleftrightarrow> uuid_text u \<and> length (upload_body (upload_boundary u) b) \<le> DATA_FORM_LIMIT \<and>
     (\<forall>(k, d) \<in> set b. \<not> sublist (delimiter (upload_boundary u)) d)"

definition download_fits :: "server_env \<Rightarrow> server sync_env \<Rightarrow> server \<Rightarrow> string list \<Rightarrow> bool" where
  "download_fits E e s ks \<longleftrightarrow> length (download_form_body (http e) ks) \<le> FORM_LIMIT \<and>
     (\<forall>k \<in> set ks. \<forall>rq b. chunk_at E s k = Some b \<longrightarrow>
        \<not> sublist (boundary_bytes (map (draw E rq) [0..<BOUNDARY_LEN])) b)"

section \<open>Requests on their way\<close>

lemma header_names:
  "\<not> eq_ignore_ascii_case ''user-agent'' ''Authorization''"
  "\<not> eq_ignore_ascii_case ''x-client-version'' ''Authorization''"
  "eq_ignore_ascii_case ''authorization'' ''Authorization''"
  "\<not> eq_ignore_ascii_case ''user-agent'' ''Content-Type''"
  "\<not> eq_ignore_ascii_case ''x-client-version'' ''Content-Type''"
  "\<not> eq_ignore_ascii_case ''authorization'' ''Content-Type''"
  "eq_ignore_ascii_case ''content-type'' ''Content-Type''"
  by code_simp+

lemma authorization_read:
  "list_all visible v \<Longrightarrow> req_headers rq = default_headers h @ (''authorization'', v) # hs \<Longrightarrow>
    header_text ''Authorization'' rq = Some v"
  by (simp add: header_text_def default_headers_def header_names)

lemma content_type_read:
  "list_all visible t \<Longrightarrow>
    req_headers rq = default_headers h @ [(''authorization'', v), (''content-type'', t)] \<Longrightarrow>
    raw_content_type rq = t"
  by (simp add: raw_content_type_def header_text_def default_headers_def header_names)

lemma entitled_linked:
  assumes "linked E user e"
    "req_headers rq = default_headers h @ (''authorization'', ''Bearer '' @ token (remote_client e)) # hs"
  shows "entitled E rq s = (Ok user, s)"
proof -
  let ?v = "''Bearer '' @ token (remote_client e)"
  have v: "list_all visible ?v" using assms(1) unfolding linked_def by blast
  have "snd (entitled_user_from_parts (auth E) (Some ?v)) = Ok user"
    using assms(1) unfolding linked_def by blast
  then show ?thesis unfolding entitled_def authorization_read [OF v assms(2)] by (simp add: ret_apply)
qed

lemma auth_headers_linked:
  assumes "linked E user e"
  shows "auth_headers (http e) (remote_client e) s =
    (Ok [(''authorization'', ''Bearer '' @ token (remote_client e))], s)"
proof -
  have "list_all visible (''Bearer '' @ token (remote_client e))" using assms unfolding linked_def by blast
  moreover have "list_all visible v \<longrightarrow> header_ok (http e) v" for v
    using assms unfolding linked_def codecs_def by blast
  ultimately show ?thesis by (simp add: auth_headers_def Let_def ret_apply)
qed

text \<open>One exchange: the request as it arrives, and a 200 for an answer.\<close>

definition arriving :: "'srv http \<Rightarrow> request \<Rightarrow> string \<Rightarrow> request" where
  "arriving h rq p = rq\<lparr>req_headers := default_headers h @ req_headers rq, req_url := p\<rparr>"

lemma arriving_fields [simp]:
  "req_headers (arriving h rq p) = default_headers h @ req_headers rq"
  "req_url (arriving h rq p) = p" "req_method (arriving h rq p) = req_method rq"
  "req_body (arriving h rq p) = req_body rq"
  by (simp_all add: arriving_def)

lemma served:
  assumes "split_query (req_url rq) = (p, q)" "route_of p = Some (req_method rq, r)"
    "handle E r q rq s = (Ok resp, s')" "resp_status resp = 200"
  shows "serve E rq s = (resp, s')"
  using assms by (simp add: serve_def default_error_pages_def is_error_status_def)

lemma exchange:
  assumes "linked E user e"
    and "req_url rq = api_endpoint (remote_client e) @ p"
    and "split_query p = (p', q)" "route_of p' = Some (req_method rq, r)"
    and "handle E r q (arriving (http e) rq p) s = (Ok resp, s')" "resp_status resp = 200"
  shows "\<exists>items. whole_body items = whole_body (resp_body resp) \<and>
    send_request (http e) rq s = (Ok (resp\<lparr>resp_body := items\<rparr>), s')"
proof -
  let ?rq = "rq\<lparr>req_headers := default_headers (http e) @ req_headers rq\<rparr>"
  have url: "req_url ?rq = api_endpoint (remote_client e) @ p" using assms(2) by simp
  have rq: "?rq\<lparr>req_url := p\<rparr> = arriving (http e) rq p" by (simp add: arriving_def)
  have srv: "serve E (arriving (http e) rq p) s = (resp, s')"
    using assms(3-6) by (intro served) simp_all
  have "relayed (http e) (api_endpoint (remote_client e)) E" using assms(1) unfolding linked_def by blast
  from this [unfolded relayed_def, rule_format, OF url, of s, unfolded rq srv] obtain items where
    "whole_body items = whole_body (resp_body resp)" "send (http e) ?rq s = (Ok (resp\<lparr>resp_body := items\<rparr>), s')"
    by auto
  then show ?thesis by (auto simp: send_request_def map_err_def)
qed

lemma query_split: "CHR ''?'' \<notin> set p \<Longrightarrow> split_query (p @ CHR ''?'' # q) = (p, q)"
  unfolding split_query_def split_on_append_sep
  by (simp add: join_split_on)

lemma no_query_split: "CHR ''?'' \<notin> set p \<Longrightarrow> split_query p = (p, [])"
  by (simp add: split_query_def split_on_no_sep)

lemma form_type: "list_all visible URLENCODED_FORM"
  by code_simp

lemma form_header: "FORM_HEADER = (''content-type'', URLENCODED_FORM)"
  by (simp add: FORM_HEADER_def URLENCODED_FORM_def)

lemma paths_routed:
  "split_query (''/metadata/commit?uuid='' @ u) = (''/metadata/commit'', ''uuid='' @ u)"
  "route_of ''/metadata/commit'' = Some (POST, Commit)"
  "split_query (''/metadata/list?jid='' @ u) = (''/metadata/list'', ''jid='' @ u)"
  "route_of ''/metadata/list'' = Some (GET, Listing)"
  "split_query ''/chunks/upload'' = (''/chunks/upload'', [])"
  "route_of ''/chunks/upload'' = Some (POST, Upload)"
  "split_query ''/chunks/download'' = (''/chunks/download'', [])"
  "route_of ''/chunks/download'' = Some (POST, Download)"
  using query_split [of "''/metadata/commit''" "''uuid='' @ u"]
    query_split [of "''/metadata/list''" "''jid='' @ u"]
    no_query_split [of "''/chunks/upload''"] no_query_split [of "''/chunks/download''"]
  by (simp_all add: route_of_def)

section \<open>Commits\<close>

lemma commas [simp]: "Metadata.COMMA = Syncer.COMMA"
  by (simp add: Metadata.COMMA_def Syncer.COMMA_def)

lemma chunk_at_stored:
  assumes "server_ok E s" "id_ok i"
  shows "stored (upload_dir (store E)) i s \<longleftrightarrow> i = [] \<or> chunk_at E s i \<noteq> None"
proof (cases "i = []")
  case False
  with assms(2) have "alnum i" by (simp add: id_ok_def)
  with assms(1) have "node_at s (stored_at (upload_dir (store E)) i) \<noteq> Some Dir"
    by (simp add: server_ok_def store_ok_def writable_def)
  with False show ?thesis
    by (auto simp: stored_def chunk_at_def content_at_def split: option.splits node.splits)
qed (simp add: stored_def)

lemma commit_route_runs:
  assumes "entitled E rq s = (Ok user, s)" "commit_query E q = Some c"
    "raw_content_type rq = URLENCODED_FORM" "length (req_body rq) \<le> FORM_LIMIT"
    "commit_form E (req_body rq) = Some pl"
    "commit_handler (store E) (meta E) user c pl s = (Ok st, s')"
  shows "handle E Commit q rq s = (Ok (json_response (json_commit E st)), s')"
  using assms
  by (simp add: handle_def commit_route_def and_then_def query_def ret_apply form_def buffered_def
      map_err_def)

lemma linked_relay:
  assumes "linked E user e"
  shows "codecs (http e) (remote_client e) E" "multer_reads (store E)"
    "\<not> write_fails (store E) p n" "mset (row_order (meta E) xs) = mset xs"
    "alnum (map (draw E rq) [0..<BOUNDARY_LEN])"
  using assms unfolding linked_def codecs_def by blast+

lemma commit_served:
  assumes "linked E user e" "commit_fits e p del ids"
    "\<And>c. commit_handler (store E) (meta E) user c \<lparr>cp_path = p, cp_deleted = del, cp_chunk_ids = ids\<rparr> s = (Ok st, f c)"
  shows "\<exists>c. commit (http e) (remote_client e) p del ids s = (Ok (to_commit_result st), f c)"
proof -
  let ?h = "http e" and ?r = "remote_client e"
  let ?rq = "\<lparr>req_method = POST, req_url = api_endpoint ?r @ ''/metadata/commit'' @ ''?uuid='' @ uuid ?r,
      req_headers = [(''authorization'', ''Bearer '' @ token ?r)] @ [FORM_HEADER],
      req_body = commit_form_body ?h p del ids\<rparr>"
  let ?p = "''/metadata/commit?uuid='' @ uuid ?r"
  obtain c where c: "commit_query E (''uuid='' @ uuid ?r) = Some c"
    using linked_relay(1) [OF assms(1)] unfolding codecs_def by blast
  have form: "commit_form E (commit_form_body ?h p del ids) =
      Some \<lparr>cp_path = p, cp_deleted = del, cp_chunk_ids = ids\<rparr>"
    and json: "parse_commit ?h (json_commit E st) = Ok (to_commit_result st)"
    using linked_relay(1) [OF assms(1)] unfolding codecs_def by blast+
  have run: "handle E Commit (''uuid='' @ uuid ?r) (arriving ?h ?rq ?p) s =
      (Ok (json_response (json_commit E st)), f c)"
  proof (rule commit_route_runs [OF _ c _ _ _ assms(3)])
    show "entitled E (arriving ?h ?rq ?p) s = (Ok user, s)"
      by (rule entitled_linked [OF assms(1), of _ ?h "[FORM_HEADER]"]) simp
    show "raw_content_type (arriving ?h ?rq ?p) = URLENCODED_FORM"
      by (rule content_type_read [OF form_type, of _ ?h "''Bearer '' @ token ?r"]) (simp add: form_header)
    show "length (req_body (arriving ?h ?rq ?p)) \<le> FORM_LIMIT"
      "commit_form E (req_body (arriving ?h ?rq ?p)) = Some \<lparr>cp_path = p, cp_deleted = del, cp_chunk_ids = ids\<rparr>"
      using assms(2) form by (simp_all add: commit_fits_def)
  qed
  have url: "req_url ?rq = api_endpoint ?r @ ?p" and meth: "req_method ?rq = POST" by simp_all
  from exchange [OF assms(1) url paths_routed(1) _ run] obtain items where items:
    "whole_body items = Ok (json_commit E st)"
    "send_request ?h ?rq s = (Ok ((json_response (json_commit E st))\<lparr>resp_body := items\<rparr>), f c)"
    unfolding meth paths_routed(2) by (auto simp: json_response_def)
  have "commit ?h ?r p del ids s = (Ok (to_commit_result st), f c)"
    unfolding commit_def and_then_Ok_eq [OF auth_headers_linked [OF assms(1)]]
      commit_form_body_def [symmetric] and_then_Ok_eq [of "send_request ?h ?rq", OF items(2)]
    by (simp add: by_status_def json_response_def json_def items(1) map_err_def lift_res_def json)
  then show ?thesis by blast
qed

lemma commit_keeps_law:
  assumes "hosted E user e s" "commit_fits e p del ids"
    "\<forall>i \<in> set (split_on COMMA ids). i = [] \<or> alnum i"
  shows "if \<forall>i \<in> set (split_on COMMA ids) - {[]}. chunk_at E s i \<noteq> None
    then \<exists>j s'. commit (http e) (remote_client e) p del ids s = (Ok (Success j), s') \<and>
      hosted E user e s' \<and> chunk_at E s' = chunk_at E s \<and>
      record_of user s' = (record_of user s)(p \<mapsto> (j, del, ids))
    else commit (http e) (remote_client e) p del ids s =
      (Ok (NeedChunks (join_with [COMMA]
        (filter (\<lambda>i. i \<noteq> [] \<and> chunk_at E s i = None) (split_on COMMA ids)))), s)"
proof -
  let ?ids = "split_on COMMA ids" and ?i = "next_id (gap (meta E)) (map sr_id (rows s))"
  let ?pl = "\<lparr>cp_path = p, cp_deleted = del, cp_chunk_ids = ids\<rparr>"
  let ?r = "inserted_row ?i (from_payload_and_user_id ?pl user)"
  let ?new = "\<lambda>c. s\<lparr>rows := rows s @ [?r], notifier := notify c (notifier s)\<rparr>"
  from assms(1) have l: "linked E user e" and ok: "server_ok E s" by (simp_all add: hosted_def)
  then have wf: "wf_rows (rows s)" by (simp add: server_ok_def)
  have ids: "\<forall>i \<in> set ?ids. id_ok i" using assms(3) by (simp add: id_ok_def)
  have missing: "filter (\<lambda>i. \<not> stored (upload_dir (store E)) i s) ?ids =
      filter (\<lambda>i. i \<noteq> [] \<and> chunk_at E s i = None) ?ids"
    using ids chunk_at_stored [OF ok] by (intro filter_cong) auto
  have local: "non_local_chunks (upload_dir (store E)) ?pl s =
      (Ok (filter (\<lambda>i. i \<noteq> [] \<and> chunk_at E s i = None) ?ids) :: (chunk_error, string list) res)"
    using missing_ids_ok [OF ids] unfolding missing [symmetric] by (simp add: non_local_chunks_def)
  note handler = commit_handler_def local Let_def from_payload_and_user_id_def
    latest_for_path_view [OF wf] insert_new_record_eq
  show ?thesis
  proof (cases "\<forall>i \<in> set ?ids - {[]}. chunk_at E s i \<noteq> None")
    case False
    then have "filter (\<lambda>i. i \<noteq> [] \<and> chunk_at E s i = None) ?ids \<noteq> []"
      by (auto simp: filter_empty_conv)
    then have "commit_handler (store E) (meta E) user c ?pl s =
        (Ok (CommitNeedChunks (join_with [COMMA]
          (filter (\<lambda>i. i \<noteq> [] \<and> chunk_at E s i = None) ?ids))), s)" for c
      by (simp add: handler)
    from commit_served [OF l assms(2) this] False show ?thesis
      by (auto simp: to_commit_result_def)
  next
    case True
    then have none: "filter (\<lambda>i. i \<noteq> [] \<and> chunk_at E s i = None) ?ids = []"
      by (auto simp: filter_empty_conv)
    have "\<exists>j s'. commit (http e) (remote_client e) p del ids s = (Ok (Success j), s') \<and>
      hosted E user e s' \<and> chunk_at E s' = chunk_at E s \<and>
      record_of user s' = (record_of user s)(p \<mapsto> (j, del, ids))"
    proof (cases "\<exists>old. server_view user (rows s) p = Some old \<and> sr_chunk_ids old = ids \<and> sr_deleted old = del")
      case True
      then obtain old where old: "server_view user (rows s) p = Some old"
        "sr_chunk_ids old = ids" "sr_deleted old = del" by blast
      then have "commit_handler (store E) (meta E) user c ?pl s = (Ok (CommitSuccess (sr_id old)), s)" for c
        by (simp add: handler none)
      from commit_served [OF l assms(2) this]
      have "commit (http e) (remote_client e) p del ids s = (Ok (Success (sr_id old)), s)"
        by (auto simp: to_commit_result_def)
      moreover have "record_of user s = (record_of user s)(p \<mapsto> (sr_id old, del, ids))"
        using old by (auto simp: record_of_def fun_eq_iff)
      ultimately show ?thesis using assms(1) by blast
    next
      case False
      then have "commit_handler (store E) (meta E) user c ?pl s = (Ok (CommitSuccess ?i), ?new c)" for c
        by (auto simp: handler none split: option.splits)
      from commit_served [OF l assms(2) this] obtain c where
        run: "commit (http e) (remote_client e) p del ids s = (Ok (Success ?i), ?new c)"
        by (auto simp: to_commit_result_def)
      have r: "sr_id ?r = ?i" "sr_user_id ?r = user" "sr_path ?r = p" "sr_chunk_ids ?r = ids"
        "sr_deleted ?r = del" by (simp_all add: inserted_row_def from_payload_and_user_id_def)
      have node: "node_at (?new c) = node_at s" by (simp add: node_at_def fun_eq_iff)
      then have "store_ok d (?new c) = store_ok d s" for d
        by (simp add: store_ok_def wf_world_def writable_def makeable_def dir_at_def)
      moreover have "wf_rows (rows s @ [?r])"
        using wf r(1) next_id_above [of _ "map sr_id (rows s)"]
        by (auto simp: ids_sorted_def sorted_wrt_append)
      ultimately have "server_ok E (?new c)"
        using ok r(1) next_id_pos by (auto simp: server_ok_def)
      moreover have "chunk_at E (?new c) = chunk_at E s"
        using node by (simp add: chunk_at_def content_at_def fun_eq_iff)
      moreover have "record_of user (?new c) = (record_of user s)(p \<mapsto> (?i, del, ids))"
        using r by (auto simp: record_of_def server_view_def fun_eq_iff)
      ultimately show ?thesis using run l unfolding hosted_def by blast
    qed
    then show ?thesis unfolding if_P [OF True] .
  qed
qed

section \<open>Listings\<close>

lemma list_route_runs:
  assumes "entitled E rq s = (Ok user, s)" "list_query E q = Some j"
  shows "handle E Listing q rq s = (Ok (json_response (json_list E (list_handler (meta E) user j s))), s)"
  using assms by (simp add: handle_def list_route_def and_then_def query_def ret_apply)

lemma list_served:
  assumes "linked E user e"
  shows "list_records (http e) (remote_client e) j s =
    (Ok (map to_response_record (list_handler (meta E) user j s)), s)"
proof -
  let ?h = "http e" and ?r = "remote_client e" and ?rs = "list_handler (meta E) user j s"
  let ?rq = "\<lparr>req_method = GET, req_url = api_endpoint ?r @ ''/metadata/list?jid='' @ show_int ?h j,
      req_headers = [(''authorization'', ''Bearer '' @ token ?r)], req_body = []\<rparr>"
  let ?p = "''/metadata/list?jid='' @ show_int ?h j"
  have q: "list_query E (''jid='' @ show_int ?h j) = Some j"
    and json: "parse_records ?h (json_list E ?rs) = Ok (map to_response_record ?rs)"
    using linked_relay(1) [OF assms] unfolding codecs_def by blast+
  have run: "handle E Listing (''jid='' @ show_int ?h j) (arriving ?h ?rq ?p) s =
      (Ok (json_response (json_list E ?rs)), s)"
    by (rule list_route_runs [OF entitled_linked [OF assms, of _ ?h "[]"] q]) simp
  have url: "req_url ?rq = api_endpoint ?r @ ?p" and meth: "req_method ?rq = GET" by simp_all
  from exchange [OF assms url paths_routed(3) _ run] obtain items where items:
    "whole_body items = Ok (json_list E ?rs)"
    "send_request ?h ?rq s = (Ok ((json_response (json_list E ?rs))\<lparr>resp_body := items\<rparr>), s)"
    unfolding meth paths_routed(4) by (auto simp: json_response_def)
  show ?thesis
    unfolding list_records_def and_then_Ok_eq [OF auth_headers_linked [OF assms]]
      and_then_Ok_eq [of "send_request ?h ?rq", OF items(2)]
    by (simp add: by_status_def json_response_def json_def items(1) map_err_def lift_res_def json)
qed

lemma list_keeps_law:
  assumes "hosted E user e s"
  shows "\<exists>ds. list_records (http e) (remote_client e) after s = (Ok ds, s) \<and> distinct (map rr_path ds) \<and>
    set ds = {d. record_of user s (rr_path d) = Some (rr_id d, rr_deleted d, rr_chunk_ids d) \<and> after < rr_id d}"
proof -
  let ?rs = "list_handler (meta E) user after s"
  from assms have l: "linked E user e" and wf: "wf_rows (rows s)"
    by (simp_all add: hosted_def server_ok_def)
  note perm = linked_relay(4) [OF l]
  have order: "set (row_order (meta E) xs) = set xs" for xs using perm by (metis set_mset_mset)
  have rs: "set ?rs = {r. after < sr_id r \<and> server_view user (rows s) (sr_path r) = Some r}"
    unfolding list_handler_def by (rule set_db_list [OF wf order])
  have "distinct (rows s)" using wf by (auto simp: ids_sorted_def strict_sorted_iff distinct_map)
  then have "distinct ?rs"
    unfolding list_handler_def db_list_def Let_def using perm
    by (metis distinct_filter mset_eq_imp_distinct_iff)
  moreover have "inj_on sr_path (set ?rs)" unfolding rs by (rule inj_onI) auto
  ultimately have dis: "distinct (map sr_path ?rs)" by (simp add: distinct_map)
  have "to_response_record ` {r. after < sr_id r \<and> server_view user (rows s) (sr_path r) = Some r} =
    {d. record_of user s (rr_path d) = Some (rr_id d, rr_deleted d, rr_chunk_ids d) \<and> after < rr_id d}"
    (is "?L = ?R")
  proof (intro equalityI subsetI)
    fix d assume "d \<in> ?R"
    then obtain r where r: "server_view user (rows s) (rr_path d) = Some r" "rr_id d = sr_id r"
      "rr_deleted d = sr_deleted r" "rr_chunk_ids d = sr_chunk_ids r" "after < sr_id r"
      by (auto simp: record_of_def)
    have "sr_path r = rr_path d" using server_view_SomeD(2) [OF r(1)] .
    with r have "d = to_response_record r" by (simp add: to_response_record_def)
    with r \<open>sr_path r = rr_path d\<close> show "d \<in> ?L" by auto
  qed (auto simp: record_of_def to_response_record_def)
  moreover have "rr_path \<circ> to_response_record = sr_path"
    by (simp add: to_response_record_def fun_eq_iff)
  ultimately show ?thesis
    using list_served [OF l, of after s] dis rs
    by (intro exI [of _ "map to_response_record ?rs"]) simp
qed

section \<open>Uploads\<close>

lemma upload_route_runs:
  assumes "entitled E rq s = (Ok user, s)"
    "upload_chunks (store E) (raw_content_type rq) [Data (req_body rq)] s = (Ok (), s')"
  shows "handle E Upload q rq s = (Ok (plain_response 200), s')"
  using assms by (simp add: handle_def upload_route_def and_then_def ret_apply map_err_def)

lemma uuid_text_visible: "uuid_text u \<Longrightarrow> list_all visible u"
  by (auto simp: uuid_text_def list_all_iff visible_def is_ascii_alphanumeric_def Let_def)

lemma upload_content_type:
  assumes "uuid_text u"
  shows "list_all visible (''multipart/form-data; boundary='' @ upload_boundary u)"
proof -
  have "list_all visible ''multipart/form-data; boundary=''" "visible CHR ''-''" by code_simp+
  then show ?thesis
    using uuid_text_visible [OF assms] by (simp add: upload_boundary_def list_all_iff)
qed

lemma whole_capped:
  assumes "length b \<le> limit"
  shows "whole_body (capped_data_stream limit 0 [Data b]) = Ok b"
  using assms by (simp add: Let_def)

lemma files_only_server:
  assumes "files_only s (s' :: 'z server_scheme)"
  shows "rows s' = rows s" "notifier s' = notifier s"
proof -
  have "rows (s\<lparr>files := files s'\<rparr>) = rows s" "notifier (s\<lparr>files := files s'\<rparr>) = notifier s"
    by (cases s; simp)+
  with assms show "rows s' = rows s" "notifier s' = notifier s"
    unfolding files_only_def by metis+
qed

lemma uploaded_fields:
  assumes "list_all2 field_is fs b"
  shows "uploaded fs = map_of (rev b)"
proof -
  have "map (\<lambda>f. (the (field_name f), concat (field_pieces f))) fs = b"
    using assms by (induction rule: list_all2_induct) (auto simp: field_is_def)
  then show ?thesis by (simp add: uploaded_def)
qed

lemma good_fields:
  assumes "list_all2 field_is fs b" "\<forall>(k, d) \<in> set b. alnum k" "\<And>p n. \<not> write_fails x p n"
  shows "\<forall>f \<in> set fs. good_field x f"
  using assms(1,2)
  by (induction rule: list_all2_induct) (auto simp: good_field_def field_is_def assms(3))

lemma upload_keeps_law:
  assumes "hosted E user e s" "batch_fits e u b" "\<forall>(k, d) \<in> set b. alnum k"
  shows "\<exists>s'. upload_batch (http e) (remote_client e) u b s = (Ok (), s') \<and> hosted E user e s' \<and>
    record_of user s' = record_of user s \<and>
    (\<forall>i. chunk_at E s' i = (case map_of (rev b) i of Some d \<Rightarrow> Some d | None \<Rightarrow> chunk_at E s i))"
proof -
  let ?h = "http e" and ?r = "remote_client e" and ?d = "upload_dir (store E)"
  let ?t = "''multipart/form-data; boundary='' @ upload_boundary u"
  let ?rq = "\<lparr>req_method = POST, req_url = api_endpoint ?r @ ''/chunks/upload'',
      req_headers = [(''authorization'', ''Bearer '' @ token ?r)] @ [(''content-type'', ?t)],
      req_body = upload_body (upload_boundary u) b\<rparr>"
  let ?fs = "multer (store E) (upload_boundary u)
      (capped_data_stream DATA_FORM_LIMIT 0 [Data (upload_body (upload_boundary u) b)])"
  from assms(1) have l: "linked E user e" and ok: "server_ok E s" by (simp_all add: hosted_def)
  from assms(2) have u: "uuid_text u" "length (upload_body (upload_boundary u) b) \<le> DATA_FORM_LIMIT"
    and sep: "\<forall>(k, d) \<in> set b. alnum k \<and> \<not> sublist (delimiter (upload_boundary u)) d"
    using assms(3) by (auto simp: batch_fits_def)
  note multer = linked_relay(2) [OF l, unfolded multer_reads_def]
  have fs: "list_all2 field_is ?fs b"
    using multer u(1) sep whole_capped [OF u(2)] by blast
  have pb: "parse_boundary (store E) ?t = Some (upload_boundary u)" using multer u(1) by blast
  have "\<forall>f \<in> set ?fs. good_field (store E) f"
    by (rule good_fields [OF fs assms(3) linked_relay(3) [OF l]])
  with ok stored_batch [of "store E" s ?fs] obtain s' where s':
    "for_each (store_field (store E)) ?fs s = (Ok (), s')" "store_ok ?d s'"
    "\<forall>i. content_at s' (stored_at ?d i) =
      (case uploaded ?fs i of Some b \<Rightarrow> Some b | None \<Rightarrow> content_at s (stored_at ?d i))"
    "files_only s s'" by (auto simp: server_ok_def)
  have hs: "req_headers (arriving ?h ?rq ''/chunks/upload'') =
      default_headers ?h @ [(''authorization'', ''Bearer '' @ token ?r), (''content-type'', ?t)]"
    unfolding arriving_fields by simp
  have ct: "raw_content_type (arriving ?h ?rq ''/chunks/upload'') = ?t"
    by (rule content_type_read [OF upload_content_type [OF u(1)] hs])
  have "prefix MULTIPART_FORM_DATA ''multipart/form-data; boundary=''" by code_simp
  then have pre: "prefix MULTIPART_FORM_DATA ?t" by (rule prefix_prefix)
  have run: "handle E Upload [] (arriving ?h ?rq ''/chunks/upload'') s = (Ok (plain_response 200), s')"
  proof (rule upload_route_runs [OF entitled_linked [OF l hs]])
    show "upload_chunks (store E) (raw_content_type (arriving ?h ?rq ''/chunks/upload''))
        [Data (req_body (arriving ?h ?rq ''/chunks/upload''))] s = (Ok (), s')"
      unfolding ct upload_chunks_def using pre pb s'(1) by (simp only: arriving_fields) simp
  qed
  have url: "req_url ?rq = api_endpoint ?r @ ''/chunks/upload''" and meth: "req_method ?rq = POST" by simp_all
  from exchange [OF l url paths_routed(5) _ run] obtain items where items:
    "send_request ?h ?rq s = (Ok ((plain_response 200)\<lparr>resp_body := items\<rparr>), s')"
    unfolding meth paths_routed(6) by (auto simp: plain_response_def)
  have hdr: "header_ok ?h ?t"
    using linked_relay(1) [OF l] upload_content_type [OF u(1)] unfolding codecs_def by blast
  then have up: "upload_batch ?h ?r u b s = (Ok (), s')"
    unfolding upload_batch_def Let_def and_then_Ok_eq [OF auth_headers_linked [OF l]]
      upload_boundary_def [symmetric]
    by (simp only: hdr simp_thms if_False and_then_Ok_eq [of "send_request ?h ?rq", OF items])
       (simp add: by_status_def plain_response_def ret_apply)
  have rows: "rows s' = rows s" using files_only_server [OF s'(4)] by simp
  then have "server_ok E s'" using ok s'(2) by (simp add: server_ok_def)
  moreover have "record_of user s' = record_of user s" using rows by (simp add: record_of_def fun_eq_iff)
  moreover have "chunk_at E s' i = (case map_of (rev b) i of Some d \<Rightarrow> Some d | None \<Rightarrow> chunk_at E s i)" for i
  proof (cases "i = []")
    case True
    with assms(3) have "map_of (rev b) i = None"
      by (auto simp: map_of_eq_None_iff alnum_def)
    with True show ?thesis by (simp add: chunk_at_def)
  next
    case False
    then show ?thesis
      using s'(3) [rule_format, of i] unfolding uploaded_fields [OF fs] by (simp only: chunk_at_def if_False)
  qed
  ultimately show ?thesis using up l unfolding hosted_def by blast
qed

section \<open>Downloads\<close>

lemma download_route_runs:
  assumes "entitled E rq s = (Ok user, s)" "length (req_body rq) \<le> FORM_LIMIT" "utf8_ok (req_body rq)"
    "download_chunks (store E) (draw E rq) (raw_content_type rq) (req_body rq) = Ok m"
  shows "handle E Download q rq s = (Ok (multipart_response m s), s)"
  using assms
  by (simp add: handle_def download_route_def and_then_def ret_apply text_body_def buffered_def
      map_err_def lift_res_def)

lemma chunk_paths_alnum:
  "\<forall>k \<in> set ks. alnum k \<Longrightarrow> chunk_paths x (map (\<lambda>i. (key, i)) ks) =
    Ok (map (\<lambda>k. (k, stored_at (upload_dir x) k)) ks)"
  by (induction ks) (simp_all add: file_path_alnum)

lemma zip_map_same: "zip ks (map f ks) = map (\<lambda>k. (k, f k)) ks"
  by (induction ks) simp_all

lemma download_keeps_law:
  assumes "hosted E user e s" "download_fits E e s ks" "\<forall>k \<in> set ks. alnum k \<and> chunk_at E s k \<noteq> None"
  shows "download_batch (http e) (remote_client e) ks s =
    (Ok (map (\<lambda>k. (k, the (chunk_at E s k))) ks, Ok ()), s)"
proof -
  let ?h = "http e" and ?r = "remote_client e" and ?d = "upload_dir (store E)"
  let ?rq = "\<lparr>req_method = POST, req_url = api_endpoint ?r @ ''/chunks/download'',
      req_headers = [(''authorization'', ''Bearer '' @ token ?r)] @ [FORM_HEADER],
      req_body = download_form_body ?h ks\<rparr>"
  let ?srv = "arriving ?h ?rq ''/chunks/download''"
  let ?m = "new_random (draw E ?srv) (map (\<lambda>k. (k, stored_at ?d k)) ks)"
  let ?cs = "map (\<lambda>k. the (chunk_at E s k)) ks"
  from assms(1) have l: "linked E user e" by (simp add: hosted_def)
  have form: "utf8_ok (download_form_body ?h ks)"
    "form_decode (store E) (download_form_body ?h ks) = Some (map (\<lambda>i. (''chunk_ids[]'', i)) ks)"
    using linked_relay(1) [OF l] unfolding codecs_def by blast+
  have hs: "req_headers ?srv = default_headers ?h @
      [(''authorization'', ''Bearer '' @ token ?r), (''content-type'', URLENCODED_FORM)]"
    unfolding arriving_fields by (simp add: form_header)
  have ct: "raw_content_type ?srv = URLENCODED_FORM" by (rule content_type_read [OF form_type hs])
  have al: "\<forall>k \<in> set ks. alnum k" using assms(3) by blast
  have run: "handle E Download [] ?srv s = (Ok (multipart_response ?m s), s)"
  proof (rule download_route_runs [OF entitled_linked [OF l hs]])
    show "length (req_body ?srv) \<le> FORM_LIMIT" "utf8_ok (req_body ?srv)"
      using assms(2) form(1) by (simp_all add: download_fits_def)
    show "download_chunks (store E) (draw E ?srv) (raw_content_type ?srv) (req_body ?srv) = Ok ?m"
      unfolding ct download_chunks_def arriving_fields(4)
      by (simp add: requested_chunks_def form(2) chunk_paths_alnum [OF al])
  qed
  have url: "req_url ?rq = api_endpoint ?r @ ''/chunks/download''" and meth: "req_method ?rq = POST" by simp_all
  from exchange [OF l url paths_routed(7) _ run] obtain items where items:
    "whole_body items = whole_body (resp_body (multipart_response ?m s))"
    "send_request ?h ?rq s = (Ok ((multipart_response ?m s)\<lparr>resp_body := items\<rparr>), s)"
    unfolding meth paths_routed(8) by (auto simp: multipart_response_def)
  have stored: "content_at s (stored_at ?d k) = Some (the (chunk_at E s k))" if "k \<in> set ks" for k
    using assms(3) that by (auto simp: chunk_at_def split: if_splits)
  have "batch_response ?h ((multipart_response ?m s)\<lparr>resp_body := items\<rparr>) =
      (zip (map fst (mm_chunks ?m)) ?cs, Ok ())"
  proof (rule batch_response_of [OF _ _ _ _ items(1)])
    show "alnum (mm_boundary ?m)" using linked_relay(5) [OF l] by (simp add: new_random_def)
    show "\<forall>c \<in> set (mm_chunks ?m). alnum (fst c)" using al by (simp add: new_random_def)
    show "list_all2 (chunk_file s) (mm_chunks ?m) ?cs"
      using stored by (simp add: new_random_def list_all2_map1 list_all2_map2 list_all2_same chunk_file_def)
    show "\<forall>b \<in> set ?cs. \<not> sublist (boundary_bytes (mm_boundary ?m)) b"
      using assms(2,3) by (fastforce simp: download_fits_def new_random_def)
  qed
  moreover have "zip (map fst (mm_chunks ?m)) ?cs = map (\<lambda>k. (k, the (chunk_at E s k))) ks"
    by (simp add: new_random_def comp_def zip_map_same)
  ultimately have "batch_response ?h ((multipart_response ?m s)\<lparr>resp_body := items\<rparr>) =
      (map (\<lambda>k. (k, the (chunk_at E s k))) ks, Ok ())" by (simp only:)
  then show ?thesis
    unfolding download_batch_def and_then_Ok_eq [OF auth_headers_linked [OF l]]
      download_form_body_def [symmetric] and_then_Ok_eq [of "send_request ?h ?rq", OF items(2)]
    by (simp add: ret_apply)
qed

section \<open>The interpretation\<close>

lemma record_of_positive:
  assumes "hosted E user e s" "record_of user s p = Some (j, del, ids)"
  shows "0 < j"
  using assms server_view_SomeD(1) [of user "rows s" p]
  by (auto simp: hosted_def server_ok_def record_of_def)

interpretation served: sync_service "hosted E user" "\<lambda>e. chunk_at E" "\<lambda>e. record_of user"
    commit_fits batch_fits "download_fits E"
  for E user
  by unfold_locales
     (fact commit_keeps_law upload_keeps_law list_keeps_law download_keeps_law record_of_positive)+

end
