(* ===== verification/EndToEnd.thy ===== *)
theory EndToEnd
  imports Hosting
begin

text \<open>
  Client and server together: an upload to this server leaves nothing waiting, and what one
  client has uploaded another one downloads, file for file.
\<close>

section \<open>What a run needs\<close>

text \<open>The client's side: its files can be read, its requests are within the server's limits.\<close>

definition sendable :: "server sync_env \<Rightarrow> 'z client_scheme \<Rightarrow> server \<Rightarrow> bool" where
  "sendable e c v \<longleftrightarrow> digest_ok (ext e) \<and> no_eviction (ext e) = ext e \<and> wf_table (records c) \<and>
     (\<forall>f \<in> set (updated_locally (namespace e) (records c)).
        uploadable (ext e) c f \<and> commit_fits e (path f) (deleted f) (commit_ids (ext e) c f)) \<and>
     batches_fit batch_fits e c v"

text \<open>No id stands for two contents, among what is stored and what the client can send.\<close>

definition no_clash :: "server_env \<Rightarrow> server sync_env \<Rightarrow> 'z client_scheme \<Rightarrow> server \<Rightarrow> bool" where
  "no_clash E e c v \<longleftrightarrow>
     (let held = (\<lambda>i d. chunk_at E v i = Some d \<or>
            known (ext e) c (set (updated_locally (namespace e) (records c))) i d) in
      \<forall>i d d'. held i d \<longrightarrow> held i d' \<longrightarrow> d = d')"

text \<open>The server's records name chunks it has.\<close>

definition complete :: "server_env \<Rightarrow> int \<Rightarrow> server \<Rightarrow> bool" where
  "complete E user s \<longleftrightarrow> all_stored (chunk_at E s) (news (record_of user s) 0)"

section \<open>An upload\<close>

lemma run_upload_once_eq:
  assumes "check_index_once w (id_gap e) (namespace e) c0 = (Ok b, c)"
  shows "run_upload_once w e (c0, v) = upload_passes e (c, v)"
  using assms by (simp add: run_upload_once_def upload_passes_def and_then_def on_client_def)

lemma committed_content:
  assumes "digest_ok x" "\<not> deleted f" "uploadable x c f" "no_eviction x = x"
    and "\<forall>k \<in> needs x c f. \<exists>d. st k = Some d \<and> (\<forall>d'. known x c F k d' \<longrightarrow> d' = d)" "f \<in> F"
  shows "Some (stored_content st (split_on COMMA (commit_ids x c f))) = content_at c (full_path c (path f))"
proof -
  let ?n = "hash_size_of (path f)"
  from assms(2,3) obtain b where b: "content_at c (full_path c (path f)) = Some b"
    by (auto simp: uploadable_def)
  have st: "st (chunk_id x ?n d) = Some d" "chunk_id x ?n d \<noteq> []" if d: "d \<in> set (chunk_list x c f)" for d
  proof -
    from d have "chunk_id x ?n d \<in> needs x c f" unfolding needs_eq [OF assms(1)] by blast
    moreover have "known x c F (chunk_id x ?n d) d"
      using d assms(2,6) unfolding known_def by blast
    ultimately show "st (chunk_id x ?n d) = Some d" using assms(5) by fastforce
    show "chunk_id x ?n d \<noteq> []" using chunk_id_is_alnum [OF assms(1)] by (metis alnum_def)
  qed
  have "stored_content st (split_on COMMA (commit_ids x c f)) =
      concat (map (\<lambda>k. if k = [] then [] else the (st k)) (id_list x c f))"
    by (simp add: stored_content_def split_commit_ids(1) [OF assms(1)])
  also have "\<dots> = concat (chunk_list x c f)"
    using assms(2) st by (simp add: id_list_def comp_def cong: map_cong)
  also have "\<dots> = b" using assms(2) b by (simp add: chunk_list_def)
  finally show ?thesis using b by simp
qed

lemma complete_kept:
  assumes "complete E user v" "hosted E user e v" "digest_ok (ext e)"
    and "\<forall>f \<in> F. \<exists>j. record_of user v' (path f) = Some (j, deleted f, commit_ids (ext e) c f) \<and>
      (\<forall>k \<in> needs (ext e) c f. chunk_at E v' k \<noteq> None)"
    and "\<forall>p. p \<notin> path ` F \<longrightarrow> record_of user v' p = record_of user v p"
    and "\<forall>i d. chunk_at E v i = Some d \<and> i \<notin> \<Union> (needs (ext e) c ` F) \<longrightarrow> chunk_at E v' i = Some d"
  shows "complete E user v'"
  unfolding complete_def all_stored_def
proof (intro ballI impI)
  fix d k
  assume d: "d \<in> news (record_of user v') 0" "\<not> rr_deleted d" and k: "k \<in> set (record_ids d)"
  have rec: "record_of user v' (rr_path d) = Some (rr_id d, rr_deleted d, rr_chunk_ids d)"
    using d(1) by (simp add: news_def)
  have have_k: "chunk_at E v' i \<noteq> None" if "chunk_at E v i \<noteq> None" for i
    using that assms(4,6) by (cases "i \<in> \<Union> (needs (ext e) c ` F)") auto
  show "k = [] \<or> (alnum k \<and> chunk_at E v' k \<noteq> None)"
  proof (cases "rr_path d \<in> path ` F")
    case True
    then obtain f where f: "f \<in> F" "path f = rr_path d" by auto
    with assms(4) rec have "rr_chunk_ids d = commit_ids (ext e) c f" by force
    with k have "k \<in> set (split_on COMMA (commit_ids (ext e) c f))" by (simp add: record_ids_def)
    then have "k = [] \<or> (alnum k \<and> k \<in> needs (ext e) c f)"
      using split_commit_ids(2) [OF assms(3)] unfolding needs_def by blast
    with assms(4) f(1) show ?thesis by blast
  next
    case False
    with assms(5) rec have "record_of user v (rr_path d) = Some (rr_id d, rr_deleted d, rr_chunk_ids d)"
      by simp
    with d(1) have "d \<in> news (record_of user v) 0" by (simp add: news_def)
    with assms(1) d(2) k have "k = [] \<or> (alnum k \<and> chunk_at E v k \<noteq> None)"
      unfolding complete_def all_stored_def by blast
    with have_k show ?thesis by blast
  qed
qed

text \<open>What an upload to this server has done.\<close>

lemma uploaded_to_server:
  assumes "hosted E user e v" "sendable e c v"
    and "complete E user v" "no_clash E e c v"
  shows "\<exists>c' v'. upload_passes e (c, v) = (Ok (), (c', v')) \<and> tree_kept c c' \<and> hosted E user e v' \<and>
    complete E user v' \<and> wf_table (records c') \<and> updated_locally (namespace e) (records c') = [] \<and>
    (\<forall>f \<in> set (updated_locally (namespace e) (records c)). \<exists>j ids.
      record_of user v' (path f) = Some (j, deleted f, ids) \<and> 0 < j \<and>
      registry_view (namespace e) (records c') (path f) = Some (f\<lparr>jid := Some j\<rparr>) \<and>
      (\<not> deleted f \<longrightarrow> Some (stored_content (chunk_at E v') (split_on COMMA ids)) =
        content_at c (full_path c (path f)))) \<and>
    (\<forall>p. p \<notin> path ` set (updated_locally (namespace e) (records c)) \<longrightarrow>
      record_of user v' p = record_of user v p)"
proof -
  let ?F = "set (updated_locally (namespace e) (records c))"
  from assms(2) have s: "digest_ok (ext e)" "no_eviction (ext e) = ext e" "wf_table (records c)"
    "\<forall>f \<in> ?F. uploadable (ext e) c f \<and> commit_fits e (path f) (deleted f) (commit_ids (ext e) c f)"
    "batches_fit batch_fits e c v" by (simp_all add: sendable_def)
  from served.upload_passes_sync [OF assms(1) s] obtain c' v' where
    r: "upload_passes e (c, v) = (Ok (), (c', v'))" "tree_kept c c'" "hosted E user e v'"
    "wf_table (records c')" "updated_locally (namespace e) (records c') = []"
    "\<forall>f \<in> ?F. \<exists>j. record_of user v' (path f) = Some (j, deleted f, commit_ids (ext e) c f) \<and>
      registry_view (namespace e) (records c') (path f) = Some (f\<lparr>jid := Some j\<rparr>) \<and>
      (\<forall>k \<in> needs (ext e) c f. chunk_at E v' k \<noteq> None)"
    "\<forall>p. p \<notin> path ` ?F \<longrightarrow> record_of user v' p = record_of user v p"
    "\<forall>i d. chunk_at E v i = Some d \<and> i \<notin> \<Union> (needs (ext e) c ` ?F) \<longrightarrow> chunk_at E v' i = Some d"
    "\<forall>i d. chunk_at E v' i = Some d \<longrightarrow> chunk_at E v i = Some d \<or> known (ext e) c ?F i d" by blast
  have compl: "complete E user v'"
    by (rule complete_kept [OF assms(3,1) s(1) _ r(7,8)]) (use r(6) in blast)
  have content: "Some (stored_content (chunk_at E v') (split_on COMMA (commit_ids (ext e) c f))) =
      content_at c (full_path c (path f))" if f: "f \<in> ?F" "\<not> deleted f" for f
  proof (rule committed_content [OF s(1) f(2) _ s(2) _ f(1)])
    show "uploadable (ext e) c f" using s(4) f(1) by blast
    show "\<forall>k \<in> needs (ext e) c f. \<exists>d. chunk_at E v' k = Some d \<and> (\<forall>d'. known (ext e) c ?F k d' \<longrightarrow> d' = d)"
    proof
      fix k assume "k \<in> needs (ext e) c f"
      with r(6) f(1) obtain d where d: "chunk_at E v' k = Some d" by blast
      with r(9) have "chunk_at E v k = Some d \<or> known (ext e) c ?F k d" by blast
      with assms(4) d show "\<exists>d. chunk_at E v' k = Some d \<and> (\<forall>d'. known (ext e) c ?F k d' \<longrightarrow> d' = d)"
        unfolding no_clash_def Let_def by blast
    qed
  qed
  have "\<exists>j ids. record_of user v' (path f) = Some (j, deleted f, ids) \<and> 0 < j \<and>
      registry_view (namespace e) (records c') (path f) = Some (f\<lparr>jid := Some j\<rparr>) \<and>
      (\<not> deleted f \<longrightarrow> Some (stored_content (chunk_at E v') (split_on COMMA ids)) =
        content_at c (full_path c (path f)))" if f: "f \<in> ?F" for f
  proof -
    from r(6) f obtain j where j: "record_of user v' (path f) = Some (j, deleted f, commit_ids (ext e) c f)"
      "registry_view (namespace e) (records c') (path f) = Some (f\<lparr>jid := Some j\<rparr>)" by blast
    with record_of_positive [OF r(3) j(1)] content [OF f] show ?thesis by blast
  qed
  with r(1-5,7) compl show ?thesis by (intro exI [of _ c'] exI [of _ v'] conjI) blast+
qed

section \<open>A download\<close>

definition fetchable :: "server_env \<Rightarrow> int \<Rightarrow> server sync_env \<Rightarrow> 'z client_scheme \<Rightarrow> server \<Rightarrow> bool" where
  "fetchable E user e c v \<longleftrightarrow> digest_ok (ext e) \<and> no_eviction (ext e) = ext e \<and> 0 \<le> latest_local e c \<and>
     (let D = news (record_of user v) (latest_local e c) in
      room_for c (chunk_at E v) D \<and>
      (\<forall>ds. distinct ds \<longrightarrow> set ds = D \<longrightarrow> fetch_fits (download_fits E) (chunk_at E v) e ds c v))"

lemma downloaded_from_server:
  assumes "hosted E user e v" "complete E user v" "fetchable E user e c v"
  shows "\<exists>ds c'. check_download_once e (c, v) = (Ok (ds \<noteq> []), (c', v)) \<and>
    set ds = news (record_of user v) (latest_local e c) \<and>
    (\<forall>d \<in> set ds. received e c c' (chunk_at E v) d) \<and>
    (\<forall>q. q \<notin> (full_path c \<circ> rr_path) ` set ds \<longrightarrow> file_at c' q = file_at c q) \<and>
    (\<forall>m p. m \<noteq> namespace e \<or> p \<notin> rr_path ` set ds \<longrightarrow>
       registry_view m (records c') p = registry_view m (records c) p) \<and>
    (wf_table (records c) \<longrightarrow> wf_table (records c')) \<and> base_path c' = base_path c \<and>
    news (record_of user v) (latest_local e c') = {}"
proof -
  from assms(3) have f: "digest_ok (ext e)" "no_eviction (ext e) = ext e" "0 \<le> latest_local e c"
    "room_for c (chunk_at E v) (news (record_of user v) (latest_local e c))"
    "\<forall>ds. distinct ds \<longrightarrow> set ds = news (record_of user v) (latest_local e c) \<longrightarrow>
      fetch_fits (download_fits E) (chunk_at E v) e ds c v"
    unfolding fetchable_def Let_def by blast+
  have "all_stored (chunk_at E v) (news (record_of user v) (latest_local e c))"
    using assms(2) f(3) by (fastforce simp: complete_def all_stored_def news_def)
  from served.download_pass [OF assms(1) f(1,2,4) this f(5)] show ?thesis .
qed

text \<open>With nothing new, a pass only looks.\<close>

lemma nothing_new:
  assumes "hosted E user e v" "digest_ok (ext e)" "no_eviction (ext e) = ext e"
    and "news (record_of user v) (latest_local e c) = {}"
  shows "\<exists>c'. check_download_once e (c, v) = (Ok False, (c', v))"
proof -
  have "room_for c (chunk_at E v) {}" "all_stored (chunk_at E v) {}"
    "\<forall>ds. distinct ds \<longrightarrow> set ds = {} \<longrightarrow> fetch_fits (download_fits E) (chunk_at E v) e ds c v"
    by (simp_all add: room_for_def all_stored_def fetch_fits_def ret_apply)
  from served.download_pass [OF assms(1-3) this [folded assms(4)]] show ?thesis
    unfolding assms(4) by (metis set_empty)
qed

end
