(* ===== verification/Samples.thy ===== *)
theory Samples
  imports ChunkerFacts
begin

text \<open>
  Concrete instances the witness theorems evaluate: external functions (a stand-in digest
  built from the length and the sum of the bytes, full reads, no eviction) and a small
  storage directory with one file. None of the properties depends on them.
\<close>

definition sample_externals :: externals where
  "sample_externals =
     \<lparr>sha256 = (\<lambda>d. of_nat (length d) # sum_list d # replicate 30 0),
      evicted = (\<lambda>_ _. False), read_size = (\<lambda>_. 2), kept_on_drop = length\<rparr>"

definition sample_base :: pathbuf where
  "sample_base = [RootDir, Normal ''r'']"

definition sample_chunker :: chunker where
  "sample_chunker =
     \<lparr>files = [([RootDir], Dir), (sample_base, Dir),
               (sample_base @ [Normal ''d''], Dir),
               (sample_base @ [Normal ''d'', Normal ''a.cook''],
                 File [97, 10, 98] (Timestamp 5 0))],
      dir_meta = (\<lambda>_. (0, Timestamp 0 0)), clock = Timestamp 7 3,
      base_path = sample_base, cache = Map.empty, inserts = 0\<rparr>"

lemma digest_ok_sample: "digest_ok sample_externals"
  by (simp add: digest_ok_def sample_externals_def)

lemma no_eviction_sample [simp]: "no_eviction sample_externals = sample_externals"
  by (simp add: no_eviction_def sample_externals_def)

lemma plain_sample: "plain_path ''d/a.cook''"
  by code_simp

lemma listed_sample: "listed ''d/a.cook''"
  by code_simp

lemma full_path_sample:
  "full_path sample_chunker ''d/a.cook'' = sample_base @ [Normal ''d'', Normal ''a.cook'']"
  by code_simp

lemma content_sample:
  "content_at sample_chunker (full_path sample_chunker ''d/a.cook'') = Some [97, 10, 98]"
  by code_simp

lemma chunks_sample:
  "chunks_of sample_externals t ''d/a.cook'' [97, 10, 98] = [[97, 10], [98]]"
proof -
  have "is_text (components ''d/a.cook'')" by code_simp
  moreover have "text_chunks [97, 10, 98] = [[97, 10], [98]]" by code_simp
  ultimately show ?thesis by (simp add: chunks_of_def)
qed

lemma hash_size_sample: "hash_size_of ''d/a.cook'' = 10"
  by code_simp

lemma ids_sample:
  "chunk_id sample_externals 10 [97, 10] = ''026b000000''"
  "chunk_id sample_externals 10 [98] = ''0162000000''"
  by code_simp+

lemma wf_sample: "wf_world sample_chunker"
proof -
  have "\<forall>(p, n) \<in> set (files sample_chunker). p \<noteq> [] \<and> dir_at sample_chunker (butlast p)"
    by code_simp
  then show ?thesis
    by (auto simp: wf_world_def node_at_def dest!: map_of_SomeD)
qed

text \<open>The sample directory after its file has been hashed.\<close>

definition sample_hashed :: chunker where
  "sample_hashed = snd (hashify sample_externals ''d/a.cook'' sample_chunker)"

lemma save_hashed_ok:
  "fst (save sample_externals ''e/b.cook'' [''0162000000'', ''026b000000''] sample_hashed) = Ok ()"
  by code_simp

lemma writable_hashed: "writable sample_hashed (full_path sample_hashed ''e/b.cook'')"
proof -
  have "makeable sample_hashed (butlast (full_path sample_hashed ''e/b.cook''))"
    unfolding makeable_code by code_simp
  moreover have "full_path sample_hashed ''e/b.cook'' \<noteq> []
      \<and> last (full_path sample_hashed ''e/b.cook'') \<noteq> RootDir
      \<and> node_at sample_hashed (full_path sample_hashed ''e/b.cook'') \<noteq> Some Dir"
    by code_simp
  ultimately show ?thesis by (simp add: writable_def)
qed

lemma writable_hashed_old: "writable sample_hashed (full_path sample_hashed ''d/a.cook'')"
proof -
  have "makeable sample_hashed (butlast (full_path sample_hashed ''d/a.cook''))"
    unfolding makeable_code by code_simp
  moreover have "full_path sample_hashed ''d/a.cook'' \<noteq> []
      \<and> last (full_path sample_hashed ''d/a.cook'') \<noteq> RootDir
      \<and> node_at sample_hashed (full_path sample_hashed ''d/a.cook'') \<noteq> Some Dir"
    by code_simp
  ultimately show ?thesis by (simp add: writable_def)
qed

end
