(* ===== verification/Loopback.thy ===== *)
theory Loopback
  imports EndToEnd Samples
begin

text \<open>
  One concrete instance of everything \<open>linked\<close> asks for: a transport that calls the server
  directly, a text encoding for forms and answers that is read back exactly, and a parser of
  multipart bodies. The crates of the program do the same with other encodings; this instance
  shows that what is asked of them can hold, and the samples run on it.
\<close>

section \<open>A text encoding of tables of strings\<close>

definition hex_char :: "char \<Rightarrow> string" where
  "hex_char c = (let n = of_char c in [char_of (65 + n div 16 :: nat), char_of (65 + n mod 16 :: nat)])"

fun hex_read :: "string \<Rightarrow> string" where
  "hex_read (a # b # r) = char_of ((of_char a - 65) * 16 + (of_char b - 65) :: nat) # hex_read r"
| "hex_read _ = []"

definition AMP :: char where "AMP = CHR 0x26"
definition EQUALS :: char where "EQUALS = CHR 0x3D"

definition pack :: "string list list \<Rightarrow> string" where
  "pack xss = join_with [AMP] (map (\<lambda>xs. join_with [EQUALS] (map (\<lambda>s. concat (map hex_char s)) xs)) ([[]] # xss))"

definition unpack :: "string \<Rightarrow> string list list" where
  "unpack s = tl (map (\<lambda>t. map hex_read (split_on EQUALS t)) (split_on AMP s))"

lemma div_mod_16: "n < 256 \<Longrightarrow> n div 16 < 16 \<and> n mod 16 < (16 :: nat)"
  by (simp add: less_mult_imp_div_less)

lemma hex_read_concat [simp]: "hex_read (concat (map hex_char s)) = s"
proof (induction s)
  case (Cons c s)
  have n: "(of_char c :: nat) < 256" by simp
  then have "(of_char c :: nat) div 16 < 16" "(of_char c :: nat) mod 16 < 16"
    using div_mod_16 by blast+
  then have "(of_char (char_of (65 + of_char c div 16 :: nat)) :: nat) = 65 + of_char c div 16"
    "(of_char (char_of (65 + of_char c mod 16 :: nat)) :: nat) = 65 + of_char c mod 16"
    by (simp_all add: of_char_of)
  with Cons show ?case by (simp add: hex_char_def Let_def)
qed simp

lemma hex_chars:
  assumes "x \<in> set (concat (map hex_char s))"
  shows "65 \<le> (of_char x :: nat) \<and> (of_char x :: nat) < 81"
proof -
  from assms obtain c where c: "x \<in> set (hex_char c)" by auto
  have "(of_char c :: nat) < 256" by simp
  then have "(of_char c :: nat) div 16 < 16" "(of_char c :: nat) mod 16 < 16"
    using div_mod_16 by blast+
  with c show ?thesis by (auto simp: hex_char_def Let_def of_char_of)
qed

lemma set_join_with: "set (join_with sep ps) \<subseteq> set sep \<union> \<Union> (set ` set ps)"
  by (induction sep ps rule: join_with.induct) auto

lemma pack_line:
  "x \<in> set (join_with [EQUALS] (map (\<lambda>s. concat (map hex_char s)) xs)) \<Longrightarrow>
    x = EQUALS \<or> (65 \<le> (of_char x :: nat) \<and> (of_char x :: nat) < 81)"
  using set_join_with [of "[EQUALS]" "map (\<lambda>s. concat (map hex_char s)) xs"] hex_chars by fastforce

lemma separators: "(of_char AMP :: nat) = 38" "(of_char EQUALS :: nat) = 61" "AMP \<noteq> EQUALS"
  by code_simp+

lemma unpack_pack:
  assumes "\<forall>xs \<in> set xss. xs \<noteq> []"
  shows "unpack (pack xss) = xss"
proof -
  let ?line = "\<lambda>xs. join_with [EQUALS] (map (\<lambda>s. concat (map hex_char s)) xs)"
  have "AMP \<notin> set (?line xs)" for xs
    using pack_line [of AMP xs] separators by auto
  then have "split_on AMP (pack xss) = map ?line ([[]] # xss)"
    unfolding pack_def by (intro split_on_join) auto
  moreover have "split_on EQUALS (?line xs) = map (\<lambda>s. concat (map hex_char s)) xs" if "xs \<noteq> []" for xs
    using that hex_chars separators(2) by (intro split_on_join) fastforce+
  ultimately show ?thesis using assms
    by (simp add: unpack_def comp_def cong: map_cong)
qed

lemma pack_ascii: "x \<in> set (pack xss) \<Longrightarrow> (of_char x :: nat) < 128"
  using set_join_with [of "[AMP]" "map (\<lambda>xs. join_with [EQUALS] (map (\<lambda>s. concat (map hex_char s)) xs)) ([[]] # xss)"]
    pack_line separators
  unfolding pack_def by fastforce

lemma utf8_pack: "utf8_ok (to_bytes (pack xss))"
proof (rule utf8_ok_ascii)
  show "\<forall>b \<in> set (to_bytes (pack xss)). b < 0x80"
    using pack_ascii of_char_less_128 by (auto simp: to_bytes_def)
qed

definition int_text :: "int \<Rightarrow> string" where
  "int_text i = (if i < 0 then CHR ''-'' # replicate (nat (- i)) CHR ''i'' else replicate (nat i) CHR ''i'')"

definition read_int :: "string \<Rightarrow> int" where
  "read_int s = (case s of [] \<Rightarrow> 0 | c # r \<Rightarrow> if c = CHR ''-'' then - int (length r) else int (length s))"

lemma read_int_text [simp]: "read_int (int_text i) = i"
proof (cases "i \<le> 0")
  case False
  then obtain n where "nat i = Suc n" using gr0_implies_Suc [of "nat i"] by auto
  with False show ?thesis by (simp add: int_text_def read_int_def)
qed (auto simp: int_text_def read_int_def)

section \<open>A multipart parser\<close>

definition part_head :: "string \<Rightarrow> bytes" where
  "part_head b = to_bytes (''--'' @ b @ CRLF @ ''Content-Disposition: form-data; name='' @ [QUOTE])"

definition part_tail :: bytes where
  "part_tail = to_bytes ([QUOTE] @ CRLF @ ''Content-Type: application/octet-stream'' @ CRLF @ CRLF)"

function read_parts :: "string \<Rightarrow> bytes \<Rightarrow> field list" where
  "read_parts b bs =
     (if \<not> prefix (part_head b) bs then []
      else
        (let r = drop (length (part_head b)) bs;
             name = takeWhile (\<lambda>x. x \<noteq> of_char QUOTE) r;
             r2 = drop (length name + length part_tail) r in
         case find_window (delimiter b) r2 of
           None \<Rightarrow> []
         | Some n \<Rightarrow>
             \<lparr>field_name = Some (of_bytes name), field_pieces = [take n r2], field_complete = True\<rparr>
             # read_parts b (drop (n + 2) r2)))"
  by pat_completeness auto
termination
  by (relation "measure (\<lambda>(b, bs). length bs)") (auto simp: part_head_def prefix_def)

declare read_parts.simps [simp del]

definition read_multipart :: "string \<Rightarrow> stream_item list \<Rightarrow> field list" where
  "read_multipart b items = (case whole_body items of Ok bs \<Rightarrow> read_parts b bs | _ \<Rightarrow> [])"

lemma find_window_led:
  assumes "c \<notin> set w" "w \<noteq> []" "\<not> sublist (c # w) d"
  shows "find_window (c # w) (d @ (c # w) @ q) = Some (length d)"
proof (rule find_window_at)
  show "\<not> sublist (c # w) (d @ butlast (c # w))"
  proof
    assume "sublist (c # w) (d @ butlast (c # w))"
    then obtain u v where uv: "d @ butlast (c # w) = u @ (c # w) @ v" by (auto simp: sublist_def)
    have len: "length u < length d"
      using arg_cong [OF uv, of length] assms(2) by simp
    show False
    proof (cases "length u + length (c # w) \<le> length d")
      case True
      have "prefix (u @ c # w) (d @ butlast (c # w))" unfolding uv by simp
      moreover have "prefix d (d @ butlast (c # w))" by (rule prefixI) (rule refl)
      ultimately have "prefix (u @ c # w) d" by (rule prefix_length_prefix) (use True in simp)
      then have "sublist (c # w) d" by (auto simp: prefix_def sublist_def)
      with assms(3) show False by simp
    next
      case False
      obtain k where k: "length d = length u + Suc k" using len less_imp_Suc_add by fastforce
      with False have kw: "k < length w" by simp
      have "(d @ butlast (c # w)) ! length d = c" using assms(2) by (simp add: nth_append)
      moreover have "(u @ (c # w) @ v) ! length d = w ! k" using kw by (simp add: k nth_append)
      moreover have "w ! k \<in> set w" using kw by simp
      ultimately show False using uv assms(1) by simp
    qed
  qed
qed simp

lemma delimiter_found:
  assumes "CR \<notin> set b" "\<not> sublist (delimiter b) d"
  shows "find_window (delimiter b) (d @ delimiter b @ q) = Some (length d)"
proof -
  let ?w = "to_bytes ([LF] @ ''--'' @ b)"
  have w: "delimiter b = of_char CR # ?w" by (simp add: delimiter_def)
  have "CR \<notin> set ([LF] @ ''--'' @ b)" using assms(1) by (simp add: CR_def LF_def)
  then have "of_char CR \<notin> set ?w" unfolding set_to_bytes .
  from find_window_led [OF this _ assms(2) [unfolded w]] show ?thesis unfolding w by simp
qed

lemma takeWhile_stop: "q \<notin> set xs \<Longrightarrow> takeWhile (\<lambda>x. x \<noteq> q) (xs @ q # ys) = xs"
  by (induction xs) auto

lemma length_CRLF: "length CRLF = 2"
  by (simp add: CRLF_def)

lemma read_parts_body:
  assumes "CR \<notin> set b" "\<forall>(k, d) \<in> set cs. alnum k \<and> \<not> sublist (delimiter b) d"
  shows "list_all2 field_is (read_parts b (upload_body b cs)) cs"
  using assms(2)
proof (induction cs)
  case Nil
  have "\<not> prefix (part_head b) (upload_body b [])"
    by (simp add: part_head_def upload_body_def CRLF_def CR_def)
  then show ?case by (subst read_parts.simps) simp
next
  case (Cons c cs)
  obtain k d where c: "c = (k, d)" by (cases c)
  with Cons.prems have k: "alnum k" and d: "\<not> sublist (delimiter b) d" by auto
  have body: "upload_body b (c # cs) = part_head b @ to_bytes k @ part_tail @ d @ to_bytes CRLF @ upload_body b cs"
    by (simp add: c upload_body_def upload_part_def part_head_def part_tail_def)
  have "prefix (to_bytes (''--'' @ b)) (upload_body b cs)"
    by (cases cs; auto simp: upload_body_def upload_part_def)
  then obtain q where q: "upload_body b cs = to_bytes (''--'' @ b) @ q" by (auto simp: prefix_def)
  have dl: "to_bytes CRLF @ upload_body b cs = delimiter b @ q"
    by (simp add: q delimiter_def CRLF_def)
  have quote: "of_char QUOTE \<notin> set (to_bytes k)"
    using alnum_notin(2) [OF k, of QUOTE] by (simp add: is_ascii_alphanumeric_def QUOTE_def)
  obtain tl' where tl': "part_tail = of_char QUOTE # tl'" by (simp add: part_tail_def)
  have name: "takeWhile (\<lambda>x. x \<noteq> of_char QUOTE) (to_bytes k @ part_tail @ r) = to_bytes k" for r
    using takeWhile_stop [OF quote, of "tl' @ r"] by (simp only: tl' append_Cons)
  have found: "find_window (delimiter b) (d @ to_bytes CRLF @ upload_body b cs) = Some (length d)"
    unfolding dl by (rule delimiter_found [OF assms(1) d])
  have "read_parts b (upload_body b (c # cs)) =
      \<lparr>field_name = Some k, field_pieces = [d], field_complete = True\<rparr> # read_parts b (upload_body b cs)"
    unfolding body
    by (subst read_parts.simps) (simp add: Let_def name found length_CRLF)
  with Cons c show ?case by (simp add: field_is_def)
qed

lemma uuid_text_no_cr: "uuid_text u \<Longrightarrow> CR \<notin> set (upload_boundary u)"
  by (auto simp: uuid_text_def upload_boundary_def list_all_iff CR_def is_ascii_alphanumeric_def)

section \<open>The instance\<close>

definition write_form :: "(string \<times> string) list \<Rightarrow> bytes" where
  "write_form ps = to_bytes (pack (map (\<lambda>(k, v). [k, v]) ps))"

definition read_form :: "bytes \<Rightarrow> (string \<times> string) list" where
  "read_form b = map (\<lambda>l. (l ! 0, l ! 1)) (unpack (of_bytes b))"

lemma read_write_form [simp]: "read_form (write_form ps) = ps"
proof -
  have "unpack (pack (map (\<lambda>(k, v). [k, v]) ps)) = map (\<lambda>(k, v). [k, v]) ps"
    by (rule unpack_pack) auto
  then show ?thesis by (simp add: read_form_def write_form_def comp_def case_prod_unfold)
qed

definition write_record :: "server_record \<Rightarrow> string list" where
  "write_record r = [int_text (sr_id r), sr_path r, (if sr_deleted r then ''t'' else ''f''), sr_chunk_ids r]"

definition read_record :: "string list \<Rightarrow> response_record" where
  "read_record l = \<lparr>rr_id = read_int (l ! 0), rr_path = l ! 1, rr_deleted = (l ! 2 = ''t''), rr_chunk_ids = l ! 3\<rparr>"

definition write_status :: "commit_status \<Rightarrow> bytes" where
  "write_status c = to_bytes (case c of CommitSuccess i \<Rightarrow> CHR ''s'' # int_text i | CommitNeedChunks ks \<Rightarrow> CHR ''n'' # ks)"

definition read_status :: "bytes \<Rightarrow> (string, commit_result) res" where
  "read_status b = (case of_bytes b of
     [] \<Rightarrow> Err ''empty'' | c # r \<Rightarrow> if c = CHR ''s'' then Ok (Success (read_int r)) else Ok (NeedChunks r))"

definition loop_server :: server_env where
  "loop_server =
     \<lparr>store = \<lparr>upload_dir = Some ''/up'', multer = read_multipart,
        parse_boundary = (\<lambda>t. Some (drop (length ''multipart/form-data; boundary='') t)),
        form_decode = (\<lambda>b. Some (read_form b)), write_fails = (\<lambda>_ _. False)\<rparr>,
      meta = \<lparr>gap = (\<lambda>_. 0), row_order = rev\<rparr>,
      auth = \<lparr>sync_enforcement = None, jwt_secret = Some ''k'', sync_upgrade_url = None,
        verify_token = (\<lambda>tok key. if tok = ''t'' then Some \<lparr>raw_uid = 7, raw_sync_until = None\<rparr> else None),
        since_epoch = Some 1000\<rparr>,
      draw = (\<lambda>_ _. CHR ''x''),
      path_segment = Some,
      commit_query = Some,
      list_query = (\<lambda>q. Some (read_int (drop 4 q))),
      poll_query = (\<lambda>_. None),
      commit_form = (\<lambda>b. case read_form b of
          [(_, d), (_, ids), (_, p)] \<Rightarrow> Some \<lparr>cp_path = p, cp_deleted = (d = ''true''), cp_chunk_ids = ids\<rparr>
        | _ \<Rightarrow> None),
      json_commit = write_status,
      json_list = (\<lambda>rs. to_bytes (pack (map write_record rs))),
      json_bool = (\<lambda>b. [])\<rparr>"

definition loop_http :: "server_env \<Rightarrow> string \<Rightarrow> server http" where
  "loop_http E base =
     \<lparr>send = (\<lambda>rq s. case serve E (rq\<lparr>req_url := drop (length base) (req_url rq)\<rparr>) s of (r, s') \<Rightarrow> (Ok r, s')),
      header_ok = list_all visible, status_text = (\<lambda>_. ''''),
      form_encode = write_form,
      parse_records = (\<lambda>b. Ok (map read_record (unpack (of_bytes b)))),
      parse_commit = read_status, show_int = int_text, pkg_version = ''1''\<rparr>"

definition loop_sync :: "string \<Rightarrow> int \<Rightarrow> server sync_env" where
  "loop_sync u ns =
     \<lparr>ext = sample_externals, http = loop_http loop_server ''http://h'',
      remote_client = \<lparr>api_endpoint = ''http://h'', token = ''t'', uuid = u\<rparr>,
      id_gap = (\<lambda>_. 0), namespace = ns, batch_uuid = (\<lambda>_. ''0-f'')\<rparr>"

lemma relayed_loop: "relayed (loop_http E base) base E"
  unfolding relayed_def
proof (intro allI impI)
  fix rq :: request and p :: string and s :: server
  assume url: "req_url rq = base @ p"
  obtain r s' where r: "serve E (rq\<lparr>req_url := p\<rparr>) s = (r, s')" by (metis prod.collapse)
  with url show "\<exists>items. whole_body items = whole_body (resp_body (fst (serve E (rq\<lparr>req_url := p\<rparr>) s))) \<and>
      send (loop_http E base) rq s = (Ok ((fst (serve E (rq\<lparr>req_url := p\<rparr>) s))\<lparr>resp_body := items\<rparr>),
        snd (serve E (rq\<lparr>req_url := p\<rparr>) s))"
    by (intro exI [of _ "resp_body r"]) (simp add: loop_http_def)
qed

lemma multer_reads_loop: "multer_reads (store loop_server)"
proof -
  have "list_all2 field_is (read_multipart (upload_boundary u) items) cs"
    if "uuid_text u" "\<forall>(k, d) \<in> set cs. alnum k \<and> \<not> sublist (delimiter (upload_boundary u)) d"
      "whole_body items = Ok (upload_body (upload_boundary u) cs)" for u cs items
    using read_parts_body [OF uuid_text_no_cr [OF that(1)] that(2)] that(3)
    by (simp add: read_multipart_def)
  then show ?thesis by (simp add: multer_reads_def loop_server_def)
qed

lemma codecs_loop: "codecs (loop_http loop_server base) r loop_server"
proof -
  have "read_record (write_record x) = to_response_record x" for x
    by (simp add: read_record_def write_record_def to_response_record_def)
  moreover have "unpack (pack (map write_record rs)) = map write_record rs" for rs
    by (rule unpack_pack) (auto simp: write_record_def)
  ultimately have "parse_records (loop_http loop_server base) (json_list loop_server rs) =
      Ok (map to_response_record rs)" for rs
    by (simp add: loop_http_def loop_server_def)
  moreover have "read_status (write_status c) = Ok (to_commit_result c)" for c
    unfolding read_status_def write_status_def of_bytes_to_bytes
    by (cases c) (simp_all add: to_commit_result_def)
  moreover have "utf8_ok (write_form ps)" for ps by (simp add: write_form_def utf8_pack)
  ultimately show ?thesis
    unfolding codecs_def
    by (intro conjI allI multer_reads_loop)
       (simp_all add: commit_form_body_def download_form_body_def loop_http_def loop_server_def)
qed

lemma linked_loop: "linked loop_server 7 (loop_sync u ns)"
proof -
  have "list_all visible (''Bearer '' @ ''t'')" by code_simp
  moreover have "snd (entitled_user_from_parts (auth loop_server) (Some (''Bearer '' @ ''t''))) = Ok 7"
    by code_simp
  moreover have "alnum (map (draw loop_server rq) [0..<BOUNDARY_LEN])" for rq
    by (simp add: loop_server_def alnum_def list_all_iff BOUNDARY_LEN_def is_ascii_alphanumeric_def)
  moreover have "\<not> write_fails (store loop_server) p n" "mset (row_order (meta loop_server) xs) = mset xs" for p n xs
    by (simp_all add: loop_server_def)
  ultimately show ?thesis
    using relayed_loop [of loop_server "''http://h''"] codecs_loop [of "''http://h''"]
    by (simp add: linked_def loop_sync_def)
qed

end
