(* ===== verification/SyncerProps.thy ===== *)
theory SyncerProps
  imports SyncerFacts Samples
begin

text \<open>
  The properties of the syncer's two passes, for any server and any network: what an upload
  pass leaves waiting, how its queue is cut and what is in it, and what a download pass has
  done when it succeeds.
\<close>

section \<open>Samples\<close>

text \<open>A server that accepts every commit, and one that lists one record and no chunks.\<close>

definition accepting_http :: "nat http" where
  "accepting_http =
     \<lparr>send = (\<lambda>rq n. (Ok \<lparr>resp_status = 200, resp_content_type = None, resp_body = []\<rparr>, Suc n)),
      header_ok = (\<lambda>_. True), status_text = (\<lambda>_. ''''), form_encode = (\<lambda>_. []),
      parse_records = (\<lambda>_. Ok [\<lparr>rr_id = 9, rr_path = ''e/b.cook'', rr_deleted = False,
        rr_chunk_ids = ''0162000000,026b000000''\<rparr>]),
      parse_commit = (\<lambda>_. Ok (Success 7)),
      show_int = (\<lambda>_. ''''), pkg_version = ''1''\<rparr>"

definition sample_sync :: "nat sync_env" where
  "sample_sync =
     \<lparr>ext = sample_externals, http = accepting_http,
      remote_client = \<lparr>api_endpoint = ''u'', token = ''t'', uuid = ''i''\<rparr>,
      id_gap = (\<lambda>_. 0), namespace = 1, batch_uuid = (\<lambda>_. ''b'')\<rparr>"

definition pending_client :: client where
  "pending_client = chunker.extend sample_chunker
     \<lparr>records = create_records (\<lambda>_. 0)
       [\<lparr>cf_jid = None, cf_path = ''d/a.cook'', cf_deleted = False, cf_size = 3,
         cf_modified_at = Timestamp 5 0, cf_namespace_id = 1\<rparr>] []\<rparr>"

lemma wf_pending_client: "wf_table (records pending_client)"
proof -
  have "ids_sorted record_id (records pending_client) = sorted_wrt (<) [1::int]"
    unfolding ids_sorted_def by (rule arg_cong [where f = "sorted_wrt (<)"]) code_simp
  then show ?thesis by simp
qed

lemma pending_pass: "fst (check_upload_once sample_sync (pending_client, 0)) = Ok True"
  by code_simp

lemma cache_named_pending: "cache_named sample_externals pending_client"
  by (simp add: cache_named_def cc.sound_def cache_get_def pending_client_def sample_chunker_def
      chunker.defs)

lemma sample_hashed_cached:
  "(\<forall>k \<in> set [''0162000000'', ''026b000000'']. check_chunk k sample_hashed) = True"
  by code_simp

section \<open>Upload\<close>

text \<open>One upload pass against any server, whatever its outcome: no file changes, of the registry
  only jids do, and only rows that were waiting get one, so nothing that was not waiting
  waits now; when the pass succeeds it answers true exactly if no local change waits any
  more. A false answer therefore always means there is something left for a second pass.
\<close>

theorem upload_pass_commits:
  assumes "digest_ok (ext e)" "wf_table (records c)"
    and "check_upload_once e (c, v) = (res, (c', v'))"
  shows "files c' = files c \<and> jids_only (records c) (records c') \<and> wf_table (records c')
    \<and> set (updated_locally (namespace e) (records c')) \<subseteq> set (updated_locally (namespace e) (records c))
    \<and> (\<forall>b. res = Ok b \<longrightarrow> (b \<longleftrightarrow> updated_locally (namespace e) (records c') = []))"
  using upload_pass_spec [OF assms] .

theorem upload_pass_commits_witness:
  "\<exists>c' v'. check_upload_once sample_sync (pending_client, 0) = (Ok True, (c', v'))
    \<and> updated_locally 1 (records c') = []"
proof -
  obtain c' v' where run: "check_upload_once sample_sync (pending_client, 0) = (Ok True, (c', v'))"
    using pending_pass by (metis prod.collapse)
  have ns: "namespace sample_sync = 1" "digest_ok (ext sample_sync)"
    by (simp_all add: sample_sync_def digest_ok_sample)
  from upload_pass_commits [OF ns(2) wf_pending_client run] ns run show ?thesis by auto
qed

text \<open>
  Queueing the chunks a server asks for: it succeeds exactly when the cache has them all, the
  chunks go to the end of the queue in the order asked, each with its cached content, and the
  batches keep their cut: a closed batch is over the upload limit and was not before its last
  chunk, and the open one is not over it.
\<close>

theorem needed_chunks_queued:
  assumes "queue_ok q"
  shows "if \<forall>k \<in> set ks. check_chunk k s
    then \<exists>q'. queue_chunks ks q s = (Ok q', s) \<and> queue_ok q'
      \<and> (\<exists>ds. answers s ks ds \<and> queued q' = queued q @ zip ks ds)
    else queue_chunks ks q s = (Err GetFromCacheError, s)"
  using queue_chunks_exact [OF assms] .

theorem needed_chunks_queued_witness:
  "\<exists>q'. queue_chunks [''0162000000'', ''026b000000''] \<lparr>closed = [], current_batch = [], batch_size = 0\<rparr>
      sample_hashed = (Ok q', sample_hashed)"
proof -
  have "queue_ok \<lparr>closed = [], current_batch = [], batch_size = 0\<rparr>"
    by (simp add: queue_ok_def)
  from needed_chunks_queued [OF this, of "[''0162000000'', ''026b000000'']" sample_hashed]
    sample_hashed_cached show ?thesis by (simp only: if_True) blast
qed

text \<open>Claim C31.
  What an upload pass sends, whatever the server asks for: every chunk in every batch either
  is the empty chunk under the empty id, or carries an id that is the digest of its content,
  when the cache held only such chunks before; and no batch's payload is over the upload
  limit without its last chunk.
\<close>

theorem uploaded_chunks_named:
  assumes "digest_ok (ext e)" "cache_named (ext e) c"
    and "upload_files e fs \<lparr>closed = [], current_batch = [], batch_size = 0\<rparr> True (c, v) = (Ok (q, b), s')"
  shows "\<forall>batch \<in> set (batches q). payload (butlast batch) \<le> MAX_UPLOAD_SIZE \<and>
    (\<forall>(k, d) \<in> set batch. (k = [] \<and> d = []) \<or> named_ids (ext e) k d)"
proof -
  have "queue_ok \<lparr>closed = [], current_batch = [], batch_size = 0\<rparr>"
    "queue_sound P \<lparr>closed = [], current_batch = [], batch_size = 0\<rparr>" for P
    by (simp_all add: queue_ok_def queue_sound_def queued_def batches_def)
  moreover obtain c' v' where s': "s' = (c', v')" by (cases s')
  note upload_files_sound [OF assms(1) assms(2) [unfolded cache_named_def] _ assms(3) [unfolded s']]
  ultimately have q: "queue_ok q" "queue_sound (named_ids (ext e)) q" by simp_all
  have "payload (butlast b) \<le> payload b" for b
    by (induction b) auto
  with q show ?thesis
    unfolding queue_ok_def queue_sound_def queued_def batches_def
    by (fastforce intro: le_trans)
qed

text \<open>A server that asks for the two chunks of the file.\<close>

definition refusing_sync :: "nat sync_env" where
  "refusing_sync = sample_sync\<lparr>http := accepting_http\<lparr>parse_commit :=
     (\<lambda>_. Ok (NeedChunks ''0162000000,026b000000''))\<rparr>\<rparr>"

definition pending_row :: file_record where
  "pending_row = hd (records pending_client)"

lemma refusing_run:
  "\<exists>q s'. upload_files refusing_sync [pending_row] \<lparr>closed = [], current_batch = [], batch_size = 0\<rparr>
     True (pending_client, 0) = (Ok (q, False), s')
   \<and> queued q = [(''0162000000'', [98]), (''026b000000'', [97, 10])]"
proof -
  let ?q0 = "\<lparr>closed = [], current_batch = [], batch_size = 0\<rparr>"
  let ?ks = "[''0162000000'', ''026b000000'']"
  let ?h = "hashify sample_externals (path pending_row) pending_client"
  have run: "fst ?h = Ok [''026b000000'', ''0162000000'']" "\<not> deleted pending_row"
    "cache_get (cache (snd ?h)) ''0162000000'' = Ok [98]"
    "cache_get (cache (snd ?h)) ''026b000000'' = Ok [97, 10]"
    "split_on COMMA ''0162000000,026b000000'' = ?ks"
    "fst (commit (http refusing_sync) (remote_client refusing_sync) (path pending_row) False
       (join_with [COMMA] [''026b000000'', ''0162000000'']) 0) = Ok (NeedChunks ''0162000000,026b000000'')"
    by code_simp+
  obtain c1 where h: "?h = (Ok [''026b000000'', ''0162000000''], c1)" using run(1) by (metis prod.collapse)
  obtain n where com: "commit (http refusing_sync) (remote_client refusing_sync) (path pending_row) False
       (join_with [COMMA] [''026b000000'', ''0162000000'']) 0 = (Ok (NeedChunks ''0162000000,026b000000''), n)"
    using run(6) by (metis prod.collapse)
  have "(\<forall>k \<in> set ?ks. check_chunk k c1) = True" using run(3,4) h by (auto simp: cc.contains_iff)
  moreover have "queue_ok ?q0" by (simp add: queue_ok_def)
  ultimately obtain q ds where q: "queue_chunks ?ks ?q0 c1 = (Ok q, c1)"
    "answers c1 ?ks ds" "queued q = queued ?q0 @ zip ?ks ds"
    using queue_chunks_exact [of ?q0 ?ks c1] by (simp only: if_True) blast
  have "ds = [[98], [97, 10]]" using q(2) run(3,4) h by (auto simp: answers_def list_all2_Cons1)
  with q(3) have "queued q = [(''0162000000'', [98]), (''026b000000'', [97, 10])]"
    by (simp add: queued_def batches_def)
  moreover have "upload_files refusing_sync [pending_row] ?q0 True (pending_client, 0) =
      (Ok (q, False), (c1, n))"
    using h com q(1) run(2,5)
    by (simp add: upload_files_Cons upload_file_def and_then_def on_client_def on_server_def
        ret_def refusing_sync_def sample_sync_def)
  ultimately show ?thesis by blast
qed

theorem uploaded_chunks_named_witness:
  "\<exists>q. queued q = [(''0162000000'', [98]), (''026b000000'', [97, 10])] \<and>
    (\<forall>batch \<in> set (batches q). \<forall>(k, d) \<in> set batch. (k = [] \<and> d = []) \<or> named_ids sample_externals k d)"
proof -
  obtain q s' where run: "upload_files refusing_sync [pending_row]
      \<lparr>closed = [], current_batch = [], batch_size = 0\<rparr> True (pending_client, 0) = (Ok (q, False), s')"
    and q: "queued q = [(''0162000000'', [98]), (''026b000000'', [97, 10])]" using refusing_run by blast
  have e: "ext refusing_sync = sample_externals" by (simp add: refusing_sync_def sample_sync_def)
  from uploaded_chunks_named [OF _ _ run, unfolded e, OF digest_ok_sample cache_named_pending] q
  show ?thesis by blast
qed

section \<open>Download\<close>

definition hashed_client :: client where
  "hashed_client = chunker.extend
     (sample_chunker\<lparr>cache := [''0162000000'' \<mapsto> [98], ''026b000000'' \<mapsto> [97, 10]]\<rparr>) \<lparr>records = []\<rparr>"

lemma cache_named_hashed: "cache_named sample_externals hashed_client"
proof -
  have "cache hashed_client = [''0162000000'' \<mapsto> [98], ''026b000000'' \<mapsto> [97, 10]]"
    by (simp add: hashed_client_def sample_chunker_def chunker.defs)
  then show ?thesis using ids_sample
    by (auto simp: cache_named_def cc.sound_def cache_get_def named_ids_def TEXT_HASH_SIZE_def
        split: if_splits)
qed

lemma hashed_list:
  "fst (list_records (http sample_sync) (remote_client sample_sync)
     (latest_local sample_sync hashed_client) 0) =
   Ok [\<lparr>rr_id = 9, rr_path = ''e/b.cook'', rr_deleted = False,
        rr_chunk_ids = ''0162000000,026b000000''\<rparr>]"
  by code_simp

lemma to_i64_small: "n \<le> 9 \<Longrightarrow> to_i64 n = Ok (int n)"
  by (simp add: to_i64_def I64_MAX_def)

lemma hashed_pass: "fst (check_download_once sample_sync (hashed_client, 0)) = Ok True"
proof -
  let ?d = "\<lparr>rr_id = 9, rr_path = ''e/b.cook'', rr_deleted = False,
    rr_chunk_ids = ''0162000000,026b000000''\<rparr>"
  let ?s = "save sample_externals ''e/b.cook'' (split_on COMMA ''0162000000,026b000000'') hashed_client"
  have ev: "\<not> exists_file ''e/b.cook'' hashed_client"
    "filter (\<lambda>h. \<not> check_chunk h hashed_client) (split_on COMMA ''0162000000,026b000000'') = []"
    "fst ?s = Ok ()"
    "fst (metadata (push_path (base_path (snd ?s)) ''e/b.cook'') (snd ?s)) = Ok (3, Timestamp 7 3)"
    by code_simp+
  obtain c1 where s: "?s = (Ok (), c1)" using ev(3) by (metis prod.collapse)
  obtain c2 where m: "metadata (push_path (base_path c1) ''e/b.cook'') c1 = (Ok (3, Timestamp 7 3), c2)"
    using ev(4) s by (metis prod.collapse snd_conv)
  have e: "ext sample_sync = sample_externals" by (simp add: sample_sync_def)
  have "\<exists>c'. apply_record sample_sync ?d hashed_client = (Ok (), c')"
    using s m by (simp add: apply_record_def e and_then_def build_file_record_def map_err_def
        lift_res_def to_i64_small ret_def set_records_def)
  then obtain c' where ap: "apply_record sample_sync ?d hashed_client = (Ok (), c')" by blast
  obtain v1 where ls: "list_records (http sample_sync) (remote_client sample_sync)
     (latest_local sample_sync hashed_client) 0 = (Ok [?d], v1)"
    using hashed_list by (metis prod.collapse)
  have "collect_needed sample_sync [?d] [] hashed_client = (Ok [], hashed_client)"
    using ev(1,2) by (simp add: and_then_def ret_def del: split_on.simps)
  with ls ap show ?thesis
    by (simp add: check_download_once_def and_then_def on_server_def on_client_def fetch_chunks_def
        ret_def)
qed

text \<open>
  Chunks that belong to their ids: empty for the empty id, else delivered under the id or
  with the id as digest.
\<close>

definition sourced :: "externals \<Rightarrow> (string \<times> bytes) list \<Rightarrow> string list \<Rightarrow> bytes list \<Rightarrow> bool" where
  "sourced x items ks chunks \<longleftrightarrow>
     list_all2 (\<lambda>k d. (k = [] \<and> d = []) \<or> named_ids x k d \<or> (k, d) \<in> set items) ks chunks"

text \<open>Claim C30.
  A download pass that succeeds, against any server, when the listed paths name different
  files: it asked for no chunk but those of the list, and for every listed record the
  registry's current row carries the server's id and the file is gone, or holds the
  concatenation of chunks that each came from this pass's download under the id asked for or
  have that id as their digest, with the row's size and time being the file's, so the next
  index pass finds no difference there. Every other file and every other row that was
  current stays, and the next listing starts after every listed id.
\<close>

theorem download_pass_applies:
  assumes "digest_ok (ext e)" "cache_named (ext e) c" "wf_table (records c)"
    and "list_records (http e) (remote_client e) (latest_local e c) v = (Ok ds, v1)"
    and "distinct (map (full_path c \<circ> rr_path) ds)"
    and "check_download_once e (c, v) = (Ok b, (c', v'))"
  shows "b = (ds \<noteq> []) \<and> wf_table (records c') \<and> (\<exists>items. fetched e ds v1 items v' \<and>
    (\<forall>d \<in> set ds. rr_id d \<le> latest_local e c' \<and>
      (\<exists>r. registry_view (namespace e) (records c') (rr_path d) = Some r \<and>
        jid r = Some (rr_id d) \<and> deleted r = rr_deleted d \<and>
        (if rr_deleted d then file_at c' (full_path c (rr_path d)) = None
         else \<exists>chunks t. file_at c' (full_path c (rr_path d)) = Some (concat chunks, t) \<and>
           file_size r = int (length (concat chunks)) \<and> modified_at r = truncate_to_seconds t \<and>
           sourced (ext e) items (split_on COMMA (rr_chunk_ids d)) chunks)))) \<and>
    (\<forall>q. q \<notin> (full_path c \<circ> rr_path) ` set ds \<longrightarrow> file_at c' q = file_at c q) \<and>
    (\<forall>m p. m \<noteq> namespace e \<or> p \<notin> rr_path ` set ds \<longrightarrow>
       registry_view m (records c') p = registry_view m (records c) p)"
proof -
  from download_OkD [OF assms(1,2,4,6)] obtain items c1 where b: "b = (ds \<noteq> [])"
    and it: "fetched e ds v1 items v'" and co: "cache_only c c1"
    and snd: "cc.sound (from_items (ext e) items) c1"
    and ap: "for_each (apply_record e) ds c1 = (Ok (), c')" by blast
  have c1: "file_at c1 = file_at c" "records c1 = records c" "full_path c1 = full_path c"
    using cache_onlyD [OF co] cache_only_node_at [OF co] tree_kept_cache_only [OF co]
    by (simp_all add: file_at_def full_path_def fun_eq_iff)
  note all = applied_all [OF ap, unfolded c1, OF assms(5)]
  have chunks: "sourced (ext e) items ks cs" if "answers c1 ks cs" for ks cs
  proof -
    have "(k = [] \<and> d = []) \<or> named_ids (ext e) k d \<or> (k, d) \<in> set items"
      if "cache_get (cache c1) k = Ok d" for k d
      using that snd by (cases "k = []") (auto simp: cc.sound_def from_items_def cache_get_def)
    with that show ?thesis
      unfolding answers_def sourced_def by (auto elim!: list_all2_mono)
  qed
  have each: "rr_id d \<le> latest_local e c' \<and>
      (\<exists>r. registry_view (namespace e) (records c') (rr_path d) = Some r \<and>
        jid r = Some (rr_id d) \<and> deleted r = rr_deleted d \<and>
        (if rr_deleted d then file_at c' (full_path c (rr_path d)) = None
         else \<exists>chunks t. file_at c' (full_path c (rr_path d)) = Some (concat chunks, t) \<and>
           file_size r = int (length (concat chunks)) \<and> modified_at r = truncate_to_seconds t \<and>
           sourced (ext e) items (split_on COMMA (rr_chunk_ids d)) chunks))" if d: "d \<in> set ds" for d
  proof -
    from all d have "landed e c1 c' d" by blast
    then obtain r where r: "registry_view (namespace e) (records c') (rr_path d) = Some r"
      "jid r = Some (rr_id d)" "deleted r = rr_deleted d"
      "modified_at r = truncate_to_seconds (clock c1)"
      and fl: "if rr_deleted d then file_at c' (full_path c (rr_path d)) = None
         else \<exists>chunks. answers c1 (split_on COMMA (rr_chunk_ids d)) chunks \<and>
           file_size r = int (length (concat chunks)) \<and>
           file_at c' (full_path c (rr_path d)) = Some (concat chunks, clock c1)"
      unfolding landed_def c1 by blast
    have "rr_id d \<le> latest_local e c'"
      using latest_jid_upper [OF view_SomeD(1,3) [OF r(1)] r(2)] r(1) by (auto simp: latest_local_def)
    moreover have "if rr_deleted d then file_at c' (full_path c (rr_path d)) = None
         else \<exists>chunks t. file_at c' (full_path c (rr_path d)) = Some (concat chunks, t) \<and>
           file_size r = int (length (concat chunks)) \<and> modified_at r = truncate_to_seconds t \<and>
           sourced (ext e) items (split_on COMMA (rr_chunk_ids d)) chunks"
    proof (cases "rr_deleted d")
      case False
      with fl obtain chunks where "answers c1 (split_on COMMA (rr_chunk_ids d)) chunks"
        "file_size r = int (length (concat chunks))"
        "file_at c' (full_path c (rr_path d)) = Some (concat chunks, clock c1)" by auto
      with chunks r(4) False show ?thesis by auto
    qed (use fl in simp)
    ultimately show ?thesis using r(1-3) by blast
  qed
  show ?thesis using b it all each assms(3) by blast
qed

theorem download_pass_applies_witness:
  "\<exists>c' v' r. check_download_once sample_sync (hashed_client, 0) = (Ok True, (c', v'))
    \<and> registry_view 1 (records c') ''e/b.cook'' = Some r \<and> jid r = Some 9 \<and> 9 \<le> latest_local sample_sync c'"
proof -
  let ?d = "\<lparr>rr_id = 9, rr_path = ''e/b.cook'', rr_deleted = False,
    rr_chunk_ids = ''0162000000,026b000000''\<rparr>"
  obtain c' v' where run: "check_download_once sample_sync (hashed_client, 0) = (Ok True, (c', v'))"
    using hashed_pass by (metis prod.collapse)
  obtain v1 where ls: "list_records (http sample_sync) (remote_client sample_sync)
     (latest_local sample_sync hashed_client) 0 = (Ok [?d], v1)"
    using hashed_list by (metis prod.collapse)
  have e: "ext sample_sync = sample_externals" "namespace sample_sync = 1"
    by (simp_all add: sample_sync_def)
  have wf: "wf_table (records hashed_client)" by (simp add: hashed_client_def chunker.defs ids_sorted_def)
  from download_pass_applies [OF _ _ wf ls _ run, unfolded e, OF digest_ok_sample cache_named_hashed]
  have "\<forall>d \<in> set [?d]. rr_id d \<le> latest_local sample_sync c' \<and>
      (\<exists>r. registry_view 1 (records c') (rr_path d) = Some r \<and> jid r = Some (rr_id d))"
    by auto
  then show ?thesis using run by auto
qed

end
