(* ===== verification/IndexerFacts.thy ===== *)
theory IndexerFacts
  imports Indexer WorldFacts
begin

text \<open>
  What an index pass does: the records read from disk as a map (\<open>disk_view\<close>), the live
  part of the registry (\<open>live_view\<close>), the two lists of differences, and the registry after
  they are written.
\<close>

section \<open>The disk as the indexer sees it\<close>

definition form_of :: "pathbuf \<Rightarrow> string \<Rightarrow> int \<Rightarrow> 'z world_scheme \<Rightarrow> create_form" where
  "form_of p rel ns s =
     (let (len, modified) =
        (case node_at s p of Some (File b t) \<Rightarrow> (length b, t) | _ \<Rightarrow> dir_meta s p) in
      \<lparr>cf_jid = None, cf_path = rel, cf_deleted = False, cf_size = int len,
       cf_modified_at = truncate_to_seconds modified, cf_namespace_id = ns\<rparr>)"

text \<open>The paths an index pass takes up, by their relative names.\<close>

definition indexed :: "walker \<Rightarrow> pathbuf \<Rightarrow> 'z world_scheme \<Rightarrow> string \<Rightarrow> bool" where
  "indexed w base s rel \<longleftrightarrow>
     plain_path rel \<and> walked descend base (files s) (push_path base rel) \<and>
     filter_eligible w (push_path base rel)"

definition disk_view :: "walker \<Rightarrow> pathbuf \<Rightarrow> int \<Rightarrow> 'z world_scheme \<Rightarrow> string \<Rightarrow> create_form option" where
  "disk_view w base ns s rel =
     (if indexed w base s rel then Some (form_of (push_path base rel) rel ns s) else None)"

text \<open>
  What is assumed of a storage directory: names below it are ordinary file names in UTF-8,
  lengths fit an \<open>i64\<close>, and the directory itself is not named like a recipe or a picture
  (the walk yields its root too).
\<close>

definition storage_ok :: "walker \<Rightarrow> pathbuf \<Rightarrow> 'z world_scheme \<Rightarrow> bool" where
  "storage_ok w base s \<longleftrightarrow>
     \<not> filter_eligible w base \<and>
     (\<forall>(p, n) \<in> set (files s). strict_prefix base p \<longrightarrow>
        plain_path (path_string (drop (length base) p)) \<and>
        p = push_path base (path_string (drop (length base) p)) \<and>
        utf8_ok (to_bytes (path_string (drop (length base) p))) \<and>
        utf8_ok (to_bytes (normal_name (last p))) \<and>
        (case n of File b t \<Rightarrow> length b \<le> I64_MAX | Dir \<Rightarrow> fst (dir_meta s p) \<le> I64_MAX))"

lemma storage_okD:
  assumes "storage_ok w base s" "node_at s p = Some n" "strict_prefix base p"
  shows "plain_path (path_string (drop (length base) p))"
    "p = push_path base (path_string (drop (length base) p))"
    "utf8_ok (to_bytes (path_string (drop (length base) p)))"
    "utf8_ok (to_bytes (normal_name (last p)))"
    "case n of File b t \<Rightarrow> length b \<le> I64_MAX | Dir \<Rightarrow> fst (dir_meta s p) \<le> I64_MAX"
  using assms map_of_SomeD [of "files s" p n]
  by (fastforce simp: storage_ok_def node_at_def)+

lemma records_update_world [simp]:
  "files (s\<lparr>records := rows\<rparr>) = files s"
  "dir_meta (s\<lparr>records := rows\<rparr>) = dir_meta s"
  "node_at (s\<lparr>records := rows\<rparr>) = node_at s"
  by (cases s; simp add: node_at_def fun_eq_iff)+

lemma storage_ok_records [simp]:
  "storage_ok w base (s\<lparr>records := rows\<rparr>) = storage_ok w base s"
  "disk_view w base ns (s\<lparr>records := rows\<rparr>) = disk_view w base ns s"
  by (simp_all add: storage_ok_def disk_view_def indexed_def form_of_def fun_eq_iff
      split: option.splits node.splits)

lemma build_file_record_ok:
  assumes w: "walker_ok w" and st: "storage_ok w base s"
    and node: "node_at s p = Some n" and below: "strict_prefix base p"
  shows "build_file_record w p base ns s =
    (Ok (form_of p (path_string (drop (length base) p)) ns s), s)"
proof -
  note ok = storage_okD [OF st node below]
  have m: "metadata p s = (Ok (case n of File b t \<Rightarrow> (length b, t) | Dir \<Rightarrow> dir_meta s p), s)"
    using node by (cases n) (simp_all add: metadata_def)
  have p: "strip_prefix base p = Some (drop (length base) p)"
    using below by (simp add: strip_prefix_def strict_prefix_def)
  have l: "to_slash_lossy w (path_string (drop (length base) p)) = path_string (drop (length base) p)"
    using w ok(3) by (simp add: walker_ok_def)
  show ?thesis
    using m p l ok(5) node
    by (cases n) (auto simp: build_file_record_def and_then_def map_err_def to_i64_def form_of_def
        Let_def prog_simps split: prod.splits)
qed

lemma collect_records_ok:
  assumes w: "walker_ok w" and st: "storage_ok w base s"
    and ps: "\<forall>p \<in> set ps. node_at s p \<noteq> None \<and> strict_prefix base p"
  shows "\<exists>m. collect_records w base ns ps acc s = (Ok m, s) \<and>
    (\<forall>k. map_of m k = (if \<exists>p \<in> set ps. path_string (drop (length base) p) = k
                       then Some (form_of (push_path base k) k ns s) else map_of acc k)) \<and>
    (distinct (map fst acc) \<longrightarrow> distinct (map fst m))"
  using ps
proof (induction ps arbitrary: acc)
  case (Cons p ps)
  let ?k = "path_string (drop (length base) p)"
  let ?acc = "AList.update ?k (form_of p ?k ns s) acc"
  obtain n where n: "node_at s p = Some n" and below: "strict_prefix base p"
    using Cons.prems by auto
  have push: "push_path base ?k = p" using storage_okD(2) [OF st n below] by simp
  have step: "collect_records w base ns (p # ps) acc s = collect_records w base ns ps ?acc s"
    using build_file_record_ok [OF w st n below, of ns]
    by (simp add: and_then_Ok_eq) (simp add: form_of_def Let_def split: prod.splits)
  from Cons.IH [of ?acc] Cons.prems obtain m where m:
    "collect_records w base ns ps ?acc s = (Ok m, s)"
    "\<forall>k. map_of m k = (if \<exists>q \<in> set ps. path_string (drop (length base) q) = k
        then Some (form_of (push_path base k) k ns s) else map_of ?acc k)"
    "distinct (map fst ?acc) \<longrightarrow> distinct (map fst m)" by auto
  from m(2) push have "map_of m k = (if \<exists>q \<in> set (p # ps). path_string (drop (length base) q) = k
      then Some (form_of (push_path base k) k ns s) else map_of acc k)" for k
    by (auto simp: update_conv')
  with m(1,3) step distinct_update show ?case by metis
qed (simp add: prog_simps)

lemma walk_set:
  assumes "walker_ok w"
  shows "set (eligible_paths w base fs) = {p. walked descend base fs p \<and> filter_eligible w p}"
proof -
  have "entry_path ` set (walk w descend base fs) = {p. walked descend base fs p}"
    using assms by (simp add: walker_ok_def image_image entry_of_def)
  then show ?thesis by (auto simp: eligible_paths_def)
qed

lemma get_from_disk:
  assumes w: "walker_ok w" and st: "storage_ok w base s"
  shows "\<exists>m. get_file_records_from_disk w base ns s = (Ok m, s) \<and>
    map_of m = disk_view w base ns s \<and> distinct (map fst m)"
proof -
  let ?ps = "eligible_paths w base (files s)"
  have set: "p \<in> set ?ps \<longleftrightarrow> walked descend base (files s) p \<and> filter_eligible w p" for p
    using walk_set [OF w] by simp
  have ps: "node_at s p \<noteq> None \<and> strict_prefix base p" if "p \<in> set ?ps" for p
    using that st unfolding set by (auto simp: walked_def node_at_def storage_ok_def strict_prefix_def)
  have names: "(\<exists>p \<in> set ?ps. path_string (drop (length base) p) = k) \<longleftrightarrow> indexed w base s k" for k
  proof
    assume "\<exists>p \<in> set ?ps. path_string (drop (length base) p) = k"
    then obtain p where p: "p \<in> set ?ps" "path_string (drop (length base) p) = k" by auto
    from ps [OF p(1)] obtain n where "node_at s p = Some n" "strict_prefix base p" by auto
    from storage_okD(1,2) [OF st this] p set show "indexed w base s k" by (simp add: indexed_def)
  next
    assume i: "indexed w base s k"
    then have "push_path base k \<in> set ?ps" unfolding set by (simp add: indexed_def)
    moreover have "path_string (drop (length base) (push_path base k)) = k"
      using i by (simp add: indexed_def push_path_plain path_string_plain)
    ultimately show "\<exists>p \<in> set ?ps. path_string (drop (length base) p) = k" by blast
  qed
  from collect_records_ok [OF w st, of ?ps ns "[]"] ps obtain m where
    "collect_records w base ns ?ps [] s = (Ok m, s)" "distinct (map fst m)"
    "\<forall>k. map_of m k = (if \<exists>p \<in> set ?ps. path_string (drop (length base) p) = k
        then Some (form_of (push_path base k) k ns s) else None)" by auto
  then show ?thesis
    by (auto simp: get_file_records_from_disk_def names disk_view_def fun_eq_iff)
qed

section \<open>The registry as the indexer sees it\<close>

definition live_view :: "int \<Rightarrow> table \<Rightarrow> string \<Rightarrow> file_record option" where
  "live_view ns rows p =
     (case registry_view ns rows p of Some r \<Rightarrow> if deleted r then None else Some r | None \<Rightarrow> None)"

lemma live_view_SomeD: "live_view ns rows p = Some r \<Longrightarrow>
    registry_view ns rows p = Some r \<and> \<not> deleted r \<and> path r = p"
  by (auto simp: live_view_def dest: view_SomeD split: option.splits if_splits)

lemma map_of_fold_update:
  "map_of (fold (\<lambda>r cache. AList.update (key r) r cache) rs m) k =
    (case latest key rs k of Some r \<Rightarrow> Some r | None \<Rightarrow> map_of m k)"
  by (induction rs rule: rev_induct) (auto simp: update_conv')

lemma distinct_fold_update:
  "distinct (map fst m) \<Longrightarrow>
    distinct (map fst (fold (\<lambda>r cache. AList.update (key r) r cache) rs m))"
  by (induction rs rule: rev_induct) (simp_all add: distinct_update)

lemma get_from_registry:
  assumes "wf_table rows"
  shows "map_of (get_file_records_from_registry ns rows) = live_view ns rows"
    "distinct (map fst (get_file_records_from_registry ns rows))"
proof -
  let ?n = "non_deleted ns rows"
  have "map_of (get_file_records_from_registry ns rows) = latest path ?n"
    by (auto simp: get_file_records_from_registry_def map_of_fold_update split: option.splits)
  moreover have "latest path ?n p = live_view ns rows p" for p
  proof (cases "latest path ?n p")
    case None
    then have "p \<notin> path ` set ?n" by (simp add: latest_None_iff)
    then have "live_view ns rows p \<noteq> Some r" for r
      using live_view_SomeD [of ns rows p r] unfolding set_non_deleted [OF assms] by force
    with None show ?thesis by (cases "live_view ns rows p") auto
  next
    case (Some r)
    from latest_SomeD [OF this] have "r \<in> set ?n" "path r = p" by simp_all
    with Some show ?thesis by (simp add: set_non_deleted [OF assms] live_view_def)
  qed
  ultimately show "map_of (get_file_records_from_registry ns rows) = live_view ns rows" by auto
  show "distinct (map fst (get_file_records_from_registry ns rows))"
    unfolding get_file_records_from_registry_def by (rule distinct_fold_update) simp
qed

section \<open>The differences\<close>

lemma compare_db_eq:
  "compare_db fs ns dbs (rm, ad) =
    (rm @ map (\<lambda>(p, r). build_delete_form r ns) (filter (\<lambda>(p, r). map_of fs p = None) dbs),
     ad @ map (\<lambda>(p, r). the (map_of fs p))
       (filter (\<lambda>(p, r). \<exists>d. map_of fs p = Some d \<and> \<not> same_file r d) dbs))"
  by (induction fs ns dbs "(rm, ad)" arbitrary: rm ad rule: compare_db.induct)
     (auto split: option.splits)

lemma compare_disk_eq:
  "compare_disk db dl ad = ad @ map snd (filter (\<lambda>(p, d). map_of db p = None) dl)"
  by (induction db dl ad rule: compare_disk.induct) auto

lemma map_fst_iter_map [simp]: "map fst (iter_map w m) = hash_order w (map fst m)"
  by (simp add: iter_map_def comp_def)

lemma distinct_iter_map: "walker_ok w \<Longrightarrow> distinct (map fst m) \<Longrightarrow> distinct (map fst (iter_map w m))"
  by (metis map_fst_iter_map mset_eq_imp_distinct_iff walker_ok_def)

lemma set_iter_map:
  assumes "walker_ok w"
  shows "(k, v) \<in> set (iter_map w m) \<longleftrightarrow> map_of m k = Some v"
proof -
  have "set (hash_order w (map fst m)) = set (map fst m)"
    using assms by (metis mset_eq_setD walker_ok_def)
  then have "(k, v) \<in> set (iter_map w m) \<longleftrightarrow> k \<in> fst ` set m \<and> v = the (map_of m k)"
    by (auto simp: iter_map_def)
  then show ?thesis by (metis map_of_eq_None_iff option.collapse option.sel option.simps(3))
qed

definition changed :: "file_record option \<Rightarrow> create_form option \<Rightarrow> bool" where
  "changed live disk \<longleftrightarrow>
     (case disk of None \<Rightarrow> False
      | Some d \<Rightarrow> (case live of None \<Rightarrow> True | Some r \<Rightarrow> \<not> same_file r d))"

lemma compare_records_spec:
  assumes w: "walker_ok w"
    and db: "map_of db = live" "distinct (map fst db)" "\<And>p r. live p = Some r \<Longrightarrow> path r = p"
    and fs: "map_of fs = disk" "distinct (map fst fs)" "\<And>p d. disk p = Some d \<Longrightarrow> cf_path d = p"
  shows "\<exists>rm ad. compare_records w db fs ns = (rm, ad) \<and>
    distinct (map df_path rm) \<and> distinct (map cf_path ad) \<and>
    (\<forall>f. f \<in> set rm \<longleftrightarrow> (\<exists>p r. live p = Some r \<and> disk p = None \<and> f = build_delete_form r ns)) \<and>
    (\<forall>d. d \<in> set ad \<longleftrightarrow> (\<exists>p. disk p = Some d \<and> changed (live p) (Some d)))"
proof -
  let ?dbi = "iter_map w db" and ?fsi = "iter_map w fs"
  let ?rm = "map (\<lambda>(p, r). build_delete_form r ns) (filter (\<lambda>(p, r). map_of fs p = None) ?dbi)"
  let ?ch = "filter (\<lambda>(p, r). \<exists>d. map_of fs p = Some d \<and> \<not> same_file r d) ?dbi"
  let ?nw = "filter (\<lambda>(p, d). map_of db p = None) ?fsi"
  let ?ad = "map (\<lambda>(p, r). the (map_of fs p)) ?ch @ map snd ?nw"
  have eq: "compare_records w db fs ns = (?rm, ?ad)"
    by (simp add: compare_records_def compare_db_eq compare_disk_eq)
  note mem = set_iter_map [OF w]
  have 1: "map df_path ?rm = map fst (filter (\<lambda>(p, r). map_of fs p = None) ?dbi)"
    using db(1,3) by (auto simp: build_delete_form_def mem)
  have 2: "map cf_path (map (\<lambda>(p, r). the (map_of fs p)) ?ch) = map fst ?ch"
    using fs(1,3) by (auto simp: mem)
  have 3: "map cf_path (map snd ?nw) = map fst ?nw"
    using fs(1,3) by (auto simp: mem)
  have 4: "distinct (map fst (filter P ?dbi))" for P
    using distinct_iter_map [OF w db(2)] by (simp add: distinct_map_filter)
  have 5: "distinct (map fst (filter P ?fsi))" for P
    using distinct_iter_map [OF w fs(2)] by (simp add: distinct_map_filter)
  have 6: "set (map fst ?ch) \<inter> set (map fst ?nw) = {}"
    by (auto simp: mem)
  have "distinct (map df_path ?rm)" unfolding 1 by (rule 4)
  moreover have "distinct (map cf_path ?ad)"
    unfolding map_append 2 3 distinct_append using 4 5 6 by blast
  moreover have "f \<in> set ?rm \<longleftrightarrow> (\<exists>p r. live p = Some r \<and> disk p = None \<and> f = build_delete_form r ns)" for f
    using db(1) fs(1) by (fastforce simp: mem)
  moreover have "d \<in> set ?ad \<longleftrightarrow> (\<exists>p. disk p = Some d \<and> changed (live p) (Some d))" for d
  proof -
    have "d \<in> set (map (\<lambda>(p, r). the (map_of fs p)) ?ch) \<longleftrightarrow>
        (\<exists>p r. disk p = Some d \<and> live p = Some r \<and> \<not> same_file r d)"
      unfolding db(1) [symmetric] fs(1) [symmetric]
      by (auto simp: mem image_iff Bex_def split_paired_Ex) (metis option.sel)
    moreover have "d \<in> set (map snd ?nw) \<longleftrightarrow> (\<exists>p. disk p = Some d \<and> live p = None)"
      unfolding db(1) [symmetric] fs(1) [symmetric]
      by (auto simp: mem image_iff Bex_def split_paired_Ex)
    ultimately show ?thesis
      by (auto simp: changed_def split: option.splits)
  qed
  ultimately show ?thesis using eq by blast
qed

section \<open>One pass\<close>

lemma disk_view_SomeD:
  "disk_view w base ns s p = Some d \<Longrightarrow> cf_path d = p \<and> cf_namespace_id d = ns \<and>
    cf_jid d = None \<and> \<not> cf_deleted d"
  by (auto simp: disk_view_def form_of_def split: if_splits prod.splits)

lemma same_file_created [simp]: "same_file (created_row i d) d"
  by (simp add: same_file_def created_row_def)

text \<open>The differences an index pass finds, as a function of the two views.\<close>

definition out_of_date :: "walker \<Rightarrow> int \<Rightarrow> 'z client_scheme \<Rightarrow> string \<Rightarrow> bool" where
  "out_of_date w ns s p \<longleftrightarrow>
     (case disk_view w (base_path s) ns s p of
        None \<Rightarrow> live_view ns (records s) p \<noteq> None
      | Some d \<Rightarrow> changed (live_view ns (records s) p) (Some d))"

text \<open>The registry's view after the pass.\<close>

definition refreshed ::
    "walker \<Rightarrow> int \<Rightarrow> 'z client_scheme \<Rightarrow> table \<Rightarrow> bool" where
  "refreshed w ns s rows \<longleftrightarrow> wf_table rows \<and>
     (\<forall>m. m \<noteq> ns \<longrightarrow> registry_view m rows = registry_view m (records s)) \<and>
     (\<forall>p. if out_of_date w ns s p
          then (\<exists>i. registry_view ns rows p =
                 Some (case disk_view w (base_path s) ns s p of
                         Some d \<Rightarrow> created_row i d
                       | None \<Rightarrow> deleted_row i
                           (build_delete_form (the (live_view ns (records s) p)) ns)))
          else registry_view ns rows p = registry_view ns (records s) p)"

lemma refreshed_wf: "refreshed w ns s rows \<Longrightarrow> wf_table rows"
  by (simp add: refreshed_def)

lemma refreshed_other:
  "refreshed w ns s rows \<Longrightarrow> m \<noteq> ns \<Longrightarrow> registry_view m rows = registry_view m (records s)"
  by (simp add: refreshed_def)

lemma refreshed_same:
  assumes "refreshed w ns s rows" "\<not> out_of_date w ns s p"
  shows "registry_view ns rows p = registry_view ns (records s) p"
  using assms unfolding refreshed_def by presburger

lemma refreshed_changed:
  assumes "refreshed w ns s rows" "out_of_date w ns s p"
  shows "\<exists>i. registry_view ns rows p =
    Some (case disk_view w (base_path s) ns s p of
            Some d \<Rightarrow> created_row i d
          | None \<Rightarrow> deleted_row i (build_delete_form (the (live_view ns (records s) p)) ns))"
  using assms unfolding refreshed_def by presburger

lemma written_differences:
  assumes wf: "wf_table (records s)"
    and live: "live = live_view ns (records s)" and disk: "disk = disk_view w (base_path s) ns s"
    and d: "distinct (map df_path rm)" "distinct (map cf_path ad)"
    and rm: "\<forall>f. f \<in> set rm \<longleftrightarrow> (\<exists>p r. live p = Some r \<and> disk p = None \<and> f = build_delete_form r ns)"
    and ad: "\<forall>d. d \<in> set ad \<longleftrightarrow> (\<exists>p. disk p = Some d \<and> changed (live p) (Some d))"
  shows "refreshed w ns s (create_records gap ad (delete_records gap rm (records s)))"
proof -
  let ?r1 = "delete_records gap rm (records s)"
  let ?r2 = "create_records gap ad ?r1"
  have dv: "cf_path e = p \<and> cf_namespace_id e = ns" if "disk p = Some e" for p e
    using disk_view_SomeD that unfolding disk by blast
  have lv: "path r = p" if "live p = Some r" for p r
    using live_view_SomeD that unfolding live by blast
  have ns_rm: "namespace_id (deleted_row i f) = ns" if "f \<in> set rm" for f i
    using that rm by (auto simp: deleted_row_def build_delete_form_def)
  have ns_ad: "namespace_id (created_row i f) = ns" if "f \<in> set ad" for f i
  proof -
    from that ad obtain p where "disk p = Some f" by blast
    then show ?thesis using dv by (simp add: created_row_def)
  qed
  have in_rm: "p \<in> df_path ` set rm \<longleftrightarrow> live p \<noteq> None \<and> disk p = None" for p
  proof
    assume "p \<in> df_path ` set rm"
    then obtain f where f: "f \<in> set rm" "p = df_path f" by blast
    from iffD1 [OF spec [OF rm] f(1)] obtain q r
      where "live q = Some r" "disk q = None" "f = build_delete_form r ns" by blast
    moreover from this have "q = p" using f(2) lv by (fastforce simp: build_delete_form_def)
    ultimately show "live p \<noteq> None \<and> disk p = None" by simp
  next
    assume "live p \<noteq> None \<and> disk p = None"
    then obtain r where r: "live p = Some r" "disk p = None" by blast
    with rm have "build_delete_form r ns \<in> set rm" by blast
    moreover have "df_path (build_delete_form r ns) = p"
      using lv [OF r(1)] by (simp add: build_delete_form_def)
    ultimately show "p \<in> df_path ` set rm" by (metis image_eqI)
  qed
  have in_ad: "p \<in> cf_path ` set ad \<longleftrightarrow> (\<exists>d. disk p = Some d \<and> changed (live p) (Some d))" for p
  proof
    assume "p \<in> cf_path ` set ad"
    then obtain f where f: "f \<in> set ad" "p = cf_path f" by blast
    from iffD1 [OF spec [OF ad] f(1)] obtain q
      where q: "disk q = Some f" "changed (live q) (Some f)" by blast
    then have "q = p" using f(2) dv by fastforce
    with q show "\<exists>d. disk p = Some d \<and> changed (live p) (Some d)" by blast
  next
    assume "\<exists>d. disk p = Some d \<and> changed (live p) (Some d)"
    then obtain e where e: "disk p = Some e" "changed (live p) (Some e)" by blast
    with ad have "e \<in> set ad" by blast
    moreover have "cf_path e = p" using dv e(1) by blast
    ultimately show "p \<in> cf_path ` set ad" by (metis image_eqI)
  qed
  have other: "registry_view m ?r2 = registry_view m (records s)" if "m \<noteq> ns" for m
    using deletes.latest_ins_other [of rm "\<lambda>r. namespace_id r = m" gap "records s"]
      creates.latest_ins_other [of ad "\<lambda>r. namespace_id r = m" gap ?r1] ns_rm ns_ad that
    by (auto simp: registry_view_def)
  have view: "if out_of_date w ns s p
      then (\<exists>i. registry_view ns ?r2 p =
             Some (case disk p of Some d \<Rightarrow> created_row i d
                   | None \<Rightarrow> deleted_row i (build_delete_form (the (live p)) ns)))
      else registry_view ns ?r2 p = registry_view ns (records s) p" for p
  proof (cases "disk p")
    case None
    then have ad': "p \<notin> cf_path ` set ad" using in_ad by simp
    then have same: "registry_view ns ?r2 p = registry_view ns ?r1 p"
      unfolding registry_view_def by (rule creates.latest_ins_untouched)
    show ?thesis
    proof (cases "live p")
      case None
      then have "p \<notin> df_path ` set rm" using in_rm by simp
      then have "registry_view ns ?r1 p = registry_view ns (records s) p"
        unfolding registry_view_def by (rule deletes.latest_ins_untouched)
      with None \<open>disk p = None\<close> same show ?thesis by (simp add: out_of_date_def live disk)
    next
      case (Some r)
      with None rm have f: "build_delete_form r ns \<in> set rm" by blast
      have "df_path (build_delete_form r ns) = p"
        using Some lv by (simp add: build_delete_form_def)
      with deletes.latest_ins_touched [OF d(1) f, of "\<lambda>r. namespace_id r = ns" gap "records s"] ns_rm
      have "\<exists>i. registry_view ns ?r1 p = Some (deleted_row i (build_delete_form r ns))"
        by (simp add: registry_view_def)
      with None Some same show ?thesis by (simp add: out_of_date_def live disk)
    qed
  next
    case (Some e)
    then have path: "cf_path e = p" using dv by blast
    show ?thesis
    proof (cases "changed (live p) (Some e)")
      case True
      with Some ad have e: "e \<in> set ad" by blast
      with creates.latest_ins_touched [OF d(2) e, of "\<lambda>r. namespace_id r = ns" gap ?r1] ns_ad path
      have "\<exists>i. registry_view ns ?r2 p = Some (created_row i e)"
        by (simp add: registry_view_def)
      with Some True show ?thesis by (simp add: out_of_date_def live disk)
    next
      case False
      then have "p \<notin> cf_path ` set ad" using in_ad Some by simp
      then have "registry_view ns ?r2 p = registry_view ns ?r1 p"
        unfolding registry_view_def by (rule creates.latest_ins_untouched)
      moreover have "p \<notin> df_path ` set rm" using in_rm Some by simp
      then have "registry_view ns ?r1 p = registry_view ns (records s) p"
        unfolding registry_view_def by (rule deletes.latest_ins_untouched)
      ultimately show ?thesis using Some False by (simp add: out_of_date_def live disk)
    qed
  qed
  show ?thesis
    unfolding refreshed_def
  proof (intro conjI allI impI)
    show "wf_table ?r2" using wf by simp
  qed (rule other view [unfolded live disk]; assumption?)+
qed

lemma check_index_once_spec:
  assumes w: "walker_ok w" and wf: "wf_table (records s)" and st: "storage_ok w (base_path s) s"
  shows "\<exists>rows. check_index_once w gap ns s =
      (Ok (\<exists>p. out_of_date w ns s p), s\<lparr>records := rows\<rparr>) \<and> refreshed w ns s rows \<and>
      ((\<nexists>p. out_of_date w ns s p) \<longrightarrow> rows = records s)"
proof -
  let ?live = "live_view ns (records s)" and ?disk = "disk_view w (base_path s) ns s"
  let ?db = "get_file_records_from_registry ns (records s)"
  obtain fs where fs: "get_file_records_from_disk w (base_path s) ns s = (Ok fs, s)"
    "map_of fs = ?disk" "distinct (map fst fs)"
    using get_from_disk [OF w st] by blast
  have lv: "path r = p" if "?live p = Some r" for p r using live_view_SomeD [OF that] by blast
  have dv: "cf_path e = p" if "?disk p = Some e" for p e using disk_view_SomeD [OF that] by blast
  obtain rm ad where c: "compare_records w ?db fs ns = (rm, ad)"
    "distinct (map df_path rm)" "distinct (map cf_path ad)"
    "\<forall>f. f \<in> set rm \<longleftrightarrow> (\<exists>p r. ?live p = Some r \<and> ?disk p = None \<and> f = build_delete_form r ns)"
    "\<forall>d. d \<in> set ad \<longleftrightarrow> (\<exists>p. ?disk p = Some d \<and> changed (?live p) (Some d))"
    using compare_records_spec [OF w get_from_registry [OF wf] lv fs(2,3) dv] by blast
  let ?rows = "create_records gap ad (delete_records gap rm (records s))"
  have r: "refreshed w ns s ?rows"
    using wf refl refl c(2-5) by (rule written_differences)
  have nil: "rm \<noteq> [] \<or> ad \<noteq> [] \<longleftrightarrow> (\<exists>p. out_of_date w ns s p)"
  proof -
    have "rm \<noteq> [] \<longleftrightarrow> (\<exists>p r. ?live p = Some r \<and> ?disk p = None)"
      using c(4) by (metis list.set_intros(1) neq_Nil_conv empty_iff empty_set)
    moreover have "ad \<noteq> [] \<longleftrightarrow> (\<exists>p d. ?disk p = Some d \<and> changed (?live p) (Some d))"
      using c(5) by (metis list.set_intros(1) neq_Nil_conv empty_iff empty_set)
    moreover have "out_of_date w ns s p \<longleftrightarrow>
        (\<exists>r. ?live p = Some r \<and> ?disk p = None) \<or>
        (\<exists>d. ?disk p = Some d \<and> changed (?live p) (Some d))" for p
      by (auto simp: out_of_date_def split: option.splits)
    ultimately show ?thesis by blast
  qed
  have empty: "create_records gap [] rows = rows" "delete_records gap [] rows = rows" for rows
    by (simp_all add: creates.ins_Nil deletes.ins_Nil)
  have eq: "check_index_once w gap ns s = (Ok (\<exists>p. out_of_date w ns s p), s\<lparr>records := ?rows\<rparr>)"
    using fs(1) c(1) nil by (auto simp: check_index_once_def and_then_def Let_def empty)
  have "(\<nexists>p. out_of_date w ns s p) \<longrightarrow> ?rows = records s"
    using nil by (auto simp: empty)
  with eq r show ?thesis by blast
qed

end
