(* ===== verification/IndexerProps.thy ===== *)
theory IndexerProps
  imports IndexerFacts Samples
begin

text \<open>
  The properties of the indexer: a pass makes the registry agree with the disk and a second
  pass finds nothing to do; it marks exactly the changes; and it takes up exactly the
  entries the rules on names, hidden directories and symbolic links allow.
\<close>

section \<open>Samples\<close>

definition sample_walker :: walker where
  "sample_walker =
     \<lparr>walk = (\<lambda>pred base fs. map (entry_of fs base) (filter (walked pred base fs) (map fst fs))),
      is_symlink = (\<lambda>_. False), to_slash_lossy = (\<lambda>n. n), hash_order = rev\<rparr>"

lemma walker_ok_sample: "walker_ok sample_walker"
proof -
  have "p \<in> fst ` set fs" if "walked pred base fs p" for pred base p and fs :: "(pathbuf \<times> node) list"
    using that by (auto simp: walked_def dest!: map_of_SomeD intro!: image_eqI)
  then show ?thesis by (auto simp: walker_ok_def sample_walker_def)
qed

text \<open>
  A client whose registry still has an old state of \<open>d/a.cook\<close> and a file that is gone.
\<close>

definition sample_client :: client where
  "sample_client = chunker.extend sample_chunker
     \<lparr>records = create_records (\<lambda>_. 0)
       [\<lparr>cf_jid = Some 4, cf_path = ''d/a.cook'', cf_deleted = False, cf_size = 2,
         cf_modified_at = Timestamp 4 0, cf_namespace_id = 1\<rparr>,
        \<lparr>cf_jid = Some 5, cf_path = ''gone.md'', cf_deleted = False, cf_size = 8,
         cf_modified_at = Timestamp 3 0, cf_namespace_id = 1\<rparr>] []\<rparr>"

lemma wf_sample_client: "wf_table (records sample_client)"
proof -
  have "ids_sorted record_id (records sample_client) = sorted_wrt (<) [1::int, 2]"
    unfolding ids_sorted_def by (rule arg_cong [where f = "sorted_wrt (<)"]) code_simp
  then show ?thesis by simp
qed

lemma storage_sample_client: "storage_ok sample_walker (base_path sample_client) sample_client"
proof -
  let ?b = "base_path sample_client"
  have "\<not> filter_eligible sample_walker ?b" by code_simp
  moreover have "\<forall>(p, n) \<in> set (files sample_client). strict_prefix ?b p \<longrightarrow>
      plain_path (path_string (drop (length ?b) p)) \<and>
      p = push_path ?b (path_string (drop (length ?b) p)) \<and>
      utf8_ok (to_bytes (path_string (drop (length ?b) p))) \<and>
      utf8_ok (to_bytes (normal_name (last p))) \<and>
      (case n of File b t \<Rightarrow> length b \<le> 3 | Dir \<Rightarrow> fst (dir_meta sample_client p) \<le> 3)"
    by code_simp
  moreover have "3 \<le> I64_MAX" by (simp add: I64_MAX_def)
  ultimately show ?thesis
    unfolding storage_ok_def by (fastforce split: node.splits)
qed

section \<open>Properties\<close>

text \<open>Claim C6.
  One pass of the indexer over a storage directory: it succeeds, reports whether it found a
  difference, and changes nothing but the registry's rows; afterwards the live records of the
  namespace are exactly the files on disk, each with the disk's size and time; and running
  it again at once reports no difference and writes nothing. So an unchanged directory never
  causes uploads, whatever order the walk and the hash maps produce.
\<close>

theorem index_pass_converges:
  assumes "walker_ok w" "wf_table (records s)" "storage_ok w (base_path s) s"
  shows "\<exists>rows s'. s' = s\<lparr>records := rows\<rparr>
    \<and> check_index_once w gap ns s = (Ok (\<exists>p. out_of_date w ns s p), s')
    \<and> (\<forall>p. case disk_view w (base_path s) ns s p of
           None \<Rightarrow> live_view ns rows p = None
         | Some d \<Rightarrow> \<exists>r. live_view ns rows p = Some r \<and> same_file r d)
    \<and> check_index_once w gap ns s' = (Ok False, s')"
proof -
  obtain rows where one: "check_index_once w gap ns s =
      (Ok (\<exists>p. out_of_date w ns s p), s\<lparr>records := rows\<rparr>)" and r: "refreshed w ns s rows"
    using check_index_once_spec [OF assms] by blast
  let ?s' = "s\<lparr>records := rows\<rparr>"
  have agree: "case disk_view w (base_path s) ns s p of
      None \<Rightarrow> live_view ns rows p = None
    | Some d \<Rightarrow> \<exists>r. live_view ns rows p = Some r \<and> same_file r d" for p
  proof (cases "out_of_date w ns s p")
    case True
    from refreshed_changed [OF r this] show ?thesis
      using disk_view_SomeD [of w "base_path s" ns s p]
      by (auto simp: live_view_def created_row_def deleted_row_def build_delete_form_def
          same_file_def split: option.splits)
  next
    case False
    with r have "live_view ns rows p = live_view ns (records s) p"
      by (simp add: refreshed_same live_view_def)
    with False show ?thesis by (auto simp: out_of_date_def changed_def split: option.splits)
  qed
  have "\<not> out_of_date w ns ?s' p" for p
    using agree [of p] by (auto simp: out_of_date_def changed_def split: option.splits)
  moreover have "wf_table (records ?s')" "storage_ok w (base_path ?s') ?s'"
    using r assms(3) by (simp_all add: refreshed_wf)
  from check_index_once_spec [OF assms(1) this, of gap ns] calculation
  have "check_index_once w gap ns ?s' = (Ok False, ?s')" by fastforce
  with one agree show ?thesis by blast
qed

theorem index_pass_converges_witness:
  "\<exists>s'. check_index_once sample_walker (\<lambda>_. 0) 1 sample_client = (Ok True, s')
    \<and> check_index_once sample_walker (\<lambda>_. 0) 1 s' = (Ok False, s')"
proof -
  have "disk_view sample_walker (base_path sample_client) 1 sample_client ''gone.md'' = None"
    "live_view 1 (records sample_client) ''gone.md'' \<noteq> None" by code_simp+
  then have "out_of_date sample_walker 1 sample_client ''gone.md''" by (simp add: out_of_date_def)
  then have "\<exists>p. out_of_date sample_walker 1 sample_client p" by blast
  then show ?thesis
    using index_pass_converges [OF walker_ok_sample wf_sample_client storage_sample_client,
        of "\<lambda>_. 0" 1] by fastforce
qed

text \<open>Claim C19.
  Which records a pass touches: a path whose registry state agrees with the disk keeps its
  current row untouched (with the jid the server gave it); a path that changed, appeared or
  disappeared gets a new current row without a jid, marked deleted exactly when the file is
  gone, so exactly these are then waiting for upload, besides what was waiting before; the
  records of other namespaces stay as they are.
\<close>

theorem index_pass_marks_changes:
  assumes "walker_ok w" "wf_table (records s)" "storage_ok w (base_path s) s"
    and "check_index_once w gap ns s = (res, s')"
  shows "(\<forall>m. m \<noteq> ns \<longrightarrow> registry_view m (records s') = registry_view m (records s))
    \<and> (\<forall>p. \<not> out_of_date w ns s p \<longrightarrow>
          registry_view ns (records s') p = registry_view ns (records s) p)
    \<and> (\<forall>p. out_of_date w ns s p \<longrightarrow> (\<exists>r. registry_view ns (records s') p = Some r \<and> jid r = None
          \<and> (deleted r \<longleftrightarrow> disk_view w (base_path s) ns s p = None)))
    \<and> path ` set (updated_locally ns (records s')) =
        path ` set (updated_locally ns (records s)) \<union> {p. out_of_date w ns s p}"
proof -
  from check_index_once_spec [OF assms(1-3), of gap ns] assms(4)
  have r: "refreshed w ns s (records s')" by auto
  have old: "registry_view ns (records s') p = registry_view ns (records s) p"
    if "\<not> out_of_date w ns s p" for p
    using r that by (rule refreshed_same)
  have new: "\<exists>r. registry_view ns (records s') p = Some r \<and> jid r = None
      \<and> (deleted r \<longleftrightarrow> disk_view w (base_path s) ns s p = None)" if "out_of_date w ns s p" for p
    using refreshed_changed [OF r that] disk_view_SomeD [of w "base_path s" ns s p]
    by (auto simp: created_row_def deleted_row_def build_delete_form_def split: option.splits)
  have pending: "p \<in> path ` set (updated_locally ns rows) \<longleftrightarrow>
      (\<exists>r. registry_view ns rows p = Some r \<and> jid r = None)" if "wf_table rows" for p rows
    using set_updated_locally [OF that, of ns] view_SomeD(2) by (fastforce simp: image_iff)
  have "p \<in> path ` set (updated_locally ns (records s')) \<longleftrightarrow>
      p \<in> path ` set (updated_locally ns (records s)) \<or> out_of_date w ns s p" for p
    unfolding pending [OF refreshed_wf [OF r]] pending [OF assms(2)]
    using old [of p] new [of p] by (cases "out_of_date w ns s p") auto
  then show ?thesis
    using refreshed_other [OF r] old new by blast
qed

theorem index_pass_marks_changes_witness:
  "\<exists>s'. path ` set (updated_locally 1 (records s')) =
      path ` set (updated_locally 1 (records sample_client)) \<union>
        {p. out_of_date sample_walker 1 sample_client p}
    \<and> s' = snd (check_index_once sample_walker (\<lambda>_. 0) 1 sample_client)"
  using index_pass_marks_changes [OF walker_ok_sample wf_sample_client storage_sample_client
      prod.collapse [symmetric], of 1 "\<lambda>_. 0"] by simp

text \<open>
  The scan of the disk succeeds without changing anything and yields a record for exactly
  the paths that exist below the storage directory, have a listed name, are no symbolic
  link, and neither are nor lie in a directory whose name starts with a dot. A hidden
  storage directory itself does not hide its content.
\<close>

theorem index_scans_exactly:
  assumes "walker_ok w" "storage_ok w (base_path s) s" "plain_path rel"
  shows "\<exists>m. get_file_records_from_disk w (base_path s) ns s = (Ok m, s)
    \<and> (map_of m rel \<noteq> None \<longleftrightarrow>
        node_at s (push_path (base_path s) rel) \<noteq> None
        \<and> (is_text (push_path (base_path s) rel) \<or> is_binary (push_path (base_path s) rel))
        \<and> \<not> is_symlink w (push_path (base_path s) rel)
        \<and> (\<forall>q. strict_prefix (base_path s) q \<longrightarrow> prefix q (push_path (base_path s) rel) \<longrightarrow>
              node_at s q = Some Dir \<longrightarrow> \<not> prefix [DOT] (normal_name (last q))))"
proof -
  let ?b = "base_path s" and ?p = "push_path (base_path s) rel"
  obtain m where m: "get_file_records_from_disk w ?b ns s = (Ok m, s)"
    "map_of m = disk_view w ?b ns s"
    using get_from_disk [OF assms(1,2)] by blast
  have below: "prefix ?b ?p" using assms(3) by (simp add: push_path_plain)
  have pass: "descend (entry_of (files s) ?b q) \<longleftrightarrow>
      (node_at s q = Some Dir \<longrightarrow> strict_prefix ?b q \<longrightarrow> \<not> prefix [DOT] (normal_name (last q)))"
    if "prefix ?b q" for q
  proof (cases "strict_prefix ?b q")
    case True
    then have "q \<noteq> []" "0 < length q - length ?b" by (auto dest: prefix_length_less)
    with True storage_okD(4) [OF assms(2) _ True] show ?thesis
      by (auto simp: descend_def entry_of_def is_dot_dir_def entry_name_def node_at_def)
  next
    case False
    with that show ?thesis
      by (auto simp: descend_def entry_of_def is_dot_dir_def strict_prefix_def)
  qed
  have "walked descend ?b (files s) ?p \<longleftrightarrow> node_at s ?p \<noteq> None \<and>
      (\<forall>q. strict_prefix ?b q \<longrightarrow> prefix q ?p \<longrightarrow> node_at s q = Some Dir \<longrightarrow>
        \<not> prefix [DOT] (normal_name (last q)))"
    using below pass by (auto simp: walked_def node_at_def in_set_prefixes strict_prefix_def)
  then show ?thesis
    using m assms(3) by (auto simp: disk_view_def indexed_def filter_eligible_def)
qed

theorem index_scans_exactly_witness:
  "\<exists>m. get_file_records_from_disk sample_walker sample_base 1 sample_client = (Ok m, sample_client)
    \<and> map_of m ''d/a.cook'' \<noteq> None"
proof -
  have b: "base_path sample_client = sample_base" by code_simp
  have p: "push_path sample_base ''d/a.cook'' = sample_base @ [Normal ''d'', Normal ''a.cook'']"
    by code_simp
  have facts: "node_at sample_client (push_path sample_base ''d/a.cook'') \<noteq> None"
    "is_text (push_path sample_base ''d/a.cook'')"
    "\<not> is_symlink sample_walker (push_path sample_base ''d/a.cook'')" by code_simp+
  have "\<forall>q \<in> set (prefixes (push_path sample_base ''d/a.cook'')).
      node_at sample_client q = Some Dir \<longrightarrow> strict_prefix sample_base q \<longrightarrow>
      \<not> prefix [DOT] (normal_name (last q))" by code_simp
  with facts show ?thesis
    using index_scans_exactly [OF walker_ok_sample storage_sample_client plain_sample, of 1]
    unfolding b by (auto simp: in_set_prefixes)
qed

end
