(* ===== verification/EndToEndProps.thy ===== *)
theory EndToEndProps
  imports Loopback SyncerProps IndexerProps "HOL-Library.Code_Target_Nat"
begin

text \<open>
  The properties of client and server together: an upload settles in at most two passes, a
  download leaves the client with what the server has, and the files of one client arrive at
  another. The samples run the whole of both programs, linked by the instance of \<open>Loopback\<close>.
\<close>

section \<open>Samples\<close>

definition bare_server :: server where
  "bare_server =
     \<lparr>files = [([RootDir], Dir)], dir_meta = (\<lambda>_. (0, Timestamp 0 0)), clock = Timestamp 2 0,
      rows = [], notifier = \<lparr>clients = [], fired = {}, fresh = 0\<rparr>\<rparr>"

definition fresh_client :: client where
  "fresh_client = chunker.extend
     (sample_chunker\<lparr>files := [([RootDir], Dir), (sample_base, Dir)], clock := Timestamp 9 0\<rparr>) \<lparr>records = []\<rparr>"

abbreviation (input) sync_a :: "server sync_env" where "sync_a \<equiv> loop_sync ''a'' 1"
abbreviation (input) sync_b :: "server sync_env" where "sync_b \<equiv> loop_sync ''b'' 3"

lemma loop_sync_fields [simp]:
  "ext (loop_sync u ns) = sample_externals" "namespace (loop_sync u ns) = ns" "id_gap (loop_sync u ns) = (\<lambda>_. 0)"
  by (simp_all add: loop_sync_def)

lemma hosted_bare: "hosted loop_server 7 (loop_sync u ns) bare_server"
proof -
  have node: "node_at bare_server p = (if p = [RootDir] then Some Dir else None)" for p
    by (simp add: node_at_def bare_server_def)
  have r: "store_root (Some ''/up'') = [RootDir, Normal ''up'']" by code_simp
  have "wf_world bare_server" by (auto simp: wf_world_def node dir_at_def)
  moreover have "writable bare_server (stored_at (Some ''/up'') i)" for i
    by (auto simp: writable_def makeable_def node) (simp add: stored_at_def r)
  ultimately have "server_ok loop_server bare_server"
    by (simp add: server_ok_def store_ok_def loop_server_def bare_server_def ids_sorted_def)
  then show ?thesis using linked_loop by (simp add: hosted_def)
qed

lemma pending_todo: "updated_locally 1 (records pending_client) = [pending_row]"
  by code_simp

lemma pending_row_facts:
  "path pending_row = ''d/a.cook''" "deleted pending_row = False" "listed (path pending_row) = True"
  "is_text (components (path pending_row)) = True"
  "content_at pending_client (full_path pending_client (path pending_row)) = Some [97, 10, 98]"
  "chunk_list sample_externals pending_client pending_row = [[97, 10], [98]]"
  by code_simp+

lemma index_pending: "check_index_once sample_walker (\<lambda>_. 0) 1 pending_client = (Ok False, pending_client)"
proof -
  have same: "files pending_client = files sample_client" "base_path pending_client = base_path sample_client"
    "dir_meta pending_client = dir_meta sample_client"
    by (simp_all add: pending_client_def sample_client_def chunker.defs)
  have "storage_ok sample_walker (base_path pending_client) pending_client"
    using storage_sample_client unfolding storage_ok_def same .
  from check_index_once_spec [OF walker_ok_sample wf_pending_client this, of "\<lambda>_. 0" 1] obtain rows where
    r: "check_index_once sample_walker (\<lambda>_. 0) 1 pending_client =
      (Ok (\<exists>p. out_of_date sample_walker 1 pending_client p), pending_client\<lparr>records := rows\<rparr>)"
    "(\<nexists>p. out_of_date sample_walker 1 pending_client p) \<longrightarrow> rows = records pending_client" by blast
  have "fst (check_index_once sample_walker (\<lambda>_. 0) 1 pending_client) = Ok False" by code_simp
  with r show ?thesis by simp
qed

lemma index_pending_a:
  "check_index_once sample_walker (id_gap sync_a) (namespace sync_a) pending_client = (Ok False, pending_client)"
  by (simp add: index_pending)

lemma pending_queue:
  "fst (upload_files sync_a [pending_row] empty_queue True (pending_client, bare_server)) =
   Ok (\<lparr>closed = [], current_batch = [(''026b000000'', [97, 10]), (''0162000000'', [98])], batch_size = 3\<rparr>, False)"
  by code_simp

lemma pending_batch_fits: "batch_fits sync_a ''0-f'' [(''026b000000'', [97, 10]), (''0162000000'', [98])]"
proof -
  have "uuid_text ''0-f''" by code_simp
  moreover have "length (upload_body (upload_boundary ''0-f'')
      [(''026b000000'', [97, 10]), (''0162000000'', [98])]) \<le> DATA_FORM_LIMIT"
    by (simp add: upload_body_def upload_part_def upload_boundary_def CRLF_def DATA_FORM_LIMIT_def)
  moreover have "\<not> sublist (delimiter (upload_boundary ''0-f'')) d" if "length d < 30" for d
    using sublist_length [of "delimiter (upload_boundary ''0-f'')" d] that
    by (auto simp: delimiter_def upload_boundary_def)
  ultimately show ?thesis by (simp add: batch_fits_def)
qed

lemma sendable_pending: "sendable sync_a pending_client bare_server"
proof -
  have "commit_fits sync_a (path pending_row) (deleted pending_row)
      (commit_ids sample_externals pending_client pending_row) = True" by code_simp
  moreover have "batches_fit batch_fits sync_a pending_client bare_server"
    unfolding batches_fit_def loop_sync_fields pending_todo pending_queue
    using pending_batch_fits by (simp add: batches_def loop_sync_def)
  ultimately show ?thesis
    using digest_ok_sample wf_pending_client pending_row_facts
    by (simp add: sendable_def pending_todo uploadable_def steady_def)
qed

lemma pending_ids: "commit_ids sample_externals pending_client pending_row = ''026b000000,0162000000''"
  by code_simp

lemma pending_known:
  "known sample_externals pending_client {pending_row} i d \<longleftrightarrow>
    (i, d) \<in> {(''026b000000'', [97, 10]), (''0162000000'', [98])}"
proof -
  have "cache pending_client = Map.empty" by (simp add: pending_client_def sample_chunker_def chunker.defs)
  moreover have "hash_size_of (path pending_row) = 10" by code_simp
  ultimately show ?thesis
    using pending_row_facts(2,6) ids_sample by (auto simp: known_def)
qed

lemma bare_facts: "chunk_at loop_server bare_server i = None" "record_of 7 bare_server p = None"
proof -
  have "stored_at d i \<noteq> [RootDir]" for d
  proof
    assume eq: "stored_at d i = [RootDir]"
    show False using last_stored_at [of d i] unfolding eq by simp
  qed
  then show "chunk_at loop_server bare_server i = None"
    by (simp add: chunk_at_def content_at_def node_at_def bare_server_def)
  show "record_of 7 bare_server p = None" by (simp add: record_of_def bare_server_def server_view_def)
qed

lemma complete_bare: "complete loop_server 7 bare_server"
  by (simp add: complete_def all_stored_def news_def bare_facts)

lemma no_clash_pending: "no_clash loop_server sync_a pending_client bare_server"
  unfolding no_clash_def Let_def loop_sync_fields pending_todo list.set bare_facts pending_known by auto

section \<open>The two programs together\<close>

text \<open>What the sample client has uploaded, and that another client can fetch it.\<close>

lemma sample_upload:
  "\<exists>c' v'. run_upload_once sample_walker sync_a (pending_client, bare_server) = (Ok (), (c', v')) \<and>
    hosted loop_server 7 sync_b v' \<and> complete loop_server 7 v' \<and>
    (\<exists>j > 0. record_of 7 v' = [''d/a.cook'' \<mapsto> (j, False, ''026b000000,0162000000'')]) \<and>
    chunk_at loop_server v' ''026b000000'' = Some [97, 10] \<and> chunk_at loop_server v' ''0162000000'' = Some [98]"
proof -
  have s: "digest_ok (ext sync_a)" "no_eviction (ext sync_a) = ext sync_a" "wf_table (records pending_client)"
    "\<forall>f \<in> set (updated_locally (namespace sync_a) (records pending_client)).
      uploadable (ext sync_a) pending_client f \<and>
      commit_fits sync_a (path f) (deleted f) (commit_ids (ext sync_a) pending_client f)"
    "batches_fit batch_fits sync_a pending_client bare_server"
    using sendable_pending unfolding sendable_def by blast+
  from served.upload_passes_sync [OF hosted_bare s, unfolded loop_sync_fields pending_todo list.set]
  obtain c' v' where r: "upload_passes sync_a (pending_client, bare_server) = (Ok (), (c', v'))"
    "hosted loop_server 7 sync_a v'"
    "\<exists>j. record_of 7 v' (path pending_row) = Some (j, deleted pending_row,
        commit_ids sample_externals pending_client pending_row) \<and>
      (\<forall>k \<in> needs sample_externals pending_client pending_row. chunk_at loop_server v' k \<noteq> None)"
    "\<forall>p. p \<notin> path ` {pending_row} \<longrightarrow> record_of 7 v' p = record_of 7 bare_server p"
    "\<forall>i d. chunk_at loop_server bare_server i = Some d \<and>
      i \<notin> \<Union> (needs sample_externals pending_client ` {pending_row}) \<longrightarrow> chunk_at loop_server v' i = Some d"
    "\<forall>i d. chunk_at loop_server v' i = Some d \<longrightarrow> chunk_at loop_server bare_server i = Some d \<or>
      known sample_externals pending_client {pending_row} i d" by blast
  have run: "run_upload_once sample_walker sync_a (pending_client, bare_server) = (Ok (), (c', v'))"
    using run_upload_once_eq [of sample_walker sync_a pending_client False pending_client bare_server]
      index_pending r(1) by simp
  have "complete loop_server 7 v'"
    by (rule complete_kept [OF complete_bare hosted_bare [of "''a''" 1], where F = "{pending_row}"])
       (use r(3-5) digest_ok_sample in auto)
  moreover have host: "hosted loop_server 7 sync_b v'"
    using r(2) linked_loop by (simp add: hosted_def)
  moreover obtain j where j: "record_of 7 v' ''d/a.cook'' = Some (j, False, ''026b000000,0162000000'')"
    and st: "\<forall>k \<in> needs sample_externals pending_client pending_row. chunk_at loop_server v' k \<noteq> None"
    using r(3) unfolding pending_row_facts pending_ids by blast
  have "record_of 7 v' = [''d/a.cook'' \<mapsto> (j, False, ''026b000000,0162000000'')]"
  proof
    show "record_of 7 v' p = [''d/a.cook'' \<mapsto> (j, False, ''026b000000,0162000000'')] p" for p
      using r(4) j pending_row_facts(1) bare_facts(2) by (cases "p = ''d/a.cook''") auto
  qed
  moreover have "0 < j" using record_of_positive [OF host j] .
  moreover have "needs sample_externals pending_client pending_row = {''026b000000'', ''0162000000''}"
  proof -
    have "hash_size_of (path pending_row) = 10" by code_simp
    then show ?thesis
      unfolding needs_eq [OF digest_ok_sample] pending_row_facts(6) using ids_sample by simp
  qed
  with st r(6) have "chunk_at loop_server v' ''026b000000'' = Some [97, 10]"
    "chunk_at loop_server v' ''0162000000'' = Some [98]"
    unfolding bare_facts pending_known by auto
  ultimately show ?thesis using run by blast
qed

lemma node_fresh: "node_at fresh_client p =
    (if p = [RootDir] \<or> p = [RootDir, Normal ''r''] then Some Dir else None)"
  by (simp add: node_at_def fresh_client_def sample_chunker_def chunker.defs sample_base_def)

lemma sample_fetchable:
  assumes "record_of 7 v = [''d/a.cook'' \<mapsto> (j, False, ''026b000000,0162000000'')]" "0 < j"
    "chunk_at loop_server v ''026b000000'' = Some [97, 10]" "chunk_at loop_server v ''0162000000'' = Some [98]"
  shows "fetchable loop_server 7 sync_b fresh_client v"
    "news (record_of 7 v) (latest_local sync_b fresh_client) =
      {\<lparr>rr_id = j, rr_path = ''d/a.cook'', rr_deleted = False, rr_chunk_ids = ''026b000000,0162000000''\<rparr>}"
    "latest_local sync_b fresh_client = 0"
proof -
  let ?d = "\<lparr>rr_id = j, rr_path = ''d/a.cook'', rr_deleted = False, rr_chunk_ids = ''026b000000,0162000000''\<rparr>"
  let ?ids = "[''026b000000'', ''0162000000'']"
  show late: "latest_local sync_b fresh_client = 0"
    by (simp add: latest_local_def latest_jid_def fresh_client_def chunker.defs)
  show news: "news (record_of 7 v) (latest_local sync_b fresh_client) = {?d}"
    unfolding late news_def assms(1) using assms(2) by (auto split: if_splits)
  have ids: "record_ids ?d = ?ids" unfolding record_ids_def response_record.select_convs by code_simp
  have content: "stored_content (chunk_at loop_server v) ?ids = [97, 10, 98]"
    by (simp add: stored_content_def assms(3,4))
  have ev: "full_path fresh_client ''d/a.cook'' = [RootDir, Normal ''r'', Normal ''d'', Normal ''a.cook'']"
    "exists_file ''d/a.cook'' fresh_client = False" by code_simp+
  have cache: "cache fresh_client = Map.empty"
    by (simp add: fresh_client_def sample_chunker_def chunker.defs)
  have "writable fresh_client (full_path fresh_client ''d/a.cook'')"
    unfolding ev(1) by (simp add: writable_def makeable_def node_fresh)
  then have "room_for fresh_client (chunk_at loop_server v) {?d}"
    using ids content ev(2) by (simp add: room_for_def warmable_def place_free_def I64_MAX_def)
  moreover have "fetch_fits (download_fits loop_server) (chunk_at loop_server v) sync_b ds fresh_client v"
    if ds: "distinct ds" "set ds = {?d}" for ds
  proof -
    from ds have "ds = [?d]" by (cases ds; cases "tl ds") auto
    moreover have "check_chunk k fresh_client = False" if "k \<in> set ?ids" for k
      using that by (auto simp: check_chunk_def cc.contains_iff cache_contains_def cache)
    then have "collect_needed sync_b [?d] [] fresh_client = (Ok ?ids, fresh_client)"
      using ids ev(2) by (simp add: and_then_def ret_def record_ids_def del: split_on.simps)
    moreover have "download_fits loop_server sync_b v ?ids"
    proof -
      have "length (download_form_body (http sync_b) ?ids) \<le> FORM_LIMIT = True" by code_simp
      moreover have "\<not> sublist (boundary_bytes (map (draw loop_server rq) [0..<BOUNDARY_LEN])) b"
        if "length b < 10" for b rq
        using sublist_length [of "boundary_bytes (map (draw loop_server rq) [0..<BOUNDARY_LEN])" b] that
        by (auto simp: boundary_bytes_def BOUNDARY_LEN_def)
      ultimately show ?thesis using assms(3,4) by (simp add: download_fits_def)
    qed
    ultimately show ?thesis by (simp add: fetch_fits_def cache list_all_iff)
  qed
  ultimately show "fetchable loop_server 7 sync_b fresh_client v"
    unfolding fetchable_def Let_def news using late digest_ok_sample by simp
qed

section \<open>Properties\<close>

text \<open>Claim C7.
  A one-off upload to this server settles: when the client's files can be read, its requests
  are within the limits and no id stands for two contents, the run succeeds within its two
  passes; it changes no file; afterwards no local change waits, every change is the server's
  current record of its path under a positive id, which the registry's row now has, and the
  chunks stored on the server under the record's ids are, put together, the file. The
  records of other paths are as before, and the server still has every chunk it names.
\<close>

theorem upload_once_settles:
  assumes "check_index_once w (id_gap e) (namespace e) c0 = (Ok b, c)"
    and "hosted E user e v" "complete E user v" "sendable e c v" "no_clash E e c v"
  shows "\<exists>c' v'. run_upload_once w e (c0, v) = (Ok (), (c', v')) \<and> files c' = files c
    \<and> hosted E user e v' \<and> complete E user v' \<and> updated_locally (namespace e) (records c') = []
    \<and> (\<forall>f \<in> set (updated_locally (namespace e) (records c)). \<exists>j ids.
        record_of user v' (path f) = Some (j, deleted f, ids) \<and> 0 < j \<and>
        registry_view (namespace e) (records c') (path f) = Some (f\<lparr>jid := Some j\<rparr>) \<and>
        (\<not> deleted f \<longrightarrow> Some (stored_content (chunk_at E v') (split_on Syncer.COMMA ids)) =
          content_at c (full_path c (path f))))
    \<and> (\<forall>p. p \<notin> path ` set (updated_locally (namespace e) (records c)) \<longrightarrow>
        record_of user v' p = record_of user v p)"
proof -
  from uploaded_to_server [OF assms(2,4,3,5)] obtain c' v' where
    r: "upload_passes e (c, v) = (Ok (), (c', v'))" "tree_kept c c'"
    and rest: "hosted E user e v'" "complete E user v'" "updated_locally (namespace e) (records c') = []"
    "\<forall>f \<in> set (updated_locally (namespace e) (records c)). \<exists>j ids.
        record_of user v' (path f) = Some (j, deleted f, ids) \<and> 0 < j \<and>
        registry_view (namespace e) (records c') (path f) = Some (f\<lparr>jid := Some j\<rparr>) \<and>
        (\<not> deleted f \<longrightarrow> Some (stored_content (chunk_at E v') (split_on Syncer.COMMA ids)) =
          content_at c (full_path c (path f)))"
    "\<forall>p. p \<notin> path ` set (updated_locally (namespace e) (records c)) \<longrightarrow>
        record_of user v' p = record_of user v p" by blast
  have "run_upload_once w e (c0, v) = (Ok (), (c', v'))"
    using run_upload_once_eq [OF assms(1)] r(1) by simp
  moreover have "files c' = files c" using tree_keptD [OF r(2)] by simp
  ultimately show ?thesis using rest by (intro exI [of _ c'] exI [of _ v'] conjI)
qed

theorem upload_once_settles_witness:
  "\<exists>c' v'. run_upload_once sample_walker sync_a (pending_client, bare_server) = (Ok (), (c', v'))
    \<and> updated_locally 1 (records c') = []"
  using upload_once_settles [OF index_pending_a hosted_bare complete_bare sendable_pending
      no_clash_pending] unfolding loop_sync_fields by blast

text \<open>Claim C9.
  A one-off download from this server makes the client a mirror of the user's records: when
  there is room for them, the run succeeds and leaves the server as it is; every record newer
  than the client's last id is there, the file put together from the stored chunks (or gone)
  and the row with the server's id and the file's size; no other file is touched; and a
  further pass finds nothing new.
\<close>

theorem download_once_mirrors:
  assumes "hosted E user e v" "complete E user v" "fetchable E user e c v"
  shows "\<exists>c' c''. run_download_once e (c, v) = (Ok (), (c', v))
    \<and> (\<forall>d \<in> news (record_of user v) (latest_local e c). received e c c' (chunk_at E v) d)
    \<and> (\<forall>q. q \<notin> (full_path c \<circ> rr_path) ` news (record_of user v) (latest_local e c) \<longrightarrow>
        file_at c' q = file_at c q)
    \<and> check_download_once e (c', v) = (Ok False, (c'', v))"
proof -
  from downloaded_from_server [OF assms] obtain ds c' where
    r: "check_download_once e (c, v) = (Ok (ds \<noteq> []), (c', v))"
    "set ds = news (record_of user v) (latest_local e c)"
    "\<forall>d \<in> set ds. received e c c' (chunk_at E v) d"
    "\<forall>q. q \<notin> (full_path c \<circ> rr_path) ` set ds \<longrightarrow> file_at c' q = file_at c q"
    "news (record_of user v) (latest_local e c') = {}" by blast
  have "digest_ok (ext e)" "no_eviction (ext e) = ext e"
    using assms(3) unfolding fetchable_def by blast+
  from nothing_new [OF assms(1) this r(5)] obtain c'' where
    "check_download_once e (c', v) = (Ok False, (c'', v))" by blast
  moreover have "run_download_once e (c, v) = (Ok (), (c', v))"
    using r(1) by (simp add: run_download_once_def and_then_def ret_def)
  ultimately show ?thesis
    using r(3,4) unfolding r(2) by (intro exI [of _ c'] exI [of _ c''] conjI)
qed

theorem download_once_mirrors_witness:
  "\<exists>v c'. run_download_once sync_b (fresh_client, v) = (Ok (), (c', v))
    \<and> (\<exists>d. news (record_of 7 v) (latest_local sync_b fresh_client) = {d} \<and>
         received sync_b fresh_client c' (chunk_at loop_server v) d)"
proof -
  from sample_upload obtain v j where v: "hosted loop_server 7 sync_b v" "complete loop_server 7 v"
    "0 < j" "record_of 7 v = [''d/a.cook'' \<mapsto> (j, False, ''026b000000,0162000000'')]"
    "chunk_at loop_server v ''026b000000'' = Some [97, 10]" "chunk_at loop_server v ''0162000000'' = Some [98]"
    by blast
  note f = sample_fetchable [OF v(4,3,5,6)]
  from download_once_mirrors [OF v(1,2) f(1), unfolded f(2)] obtain c' where
    "run_download_once sync_b (fresh_client, v) = (Ok (), (c', v))"
    "\<forall>d \<in> {\<lparr>rr_id = j, rr_path = ''d/a.cook'', rr_deleted = False,
      rr_chunk_ids = ''026b000000,0162000000''\<rparr>}. received sync_b fresh_client c' (chunk_at loop_server v) d"
    by (elim exE conjE)
  with f(2) show ?thesis by (intro exI [of _ v] exI [of _ c']) simp
qed

text \<open>What the second client's download finds after the first one's upload.\<close>

lemma uploaded_reaches_other:
  assumes "check_index_once w (id_gap e) (namespace e) c0 = (Ok b, c)"
    and "hosted E user e v" "complete E user v" "sendable e c v" "no_clash E e c v"
    and "run_upload_once w e (c0, v) = (Ok (), (c1, v1))"
    and "linked E user e2" "latest_local e2 c2 = 0" "fetchable E user e2 c2 v1"
  shows "\<exists>b c3. check_download_once e2 (c2, v1) = (Ok b, (c3, v1))
    \<and> (\<forall>f \<in> set (updated_locally (namespace e) (records c)).
        content_at c3 (full_path c2 (path f)) =
          (if deleted f then None else content_at c (full_path c (path f)))
        \<and> (\<exists>j r. registry_view (namespace e) (records c1) (path f) = Some (f\<lparr>jid := Some j\<rparr>)
            \<and> registry_view (namespace e2) (records c3) (path f) = Some r
            \<and> jid r = Some j \<and> deleted r = deleted f))"
proof -
  from uploaded_to_server [OF assms(2,4,3,5)] assms(6) run_upload_once_eq [OF assms(1), of v]
  have up: "hosted E user e v1" "complete E user v1"
    and each: "\<forall>f \<in> set (updated_locally (namespace e) (records c)). \<exists>j ids.
        record_of user v1 (path f) = Some (j, deleted f, ids) \<and> 0 < j \<and>
        registry_view (namespace e) (records c1) (path f) = Some (f\<lparr>jid := Some j\<rparr>) \<and>
        (\<not> deleted f \<longrightarrow> Some (stored_content (chunk_at E v1) (split_on Syncer.COMMA ids)) =
          content_at c (full_path c (path f)))" by auto
  have "hosted E user e2 v1" using up(1) assms(7) by (simp add: hosted_def)
  from downloaded_from_server [OF this up(2) assms(9)] assms(8) obtain ds c3 where
    r: "check_download_once e2 (c2, v1) = (Ok (ds \<noteq> []), (c3, v1))"
    "set ds = news (record_of user v1) 0" "\<forall>d \<in> set ds. received e2 c2 c3 (chunk_at E v1) d" by auto
  have "content_at c3 (full_path c2 (path f)) =
          (if deleted f then None else content_at c (full_path c (path f)))
        \<and> (\<exists>j r. registry_view (namespace e) (records c1) (path f) = Some (f\<lparr>jid := Some j\<rparr>)
            \<and> registry_view (namespace e2) (records c3) (path f) = Some r
            \<and> jid r = Some j \<and> deleted r = deleted f)"
    if f: "f \<in> set (updated_locally (namespace e) (records c))" for f
  proof -
    from each f obtain j ids where j: "record_of user v1 (path f) = Some (j, deleted f, ids)" "0 < j"
      "registry_view (namespace e) (records c1) (path f) = Some (f\<lparr>jid := Some j\<rparr>)"
      "\<not> deleted f \<longrightarrow> Some (stored_content (chunk_at E v1) (split_on Syncer.COMMA ids)) =
        content_at c (full_path c (path f))" by blast
    let ?d = "\<lparr>rr_id = j, rr_path = path f, rr_deleted = deleted f, rr_chunk_ids = ids\<rparr>"
    have "?d \<in> set ds" using j(1,2) unfolding r(2) by (simp add: news_def)
    with r(3) have got: "received e2 c2 c3 (chunk_at E v1) ?d" by blast
    then have "content_at c3 (full_path c2 (path f)) =
        (if deleted f then None else content_at c (full_path c (path f)))"
      using j(4) by (auto simp: received_def record_ids_def file_at_content)
    moreover from got obtain r' where "registry_view (namespace e2) (records c3) (path f) = Some r'"
      "jid r' = Some j" "deleted r' = deleted f" by (auto simp: received_def)
    ultimately show ?thesis using j(3) by blast
  qed
  with r(1) show ?thesis by blast
qed

text \<open>Claim C1.
  What one client uploads another one gets: after a one-off upload, a client of the same user
  that has not synced yet and downloads once has, for every change the first one had waiting,
  exactly its file (or no file, for a deletion), and a row with the same server id.
\<close>

theorem upload_reaches_other_client:
  assumes "check_index_once w (id_gap e) (namespace e) c0 = (Ok b, c)"
    and "hosted E user e v" "complete E user v" "sendable e c v" "no_clash E e c v"
    and "run_upload_once w e (c0, v) = (Ok (), (c1, v1))"
    and "linked E user e2" "latest_local e2 c2 = 0" "fetchable E user e2 c2 v1"
  shows "\<exists>c3. run_download_once e2 (c2, v1) = (Ok (), (c3, v1))
    \<and> (\<forall>f \<in> set (updated_locally (namespace e) (records c)).
        content_at c3 (full_path c2 (path f)) =
          (if deleted f then None else content_at c (full_path c (path f)))
        \<and> (\<exists>j r. registry_view (namespace e) (records c1) (path f) = Some (f\<lparr>jid := Some j\<rparr>)
            \<and> registry_view (namespace e2) (records c3) (path f) = Some r
            \<and> jid r = Some j \<and> deleted r = deleted f))"
proof -
  from uploaded_reaches_other [OF assms] obtain b c3 where
    d: "check_download_once e2 (c2, v1) = (Ok b, (c3, v1))"
    and each: "\<forall>f \<in> set (updated_locally (namespace e) (records c)).
        content_at c3 (full_path c2 (path f)) =
          (if deleted f then None else content_at c (full_path c (path f)))
        \<and> (\<exists>j r. registry_view (namespace e) (records c1) (path f) = Some (f\<lparr>jid := Some j\<rparr>)
            \<and> registry_view (namespace e2) (records c3) (path f) = Some r
            \<and> jid r = Some j \<and> deleted r = deleted f)" by blast
  have "run_download_once e2 (c2, v1) = (Ok (), (c3, v1))"
    using d by (simp add: run_download_once_def and_then_def ret_def)
  with each show ?thesis by blast
qed

theorem upload_reaches_other_client_witness:
  "\<exists>c1 v1 c3. run_upload_once sample_walker sync_a (pending_client, bare_server) = (Ok (), (c1, v1))
    \<and> run_download_once sync_b (fresh_client, v1) = (Ok (), (c3, v1))
    \<and> content_at c3 (full_path fresh_client ''d/a.cook'') = Some [97, 10, 98]"
proof -
  from sample_upload obtain c1 v1 j where
    run: "run_upload_once sample_walker sync_a (pending_client, bare_server) = (Ok (), (c1, v1))"
    and v: "0 < j" "record_of 7 v1 = [''d/a.cook'' \<mapsto> (j, False, ''026b000000,0162000000'')]"
    "chunk_at loop_server v1 ''026b000000'' = Some [97, 10]" "chunk_at loop_server v1 ''0162000000'' = Some [98]"
    by blast
  note f = sample_fetchable [OF v(2,1,3,4)]
  from upload_reaches_other_client [OF index_pending_a
      hosted_bare complete_bare sendable_pending no_clash_pending run linked_loop f(3,1)]
  show ?thesis
    using run pending_row_facts unfolding loop_sync_fields pending_todo by fastforce
qed

end
