(* ===== verification/Context.thy ===== *)
theory Context
  imports World
begin

text \<open>
  client/src/context.rs and the statuses of client/src/models.rs: what a caller holds of a
  running sync, to cancel it and to hear of its progress. A listener is an object of the
  caller (an \<open>Arc\<close>); it is a reference here, and the calls it receives are appended to a
  log together with the reference, so that a second listener is told from the first.
\<close>

datatype sync_status =
    Idle
  | Syncing
  | Indexing
  | Downloading
  | Uploading
  | Error_status (error_message: string)

datatype callback = On_status_changed sync_status | On_complete bool "string option"

type_synonym call_log = "(nat \<times> callback) list"

record sync_context =
  cancellation_token :: bool
  status_listener :: "nat option"

definition new_context :: sync_context where
  "new_context = \<lparr>cancellation_token = False, status_listener = None\<rparr>"

definition set_listener :: "nat \<Rightarrow> sync_context \<Rightarrow> sync_context" where
  "set_listener l c = c\<lparr>status_listener := Some l\<rparr>"

definition cancel :: "sync_context \<Rightarrow> sync_context" where
  "cancel c = c\<lparr>cancellation_token := True\<rparr>"

definition call_listener :: "nat option \<Rightarrow> callback \<Rightarrow> call_log \<Rightarrow> call_log" where
  "call_listener l m calls = (case l of None \<Rightarrow> calls | Some i \<Rightarrow> calls @ [(i, m)])"

definition notify_status :: "sync_context \<Rightarrow> sync_status \<Rightarrow> call_log \<Rightarrow> call_log" where
  "notify_status c status calls = call_listener (status_listener c) (On_status_changed status) calls"

text \<open>A child token is cancelled when its parent is; nobody cancels the child itself.\<close>

definition token_cancelled :: "sync_context \<Rightarrow> bool" where
  "token_cancelled c = cancellation_token c"

definition listener :: "sync_context \<Rightarrow> nat option" where
  "listener c = status_listener c"

lemma context_simps [simp]:
  "token_cancelled (cancel c)"
  "token_cancelled (set_listener l c) = token_cancelled c"
  "\<not> token_cancelled new_context"
  "listener (set_listener l c) = Some l"
  "listener (cancel c) = listener c"
  "listener new_context = None"
  by (simp_all add: token_cancelled_def listener_def cancel_def set_listener_def new_context_def)

lemma call_listener_simps [simp]:
  "call_listener None m calls = calls"
  "call_listener (Some l) m calls = calls @ [(l, m)]"
  by (simp_all add: call_listener_def)

end
