(* ===== verification/Interleaving.thy ===== *)
theory Interleaving
  imports Main
begin

text \<open>
  Programs that run against an environment: own steps and environment steps in any order.
  \<open>interleaved\<close> is a finite run, with the number of own steps; \<open>execution\<close> an infinite one.
  The locale \<open>winding_down\<close> is the argument for termination both kinds of run share: once a
  program is told to stop, each own step lowers a rank that the environment cannot raise, so a
  program that is given its turn ends.
\<close>

section \<open>Finite runs\<close>

inductive interleaved :: "('s \<Rightarrow> 's \<Rightarrow> bool) \<Rightarrow> ('s \<Rightarrow> 's \<Rightarrow> bool) \<Rightarrow> nat \<Rightarrow> 's \<Rightarrow> 's \<Rightarrow> bool"
  for own env where
  start: "interleaved own env 0 s s"
| own: "interleaved own env n s t \<Longrightarrow> own t u \<Longrightarrow> interleaved own env (Suc n) s u"
| env: "interleaved own env n s t \<Longrightarrow> env t u \<Longrightarrow> interleaved own env n s u"

lemma interleaved_invariant:
  assumes "interleaved own env n s t" "I s"
    and "\<And>t u. I t \<Longrightarrow> own t u \<Longrightarrow> I u" "\<And>t u. I t \<Longrightarrow> env t u \<Longrightarrow> I u"
  shows "I t"
  using assms(1,2) by (induction rule: interleaved.induct) (auto intro: assms(3,4))

lemma interleaved_trans:
  assumes "interleaved own env n t u" "interleaved own env m s t"
  shows "interleaved own env (m + n) s u"
  using assms by (induction rule: interleaved.induct) (auto intro: interleaved.intros)

lemma own_steps_interleaved:
  assumes "own\<^sup>*\<^sup>* s t"
  shows "\<exists>n. interleaved own env n s t"
  using assms by (induction rule: rtranclp_induct) (auto intro: interleaved.intros)

section \<open>Infinite runs\<close>

definition execution :: "('s \<Rightarrow> 's \<Rightarrow> bool) \<Rightarrow> ('s \<Rightarrow> 's \<Rightarrow> bool) \<Rightarrow> (nat \<Rightarrow> 's) \<Rightarrow> bool" where
  "execution own env f \<longleftrightarrow> (\<forall>i. own (f i) (f (Suc i)) \<or> env (f i) (f (Suc i)))"

text \<open>The program is given its turn again and again until it has ended.\<close>

definition scheduled :: "('s \<Rightarrow> 's \<Rightarrow> bool) \<Rightarrow> ('s \<Rightarrow> bool) \<Rightarrow> (nat \<Rightarrow> 's) \<Rightarrow> bool" where
  "scheduled own ended f \<longleftrightarrow> (\<forall>i. \<not> ended (f i) \<longrightarrow> (\<exists>j \<ge> i. own (f j) (f (Suc j))))"

section \<open>Told to stop\<close>

locale winding_down =
  fixes own env :: "'s \<Rightarrow> 's \<Rightarrow> bool"
    and told ended :: "'s \<Rightarrow> bool"
    and lower :: "('w \<times> 'w) set"
    and rank :: "'s \<Rightarrow> 'w"
  assumes wf_lower: "wf lower"
    and own_step: "told s \<Longrightarrow> own s t \<Longrightarrow> told t \<and> (rank t, rank s) \<in> lower"
    and env_step: "told s \<Longrightarrow> env s t \<Longrightarrow> told t \<and> (rank t, rank s) \<in> lower\<^sup>="
    and progress: "told s \<Longrightarrow> \<not> ended s \<Longrightarrow> \<exists>t. own s t"
begin

lemma quiet_stretch:
  assumes "execution own env f" "told (f i)" "\<And>k. i \<le> k \<Longrightarrow> k < i + d \<Longrightarrow> \<not> own (f k) (f (Suc k))"
  shows "told (f (i + d)) \<and> (rank (f (i + d)), rank (f i)) \<in> lower\<^sup>*"
  using assms(3)
proof (induction d)
  case 0
  then show ?case using assms(2) by simp
next
  case (Suc d)
  then have IH: "told (f (i + d))" "(rank (f (i + d)), rank (f i)) \<in> lower\<^sup>*" by simp_all
  have "\<not> own (f (i + d)) (f (Suc (i + d)))" using Suc.prems by simp
  with assms(1) have "env (f (i + d)) (f (Suc (i + d)))" unfolding execution_def by blast
  from env_step [OF IH(1) this] IH(2) show ?case
    by (auto intro: converse_rtrancl_into_rtrancl)
qed

lemma ends:
  assumes "execution own env f" "scheduled own ended f" "told (f i)"
  shows "\<exists>j \<ge> i. ended (f j)"
  using wf_trancl [OF wf_lower] assms(3)
proof (induction "rank (f i)" arbitrary: i rule: wf_induct_rule)
  case less
  show ?case
  proof (cases "ended (f i)")
    case False
    let ?own = "\<lambda>d. own (f (i + d)) (f (Suc (i + d)))"
    from False assms(2) obtain j where "j \<ge> i" "own (f j) (f (Suc j))"
      unfolding scheduled_def by blast
    then have "?own (j - i)" by simp
    then have turn: "?own (LEAST d. ?own d)" by (rule LeastI)
    let ?d = "LEAST d. ?own d"
    have "\<not> own (f k) (f (Suc k))" if "i \<le> k" "k < i + ?d" for k
      using not_less_Least [of "k - i" ?own] that by simp
    from quiet_stretch [OF assms(1) less.prems this] own_step [OF _ turn]
    have "told (f (Suc (i + ?d)))" "(rank (f (Suc (i + ?d))), rank (f i)) \<in> lower\<^sup>+"
      by (auto intro: rtrancl_into_trancl2)
    from less.hyps [OF this(2,1)] show ?thesis
      by (meson Suc_leD add_leD1 le_trans)
  qed blast
qed

end

end
