(* ===== verification/Session.thy ===== *)
theory Session
  imports SyncerFacts Context Interleaving
begin

text \<open>
  The continuous sync: the loops \<open>run\<close> of client/src/indexer.rs, \<open>download_loop\<close> and
  \<open>upload_loop\<close> of client/src/syncer.rs and their composition in \<open>run_async\<close> of
  client/src/lib.rs, as an interleaving of three loops on one machine and one environment.

  The loops run on one task: a loop gives way only where it waits. A step is what a loop does
  between two such places: an index pass (the code has no \<open>await\<close> in it), one file of an upload
  and one record of a download (under the chunker's lock), one request. A deletion gives way
  between the record and the file, which is kept apart. Not kept apart are the waits inside
  one hashing, one saving and one request. Which loop moves next, when a timer fires and which
  ready branch of a \<open>select\<close> is taken is left open.

  The environment cancels, sets listeners, changes files, reports changes to the watcher's
  channel and changes the server (other clients).
\<close>

section \<open>State\<close>

datatype indexer_update_event = Updated

definition CHANNEL_SIZE :: nat where "CHANNEL_SIZE = 100"

text \<open>
  Where each loop is. \<open>Index_sending\<close>: the update is in the channel, the sender waits until no
  more than \<open>CHANNEL_SIZE\<close> are in it (a futures channel has its buffer and a slot per sender).
  \<open>Upload_files\<close>: the rows still to hash and commit, the queue, whether all were committed.
  \<open>Upload_off\<close>: a download-only session has no upload loop. \<open>Download_collect\<close>: all records of
  the listing, those not yet looked at, the chunks needed. \<open>Download_remove\<close>: the deletion is
  recorded, the file still has to go.
\<close>

datatype index_phase = Index_top | Index_sending | Index_waiting | Index_done

datatype upload_phase =
    Upload_sleeping
  | Upload_top
  | Upload_files "file_record list" upload_queue bool
  | Upload_batches nat "(string \<times> bytes) list list" bool
  | Upload_waiting
  | Upload_done
  | Upload_off

datatype download_phase =
    Download_top
  | Download_collect "response_record list" "response_record list" "string list"
  | Download_apply "response_record list"
  | Download_remove string "response_record list"
  | Download_waiting
  | Download_done

record 'srv run_env =
  syncing :: "'srv sync_env"
  dir_walker :: walker
  debug_error :: "sync_error \<Rightarrow> string"
  closed_channel :: string

record 'srv session =
  machine :: "client \<times> 'srv"
  ctx :: sync_context
  hears :: "nat option"
  calls :: call_log
  watch_events :: nat
  updates :: "indexer_update_event list"
  indexing :: index_phase
  downloading :: download_phase
  uploading :: upload_phase
  outcome :: "(sync_error, unit) res option"

text \<open>
  The receiver of the updates belongs to the upload loop, or to the whole syncer when it only
  downloads; it is dropped when that ends. The chunker is locked while a file is removed.
\<close>

definition receiver_gone :: "'srv session \<Rightarrow> bool" where
  "receiver_gone s =
     (case uploading s of
        Upload_done \<Rightarrow> True | Upload_off \<Rightarrow> downloading s = Download_done | _ \<Rightarrow> False)"

definition chunker_free :: "'srv session \<Rightarrow> bool" where
  "chunker_free s = (case downloading s of Download_remove p ds \<Rightarrow> False | _ \<Rightarrow> True)"

definition syncer_done :: "'srv session \<Rightarrow> bool" where
  "syncer_done s \<longleftrightarrow> downloading s = Download_done \<and> uploading s \<in> {Upload_done, Upload_off}"

section \<open>Reporting and ending\<close>

definition report :: "sync_status \<Rightarrow> 'srv session \<Rightarrow> 'srv session" where
  "report status s = s\<lparr>calls := call_listener (hears s) (On_status_changed status) (calls s)\<rparr>"

text \<open>
  The end of \<open>run_async\<close>: \<open>try_join!\<close> yields the first error, dropping the other loops, or
  succeeds when all have; a panic unwinds through it and is not reported.
\<close>

definition conclude :: "'srv run_env \<Rightarrow> (sync_error, unit) res \<Rightarrow> 'srv session \<Rightarrow> 'srv session" where
  "conclude e r s = s\<lparr>outcome := Some r, calls :=
     (case r of
        Ok _ \<Rightarrow> call_listener (hears s) (On_complete True None) (calls s)
      | Err x \<Rightarrow> call_listener (hears s) (On_complete False (Some (debug_error e x))) (calls s)
      | Panic \<Rightarrow> calls s)\<rparr>"

text \<open>
  A part of a loop: it works on the machine, an error it returns is passed on as \<open>wrap\<close> says
  and ends the session.
\<close>

definition run_part ::
    "'srv run_env \<Rightarrow> (client \<times> 'srv, sync_error, 'a) prog \<Rightarrow> (sync_error \<Rightarrow> sync_error) \<Rightarrow>
     ('a \<Rightarrow> 'srv session \<Rightarrow> 'srv session) \<Rightarrow> 'srv session \<Rightarrow> 'srv session" where
  "run_part e m wrap k s =
     (case m (machine s) of
        (Ok a, x) \<Rightarrow> k a (s\<lparr>machine := x\<rparr>)
      | (Err y, x) \<Rightarrow> conclude e (Err (wrap y)) (s\<lparr>machine := x\<rparr>)
      | (Panic, x) \<Rightarrow> conclude e Panic (s\<lparr>machine := x\<rparr>))"

section \<open>The indexer\<close>

definition index_idle :: "'srv session \<Rightarrow> 'srv session" where
  "index_idle s = (report Idle s)\<lparr>indexing := Index_waiting\<rparr>"

definition send_update :: "'srv run_env \<Rightarrow> 'srv session \<Rightarrow> 'srv session" where
  "send_update e s =
     (if receiver_gone s then conclude e (Err (ChannelSendError (closed_channel e))) s
      else s\<lparr>updates := updates s @ [Updated], indexing := Index_sending\<rparr>)"

definition index_round :: "'srv run_env \<Rightarrow> 'srv session \<Rightarrow> 'srv session" where
  "index_round e s =
     run_part e (on_client (check_index_once (dir_walker e) (id_gap (syncing e)) (namespace (syncing e))))
       (\<lambda>x. x) (\<lambda>changed. if changed then send_update e else index_idle) (report Indexing s)"

inductive indexer_step :: "'srv run_env \<Rightarrow> 'srv session \<Rightarrow> 'srv session \<Rightarrow> bool" for e where
  stop: "indexing s = Index_top \<Longrightarrow> token_cancelled (ctx s) \<Longrightarrow>
    indexer_step e s (s\<lparr>indexing := Index_done\<rparr>)"
| round: "indexing s = Index_top \<Longrightarrow> \<not> token_cancelled (ctx s) \<Longrightarrow> indexer_step e s (index_round e s)"
| sent: "indexing s = Index_sending \<Longrightarrow> length (updates s) \<le> CHANNEL_SIZE \<or> receiver_gone s \<Longrightarrow>
    indexer_step e s (index_idle s)"
| cancelled: "indexing s = Index_waiting \<Longrightarrow> token_cancelled (ctx s) \<Longrightarrow>
    indexer_step e s (s\<lparr>indexing := Index_done\<rparr>)"
| timer: "indexing s = Index_waiting \<Longrightarrow> indexer_step e s (s\<lparr>indexing := Index_top\<rparr>)"
| event: "indexing s = Index_waiting \<Longrightarrow> watch_events s = Suc n \<Longrightarrow>
    indexer_step e s (s\<lparr>watch_events := n, indexing := Index_top\<rparr>)"

section \<open>The download loop\<close>

text \<open>Errors of the download check are wrapped, except the two every client has to see typed.\<close>

definition download_failure :: "sync_error \<Rightarrow> sync_error" where
  "download_failure x =
     (case x of
        Unauthorized \<Rightarrow> Unauthorized
      | PaymentRequired \<Rightarrow> PaymentRequired
      | _ \<Rightarrow> Unknown (''Check download failed: '' @ display_error x))"

definition list_remote :: "'srv sync_env \<Rightarrow> (client \<times> 'srv, sync_error, response_record list) prog" where
  "list_remote e = (\<lambda>m. on_server (list_records (http e) (remote_client e) (latest_local e (fst m))) m)"

text \<open>A deletion, up to the place where it gives way: is there a file to remove?\<close>

definition record_deletion :: "'srv sync_env \<Rightarrow> response_record \<Rightarrow> (client, sync_error, bool) prog" where
  "record_deletion e d = (\<lambda>c.
     and_then (set_records (delete_records (id_gap e)
         [build_delete_form (rr_path d) (clock c) (rr_id d) (namespace e)]))
       (\<lambda>_. gets (exists_file (rr_path d))) c)"

definition download_begin :: "'srv run_env \<Rightarrow> 'srv session \<Rightarrow> 'srv session" where
  "download_begin e s =
     run_part e (list_remote (syncing e)) download_failure
       (\<lambda>to_download s. s\<lparr>downloading := Download_collect to_download to_download []\<rparr>)
       (report Downloading s)"

definition download_collect ::
    "'srv run_env \<Rightarrow> response_record list \<Rightarrow> response_record \<Rightarrow> response_record list \<Rightarrow> string list \<Rightarrow>
     'srv session \<Rightarrow> 'srv session" where
  "download_collect e all d ds queue =
     run_part e (on_client (collect_needed (syncing e) [d] queue)) download_failure
       (\<lambda>queue' s. s\<lparr>downloading := Download_collect all ds queue'\<rparr>)"

definition download_fetch ::
    "'srv run_env \<Rightarrow> response_record list \<Rightarrow> string list \<Rightarrow> 'srv session \<Rightarrow> 'srv session" where
  "download_fetch e all queue =
     run_part e (fetch_chunks (syncing e) queue) download_failure
       (\<lambda>_ s. s\<lparr>downloading := Download_apply all\<rparr>)"

definition download_apply ::
    "'srv run_env \<Rightarrow> response_record \<Rightarrow> response_record list \<Rightarrow> 'srv session \<Rightarrow> 'srv session" where
  "download_apply e d ds =
     (if rr_deleted d then
        run_part e (on_client (record_deletion (syncing e) d)) download_failure
          (\<lambda>present s. s\<lparr>downloading :=
             if present then Download_remove (rr_path d) ds else Download_apply ds\<rparr>)
      else
        run_part e (on_client (apply_record (syncing e) d)) download_failure
          (\<lambda>_ s. s\<lparr>downloading := Download_apply ds\<rparr>))"

definition download_remove ::
    "'srv run_env \<Rightarrow> string \<Rightarrow> response_record list \<Rightarrow> 'srv session \<Rightarrow> 'srv session" where
  "download_remove e p ds =
     run_part e (on_client (delete p)) download_failure (\<lambda>_ s. s\<lparr>downloading := Download_apply ds\<rparr>)"

definition download_end :: "'srv session \<Rightarrow> 'srv session" where
  "download_end s = (report Idle s)\<lparr>downloading := Download_waiting\<rparr>"

definition poll_answered :: "'srv run_env \<Rightarrow> 'srv session \<Rightarrow> 'srv session" where
  "poll_answered e =
     run_part e (on_server (poll (http (syncing e)) (remote_client (syncing e)))) (\<lambda>x. x)
       (\<lambda>_ s. s\<lparr>downloading := Download_top\<rparr>)"

inductive downloader_step :: "'srv run_env \<Rightarrow> 'srv session \<Rightarrow> 'srv session \<Rightarrow> bool" for e where
  stop: "downloading s = Download_top \<Longrightarrow> token_cancelled (ctx s) \<Longrightarrow>
    downloader_step e s (s\<lparr>downloading := Download_done\<rparr>)"
| pass: "downloading s = Download_top \<Longrightarrow> \<not> token_cancelled (ctx s) \<Longrightarrow>
    downloader_step e s (download_begin e s)"
| collect: "downloading s = Download_collect all (d # ds) queue \<Longrightarrow>
    downloader_step e s (download_collect e all d ds queue s)"
| fetch: "downloading s = Download_collect all [] queue \<Longrightarrow>
    downloader_step e s (download_fetch e all queue s)"
| apply_one: "downloading s = Download_apply (d # ds) \<Longrightarrow> downloader_step e s (download_apply e d ds s)"
| remove: "downloading s = Download_remove p ds \<Longrightarrow> downloader_step e s (download_remove e p ds s)"
| finish: "downloading s = Download_apply [] \<Longrightarrow> downloader_step e s (download_end s)"
| cancelled: "downloading s = Download_waiting \<Longrightarrow> token_cancelled (ctx s) \<Longrightarrow>
    downloader_step e s (s\<lparr>downloading := Download_done\<rparr>)"
| polled: "downloading s = Download_waiting \<Longrightarrow> downloader_step e s (poll_answered e s)"

section \<open>The upload loop\<close>

definition upload_begin :: "'srv run_env \<Rightarrow> 'srv session \<Rightarrow> 'srv session" where
  "upload_begin e s = (report Uploading s)\<lparr>uploading :=
     Upload_files (updated_locally (namespace (syncing e)) (records (fst (machine s))))
       \<lparr>closed = [], current_batch = [], batch_size = 0\<rparr> True\<rparr>"

definition upload_next ::
    "'srv run_env \<Rightarrow> file_record \<Rightarrow> file_record list \<Rightarrow> upload_queue \<Rightarrow> bool \<Rightarrow>
     'srv session \<Rightarrow> 'srv session" where
  "upload_next e f fs q all_commited =
     run_part e (upload_file (syncing e) f q) (\<lambda>x. x)
       (\<lambda>r s. s\<lparr>uploading := Upload_files fs (fst r) (all_commited \<and> snd r)\<rparr>)"

definition upload_send ::
    "'srv run_env \<Rightarrow> nat \<Rightarrow> (string \<times> bytes) list \<Rightarrow> (string \<times> bytes) list list \<Rightarrow> bool \<Rightarrow>
     'srv session \<Rightarrow> 'srv session" where
  "upload_send e n b bs all_commited =
     run_part e (send_batches (syncing e) n [b]) (\<lambda>x. x)
       (\<lambda>_ s. s\<lparr>uploading := Upload_batches (Suc n) bs all_commited\<rparr>)"

definition upload_end :: "bool \<Rightarrow> 'srv session \<Rightarrow> 'srv session" where
  "upload_end all_commited s =
     (if all_commited then (report Idle s)\<lparr>uploading := Upload_waiting\<rparr>
      else s\<lparr>uploading := Upload_top\<rparr>)"

inductive uploader_step :: "'srv run_env \<Rightarrow> 'srv session \<Rightarrow> 'srv session \<Rightarrow> bool" for e where
  wake: "uploading s = Upload_sleeping \<Longrightarrow> uploader_step e s (s\<lparr>uploading := Upload_top\<rparr>)"
| stop: "uploading s = Upload_top \<Longrightarrow> token_cancelled (ctx s) \<Longrightarrow>
    uploader_step e s (s\<lparr>uploading := Upload_done\<rparr>)"
| pass: "uploading s = Upload_top \<Longrightarrow> \<not> token_cancelled (ctx s) \<Longrightarrow>
    uploader_step e s (upload_begin e s)"
| one_file: "uploading s = Upload_files (f # fs) q all_commited \<Longrightarrow> chunker_free s \<Longrightarrow>
    uploader_step e s (upload_next e f fs q all_commited s)"
| files_done: "uploading s = Upload_files [] q all_commited \<Longrightarrow>
    uploader_step e s (s\<lparr>uploading := Upload_batches 0 (batches q) all_commited\<rparr>)"
| batch: "uploading s = Upload_batches n (b # bs) all_commited \<Longrightarrow>
    uploader_step e s (upload_send e n b bs all_commited s)"
| finish: "uploading s = Upload_batches n [] all_commited \<Longrightarrow>
    uploader_step e s (upload_end all_commited s)"
| cancelled: "uploading s = Upload_waiting \<Longrightarrow> token_cancelled (ctx s) \<Longrightarrow>
    uploader_step e s (s\<lparr>uploading := Upload_done\<rparr>)"
| timer: "uploading s = Upload_waiting \<Longrightarrow> uploader_step e s (s\<lparr>uploading := Upload_top\<rparr>)"
| event: "uploading s = Upload_waiting \<Longrightarrow> updates s = u # us \<Longrightarrow>
    uploader_step e s (s\<lparr>updates := us, uploading := Upload_top\<rparr>)"

section \<open>The session\<close>

text \<open>\<open>try_join!(indexer, syncer)\<close>, where the syncer joins the two loops it runs.\<close>

inductive own_step :: "'srv run_env \<Rightarrow> 'srv session \<Rightarrow> 'srv session \<Rightarrow> bool" for e where
  indexer: "outcome s = None \<Longrightarrow> indexer_step e s t \<Longrightarrow> own_step e s t"
| downloader: "outcome s = None \<Longrightarrow> downloader_step e s t \<Longrightarrow> own_step e s t"
| uploader: "outcome s = None \<Longrightarrow> uploader_step e s t \<Longrightarrow> own_step e s t"
| joined: "outcome s = None \<Longrightarrow> indexing s = Index_done \<Longrightarrow> syncer_done s \<Longrightarrow>
    own_step e s (conclude e (Ok ()) s)"

inductive env_step :: "'srv session \<Rightarrow> 'srv session \<Rightarrow> bool" where
  cancelling: "env_step s (s\<lparr>ctx := cancel (ctx s)\<rparr>)"
| listening: "env_step s (s\<lparr>ctx := set_listener l (ctx s)\<rparr>)"
| editing: "machine s = (c, v) \<Longrightarrow>
    env_step s (s\<lparr>machine := (c\<lparr>files := f, dir_meta := d, clock := t\<rparr>, v)\<rparr>)"
| serving: "machine s = (c, v) \<Longrightarrow> env_step s (s\<lparr>machine := (c, v')\<rparr>)"
| watching: "env_step s (s\<lparr>watch_events := Suc (watch_events s)\<rparr>)"

inductive_cases indexer_stepE: "indexer_step e s t"
inductive_cases downloader_stepE: "downloader_step e s t"
inductive_cases uploader_stepE: "uploader_step e s t"
inductive_cases own_stepE: "own_step e s t"
inductive_cases env_stepE: "env_step s t"

text \<open>
  The session \<open>run_async\<close> starts once everything is initialised. It takes the listener it
  finds in the context then.
\<close>

definition session_start :: "bool \<Rightarrow> client \<Rightarrow> 'srv \<Rightarrow> sync_context \<Rightarrow> 'srv session" where
  "session_start download_only c v cx =
     \<lparr>machine = (c, v), ctx = cx, hears = listener cx,
      calls = call_listener (listener cx) (On_status_changed Syncing) [],
      watch_events = 0, updates = [], indexing = Index_top, downloading = Download_top,
      uploading = (if download_only then Upload_off else Upload_sleeping), outcome = None\<rparr>"

end
