(* ===== verification/SessionFacts.thy ===== *)
theory SessionFacts
  imports Session IndexerFacts
begin

text \<open>
  What the steps of a session do: to the registry (\<open>row_step\<close>), to what is waiting to be
  uploaded, and to the phases. Preservation for every step, progress, and the rank of a session
  that has been told to stop.
\<close>

section \<open>The registry under the parts of the loops\<close>

definition same_records :: "client \<Rightarrow> client \<Rightarrow> bool" where
  "same_records c c' \<longleftrightarrow> records c' = records c"

lemma same_records_refl [simp, prog_intros]: "reflp same_records"
  by (simp add: same_records_def reflp_def)

lemma same_records_trans [simp, prog_intros]: "transp same_records"
  by (simp add: same_records_def transp_def)

lemma keeps_weaken: "keeps R m \<Longrightarrow> (\<And>s t. R s t \<Longrightarrow> Q s t) \<Longrightarrow> keeps Q m"
  by (auto simp: keeps_def)

lemma files_only_records: "files_only c c' \<Longrightarrow> same_records c c'"
  by (simp add: same_records_def files_only_client)

lemma cache_only_records: "cache_only c c' \<Longrightarrow> same_records c c'"
  by (simp add: same_records_def tree_kept_cache_only)

lemma keeps_write_chunks [prog_intros]: "keeps files_only (write_chunks x p hs written)"
  by (induction hs arbitrary: written) (auto simp: keeps_def Let_def split: res.splits)

lemma keeps_save [prog_intros]: "keeps files_only (save x p hs :: (client, sync_error, unit) prog)"
  unfolding save_def
  by (intro keepsI) (simp add: Let_def, intro keepsD [of files_only], intro prog_intros, auto intro: prog_intros split: option.splits)


lemma keeps_delete: "keeps files_only (delete p :: (client, sync_error, unit) prog)"
proof (rule keepsI)
  fix s :: client
  let ?r = "map_err (from_io_error p) (remove_file (full_path s p)) :: (client, sync_error, unit) prog"
  have "files_only s (snd (?r s))"
    by (intro keepsD [of files_only] prog_intros)
  moreover have "files_only t (snd (remove_empty_parents d t))" for t :: client and d
    using remove_empty_parents_effect by blast
  ultimately show "files_only s (snd (delete p s))"
    unfolding delete_def and_then_apply by (auto split: res.splits intro: files_only_trans)
qed

text \<open>
  A row whose size fits the column and whose time is in whole seconds, as every query that
  inserts one promises.
\<close>

definition row_typed :: "file_record \<Rightarrow> bool" where
  "row_typed r \<longleftrightarrow> 0 \<le> file_size r \<and> file_size r \<le> int I64_MAX \<and> nanosecond (modified_at r) = 0"

text \<open>What one part of the upload or the download loop does to the registry.\<close>

inductive row_step :: "table \<Rightarrow> table \<Rightarrow> bool" where
  same: "row_step rows rows"
| accepted: "row_step rows (update_jid f j rows)"
| landed: "jid r \<noteq> None \<Longrightarrow> row_typed r \<Longrightarrow> \<forall>q \<in> set rows. record_id q < record_id r \<Longrightarrow>
    row_step rows (rows @ [r])"

lemma same_records_row_step: "same_records c c' \<Longrightarrow> row_step (records c) (records c')"
  by (simp add: same_records_def row_step.same)

lemma truncate_typed [simp]: "nanosecond (truncate_to_seconds t) = 0"
  by (simp add: truncate_to_seconds_def)

lemma build_file_record_same [simp]: "snd (build_file_record p base j ns c) = (c :: client)"
  by (auto simp: build_file_record_def and_then_def map_err_def metadata_def ret_def lift_res_def
      split: res.splits prod.splits option.splits node.splits)

lemma build_file_record_typed:
  assumes "fst (build_file_record p base j ns c) = Ok f"
  shows "0 \<le> cf_size f \<and> cf_size f \<le> int I64_MAX \<and> nanosecond (cf_modified_at f) = 0 \<and> cf_jid f = Some j"
  using assms
  by (auto simp: build_file_record_def and_then_def map_err_def ret_def lift_res_def to_i64_def
      split: res.splits prod.splits if_splits)

lemma record_deletion_rows:
  fixes c :: client
  shows "row_step (records c) (records (snd (record_deletion e d c)))"
proof -
  let ?f = "build_delete_form (rr_path d) (clock c) (rr_id d) (namespace e)"
  obtain i where "\<forall>q \<in> set (records c). record_id q < i"
    "delete_records (id_gap e) [?f] (records c) = records c @ [deleted_row i ?f]"
    using delete_one by blast
  then show ?thesis
    by (auto simp: record_deletion_def set_records_apply and_then_Ok_eq [OF set_records_apply]
        gets_apply deleted_row_def build_delete_form_def row_typed_def intro!: row_step.landed)
qed

lemma apply_record_deleted:
  "rr_deleted d \<Longrightarrow> apply_record e d =
     and_then (record_deletion e d) (\<lambda>present. if present then delete (rr_path d) else ret ())"
  by (rule ext) (auto simp: apply_record_def record_deletion_def and_then_Ok_eq [OF set_records_apply]
      and_then_def set_records_apply gets_apply ret_apply)

lemma apply_record_rows:
  fixes c :: client
  assumes "\<not> rr_deleted d"
  shows "row_step (records c) (records (snd (apply_record e d c)))"
proof -
  let ?sv = "save (ext e) (rr_path d) (split_on COMMA (rr_chunk_ids d))"
  obtain r c1 where sv: "?sv c = (r, c1)" by (metis prod.collapse)
  have same: "records c1 = records c"
    using keepsD [OF keeps_save, of c "ext e"] sv files_only_records same_records_def by (metis snd_conv)
  let ?b = "build_file_record (rr_path d) (base_path c1) (rr_id d) (namespace e)"
  have "row_step (records c) (records (snd (and_then ?b
      (\<lambda>form. set_records (create_records (id_gap e) [form])) c1)))"
  proof (cases "fst (?b c1)")
    case (Ok f)
    obtain i where "\<forall>q \<in> set (records c). record_id q < i"
      "create_records (id_gap e) [f] (records c) = records c @ [created_row i f]"
      using create_one by blast
    with Ok build_file_record_typed [OF Ok] same show ?thesis
      by (auto simp: and_then_apply set_records_apply created_row_def row_typed_def
          intro!: row_step.landed)
  qed (simp_all add: and_then_apply same row_step.same)
  with sv assms same show ?thesis
    by (cases r) (auto simp: apply_record_def and_then_def row_step.same)
qed

lemma collect_rows:
  fixes c :: client
  shows "digest_ok (ext e) \<Longrightarrow> row_step (records c) (records (snd (collect_needed e ds queue c)))"
  using collect_needed_spec [of e ds queue c] cache_only_records same_records_row_step
  by (metis prod.collapse)

lemma save_downloaded_records:
  fixes c :: client
  shows "records (snd (save_downloaded e items c)) = records c"
  using cache_only_save_downloaded [of e items c] cache_only_records same_records_def
  by (metis snd_conv)

lemma fetch_records:
  fixes x :: "client \<times> 'srv"
  shows "records (fst (snd (fetch_chunks e queue x))) = records (fst x)"
proof (cases "queue = []")
  case False
  let ?d = "on_server (download_batch (http e) (remote_client e) queue) ::
    (client \<times> 'srv, sync_error, (string \<times> bytes) list \<times> (sync_error, unit) res) prog"
  obtain r y where d: "?d x = (r, y)" by (cases "?d x")
  have "fst y = fst x" using d on_server_fst by (metis snd_conv)
  with False d show ?thesis
    by (cases r) (auto simp: fetch_chunks_def and_then_apply lift_res_apply save_downloaded_records
        split: res.splits prod.splits)
qed (simp add: fetch_chunks_def ret_apply)

lemma upload_file_rows:
  fixes x :: "client \<times> 'srv"
  assumes "digest_ok (ext e)"
  shows "row_step (records (fst x)) (records (fst (snd (upload_file e f q x))))"
proof -
  obtain c v where x: "x = (c, v)" by (cases x)
  obtain r c' v' where run: "upload_file e f q (c, v) = (r, (c', v'))" by (metis prod.collapse)
  from upload_file_spec [OF assms run] have
    "records c' = records c \<or> (\<exists>j. records c' = update_jid f j (records c))" by blast
  with run x show ?thesis by (auto intro: row_step.intros)
qed


section \<open>The registry under an index pass\<close>

definition form_typed :: "int \<Rightarrow> timestamp \<Rightarrow> bool" where
  "form_typed sz m \<longleftrightarrow> 0 \<le> sz \<and> sz \<le> int I64_MAX \<and> nanosecond m = 0"

lemma set_insert_rows:
  "set (insert_rows gap rid mk fs rows) \<subseteq> set rows \<union> (\<Union>i. mk i ` set fs)"
proof (induction fs arbitrary: rows)
  case (Cons f fs)
  from Cons.IH [of "rows @ [mk (next_id gap (map rid rows)) f]"] show ?case by auto
qed simp

lemma collect_records_typed:
  assumes "collect_records w base ns ps acc c = (Ok fs, c')"
    "\<forall>f \<in> snd ` set acc. form_typed (cf_size f) (cf_modified_at f)"
  shows "c' = c \<and> (\<forall>f \<in> snd ` set fs. form_typed (cf_size f) (cf_modified_at f))"
  using assms
proof (induction ps arbitrary: acc c)
  case Nil
  then show ?case by (simp add: ret_apply)
next
  case (Cons p ps)
  from Cons.prems(1) obtain f c1 where b: "Indexer.build_file_record w p base ns c = (Ok f, c1)"
    and r: "collect_records w base ns ps (AList.update (cf_path f) f acc) c1 = (Ok fs, c')"
    by (auto simp: and_then_Ok_iff)
  have f: "form_typed (cf_size f) (cf_modified_at f)" "c1 = c"
    using b by (auto simp: Indexer.build_file_record_def and_then_Ok_iff map_err_Ok_iff ret_apply
        lift_res_apply to_i64_def form_typed_def metadata_def throw_apply
        split: option.splits node.splits if_splits)
  have "set (AList.update k v xs) \<subseteq> insert (k, v) (set xs)" for k v and xs :: disk_files
    by (induction xs) auto
  with Cons.prems(2) f have "\<forall>g \<in> snd ` set (AList.update (cf_path f) f acc).
      form_typed (cf_size g) (cf_modified_at g)" by fastforce
  from Cons.IH [OF r this] f show ?case by simp
qed

lemma collect_records_same: "snd (collect_records w base ns ps acc c) = c"
proof (induction ps arbitrary: acc)
  case (Cons p ps)
  have "snd (Indexer.build_file_record w p base ns c) = c"
    by (auto simp: Indexer.build_file_record_def and_then_def map_err_def metadata_def ret_def
        throw_def lift_res_def split: res.splits prod.splits option.splits node.splits)
  with Cons show ?case by (auto simp: and_then_apply split: res.splits)
qed (simp add: ret_apply)

lemma values_update: "snd ` set (AList.update k v xs) \<subseteq> insert v (snd ` set xs)"
  by (induction xs) auto

lemma registry_values: "snd ` set (get_file_records_from_registry ns rows) \<subseteq> set rows"
proof -
  have "snd ` set (fold (\<lambda>rec cache. AList.update (path rec) rec cache) rs acc) \<subseteq>
      snd ` set acc \<union> set rs" for rs acc
  proof (induction rs arbitrary: acc)
    case (Cons r rs)
    from Cons.IH [of "AList.update (path r) r acc"] values_update [of "path r" r acc]
    show ?case by auto
  qed simp
  moreover have "set (non_deleted ns rows) \<subseteq> set rows" by (auto simp: non_deleted_def Let_def)
  ultimately show ?thesis unfolding get_file_records_from_registry_def by fastforce
qed

lemma compare_records_values:
  assumes w: "walker_ok w" and c: "compare_records w db fs ns = (rm, ad)"
  shows "set rm \<subseteq> (\<lambda>r. Indexer.build_delete_form r ns) ` snd ` set db \<and> set ad \<subseteq> snd ` set fs"
proof -
  have db: "r \<in> snd ` set db" if "(p, r) \<in> set (iter_map w db)" for p r
    using that unfolding set_iter_map [OF w] by (force dest: map_of_SomeD)
  have fs: "d \<in> snd ` set fs" if "map_of fs p = Some d" for p d
    using that by (force dest: map_of_SomeD)
  have fs': "d \<in> snd ` set fs" if "(p, d) \<in> set (iter_map w fs)" for p d
    using that unfolding set_iter_map [OF w] by (rule fs)
  from c have rm: "rm = map (\<lambda>(p, r). Indexer.build_delete_form r ns)
      (filter (\<lambda>(p, r). map_of fs p = None) (iter_map w db))"
    and ad: "ad = map (\<lambda>(p, r). the (map_of fs p))
        (filter (\<lambda>(p, r). \<exists>d. map_of fs p = Some d \<and> \<not> same_file r d) (iter_map w db)) @
      map snd (filter (\<lambda>(p, d). map_of db p = None) (iter_map w fs))"
    by (simp_all add: compare_records_def compare_db_eq compare_disk_eq)
  show ?thesis unfolding rm ad using db fs fs' by (auto 4 3)
qed

text \<open>
  A pass reports a change exactly when it writes to the registry; it then appends rows, and
  these are typed if the others are.
\<close>

lemma index_pass_rows:
  fixes c :: client
  assumes "check_index_once w gap ns c = (r, c')"
  obtains (same) "records c' = records c" "r \<noteq> Ok True"
  | (added) rm ad where "r = Ok True"
      "records c' = create_records gap ad (delete_records gap rm (records c))"
      "walker_ok w \<Longrightarrow> \<forall>f \<in> set (records c). row_typed f \<Longrightarrow> \<forall>f \<in> set (records c'). row_typed f"
proof -
  let ?db = "get_file_records_from_registry ns (records c)"
  obtain r1 c1 where d: "get_file_records_from_disk w (base_path c) ns c = (r1, c1)"
    by (metis prod.collapse)
  then have c1: "c1 = c"
    using collect_records_same unfolding get_file_records_from_disk_def by (metis snd_conv)
  show thesis
  proof (cases r1)
    case (Ok fs)
    obtain rm ad where cmp: "compare_records w ?db fs ns = (rm, ad)" by (metis prod.collapse)
    let ?rows = "create_records gap ad (delete_records gap rm (records c))"
    have empty: "create_records gap [] rows = rows" "delete_records gap [] rows = rows" for rows
      by (simp_all add: creates.ins_Nil deletes.ins_Nil)
    have run: "check_index_once w gap ns c =
        (if rm \<noteq> [] \<or> ad \<noteq> [] then (Ok True, c\<lparr>records := ?rows\<rparr>) else (Ok False, c))"
      using d Ok cmp c1 by (auto simp: check_index_once_def and_then_def Let_def empty)
    have typed: "\<forall>f \<in> set ?rows. row_typed f" if w: "walker_ok w" and old: "\<forall>f \<in> set (records c). row_typed f"
    proof -
      have "\<forall>f \<in> snd ` set fs. form_typed (cf_size f) (cf_modified_at f)"
        using collect_records_typed d Ok unfolding get_file_records_from_disk_def by fastforce
      with compare_records_values [OF w cmp] have ad: "\<forall>f \<in> set ad. form_typed (cf_size f) (cf_modified_at f)"
        by blast
      have rm: "\<forall>f \<in> set rm. form_typed (df_size f) (df_modified_at f)"
        using compare_records_values [OF w cmp] registry_values [of ns "records c"] old
        by (fastforce simp: Indexer.build_delete_form_def form_typed_def row_typed_def)
      have "set ?rows \<subseteq> set (records c) \<union> (\<Union>i. deleted_row i ` set rm) \<union> (\<Union>i. created_row i ` set ad)"
        using set_insert_rows [of gap record_id created_row ad "delete_records gap rm (records c)"]
          set_insert_rows [of gap record_id deleted_row rm "records c"]
        unfolding create_records_def delete_records_def by blast
      with old ad rm show ?thesis
        by (fastforce simp: created_row_def deleted_row_def form_typed_def row_typed_def)
    qed
    show thesis
    proof (cases "rm \<noteq> [] \<or> ad \<noteq> []")
      case True
      with run assms typed show thesis by (intro added [of ad rm]) auto
    qed (use run assms in \<open>auto intro: same\<close>)
  qed (use d c1 assms in \<open>auto simp: check_index_once_def and_then_def intro: same\<close>)
qed

end
