(* ===== verification/SessionSteps.thy ===== *)
theory SessionSteps
  imports SessionFacts
begin

text \<open>
  The steps of a session as a whole: what they keep, that a session is never stuck, the rank
  that every own step lowers once it is told to stop, and the invariants of its control state.
\<close>

section \<open>Frames\<close>

lemma conclude_simps [simp]:
  "machine (conclude e r s) = machine s" "ctx (conclude e r s) = ctx s"
  "hears (conclude e r s) = hears s" "updates (conclude e r s) = updates s"
  "watch_events (conclude e r s) = watch_events s"
  "indexing (conclude e r s) = indexing s" "downloading (conclude e r s) = downloading s"
  "uploading (conclude e r s) = uploading s" "outcome (conclude e r s) = Some r"
  by (simp_all add: conclude_def)

lemma report_simps [simp]:
  "machine (report st s) = machine s" "ctx (report st s) = ctx s"
  "hears (report st s) = hears s" "updates (report st s) = updates s"
  "watch_events (report st s) = watch_events s"
  "indexing (report st s) = indexing s" "downloading (report st s) = downloading s"
  "uploading (report st s) = uploading s" "outcome (report st s) = outcome s"
  by (simp_all add: report_def)

text \<open>A part of a loop either continues or ends the session.\<close>

lemma run_part_cases:
  obtains (goes_on) a x where "m (machine s) = (Ok a, x)" "run_part e m w k s = k a (s\<lparr>machine := x\<rparr>)"
  | (fails) y x where "m (machine s) = (Err y, x)"
      "run_part e m w k s = conclude e (Err (w y)) (s\<lparr>machine := x\<rparr>)"
  | (panics) x where "m (machine s) = (Panic, x)" "run_part e m w k s = conclude e Panic (s\<lparr>machine := x\<rparr>)"
  by (cases "m (machine s)"; cases "fst (m (machine s))") (auto simp: run_part_def)

lemma run_part_keeps:
  assumes "\<And>a s. F (k a s) = F s" "\<And>x s. F (s\<lparr>machine := x\<rparr>) = F s" "\<And>r s. F (conclude e r s) = F s"
  shows "F (run_part e m w k s) = F s"
  using assms by (cases rule: run_part_cases [of m s e w k]) auto

lemma machine_run_part:
  assumes "\<And>a s. machine (k a s) = machine s"
  shows "machine (run_part e m w k s) = snd (m (machine s))"
  using assms by (cases rule: run_part_cases [of m s e w k]) auto

lemmas loop_defs = index_round_def send_update_def index_idle_def download_begin_def
  download_collect_def download_fetch_def download_apply_def download_remove_def download_end_def
  poll_answered_def upload_begin_def upload_next_def upload_send_def upload_end_def

lemma ctx_kept:
  "indexer_step e s t \<Longrightarrow> ctx t = ctx s \<and> hears t = hears s"
  "downloader_step e s t \<Longrightarrow> ctx t = ctx s \<and> hears t = hears s"
  "uploader_step e s t \<Longrightarrow> ctx t = ctx s \<and> hears t = hears s"
  by (auto elim!: indexer_stepE downloader_stepE uploader_stepE simp: loop_defs run_part_keeps)

lemma own_step_ctx: "own_step e s t \<Longrightarrow> ctx t = ctx s \<and> hears t = hears s"
  by (elim own_stepE) (auto dest: ctx_kept)

section \<open>Never stuck\<close>

lemma downloader_progress: "downloading s \<noteq> Download_done \<Longrightarrow> \<exists>t. downloader_step e s t"
proof (cases "downloading s")
  case Download_top
  then show ?thesis
    by (cases "token_cancelled (ctx s)") (blast intro: downloader_step.stop downloader_step.pass)+
next
  case (Download_collect all ds q)
  then show ?thesis by (cases ds) (blast intro: downloader_step.collect downloader_step.fetch)+
next
  case (Download_apply ds)
  then show ?thesis by (cases ds) (blast intro: downloader_step.apply_one downloader_step.finish)+
qed (blast intro: downloader_step.remove downloader_step.polled)+

lemma uploader_progress:
  assumes "chunker_free s" "uploading s \<notin> {Upload_done, Upload_off}"
  shows "\<exists>t. uploader_step e s t"
proof (cases "uploading s")
  case Upload_top
  then show ?thesis
    by (cases "token_cancelled (ctx s)") (blast intro: uploader_step.stop uploader_step.pass)+
next
  case (Upload_files fs q ac)
  with assms(1) show ?thesis
    by (cases fs) (blast intro: uploader_step.one_file uploader_step.files_done)+
next
  case (Upload_batches n bs ac)
  then show ?thesis by (cases bs) (blast intro: uploader_step.batch uploader_step.finish)+
qed (use assms in \<open>auto intro: uploader_step.wake uploader_step.timer\<close>)

lemma indexer_progress:
  assumes "indexing s \<noteq> Index_done" "indexing s = Index_sending \<longrightarrow> receiver_gone s"
  shows "\<exists>t. indexer_step e s t"
proof (cases "indexing s")
  case Index_top
  then show ?thesis
    by (cases "token_cancelled (ctx s)") (blast intro: indexer_step.stop indexer_step.round)+
qed (use assms in \<open>blast intro: indexer_step.sent indexer_step.timer\<close>)+

lemma session_progress:
  assumes "outcome s = None"
  shows "\<exists>t. own_step e s t"
proof (cases "downloading s = Download_done")
  case down: True
  show ?thesis
  proof (cases "uploading s \<in> {Upload_done, Upload_off}")
    case True
    show ?thesis
    proof (cases "indexing s = Index_done")
      case False
      from True down have "receiver_gone s" by (auto simp: receiver_gone_def)
      with False assms show ?thesis by (blast dest: indexer_progress intro: own_step.indexer)
    qed (use True down assms own_step.joined [of s e] in \<open>auto simp: syncer_done_def\<close>)
  next
    case False
    from down have "chunker_free s" by (simp add: chunker_free_def)
    with False assms show ?thesis by (blast dest: uploader_progress intro: own_step.uploader)
  qed
qed (use assms downloader_progress own_step.downloader in blast)

section \<open>Told to stop\<close>

definition index_rank :: "index_phase \<Rightarrow> nat" where
  "index_rank p = (case p of Index_done \<Rightarrow> 0 | Index_top \<Rightarrow> 1 | Index_waiting \<Rightarrow> 2 | Index_sending \<Rightarrow> 3)"

definition download_rank :: "download_phase \<Rightarrow> nat" where
  "download_rank p =
     (case p of
        Download_done \<Rightarrow> 0 | Download_top \<Rightarrow> 1 | Download_waiting \<Rightarrow> 2
      | Download_apply ds \<Rightarrow> 3 + 2 * length ds
      | Download_remove p ds \<Rightarrow> 4 + 2 * length ds
      | Download_collect all ds q \<Rightarrow> 4 + 2 * length all + length ds)"

definition upload_rank :: "upload_phase \<Rightarrow> nat \<times> nat" where
  "upload_rank p =
     (case p of
        Upload_files fs q b \<Rightarrow> (2, length fs)
      | Upload_batches n bs b \<Rightarrow> (1, length bs)
      | Upload_waiting \<Rightarrow> (0, 2) | Upload_sleeping \<Rightarrow> (0, 2) | Upload_top \<Rightarrow> (0, 1)
      | Upload_done \<Rightarrow> (0, 0) | Upload_off \<Rightarrow> (0, 0))"

text \<open>
  The stages of an upload first: how many batches there are is only known when all files have
  been answered. Then everything that is left to do.
\<close>

definition session_rank :: "'srv session \<Rightarrow> nat \<times> nat" where
  "session_rank s =
     (fst (upload_rank (uploading s)),
      snd (upload_rank (uploading s)) + index_rank (indexing s) + download_rank (downloading s)
        + (if outcome s = None then 1 else 0))"

lemmas rank_defs = session_rank_def index_rank_def download_rank_def upload_rank_def

lemma rank_run_part:
  assumes "outcome s = None"
    and "\<And>a x. (session_rank (k a (s\<lparr>machine := x\<rparr>)), session_rank s) \<in> less_than <*lex*> less_than"
  shows "(session_rank (run_part e m w k s), session_rank s) \<in> less_than <*lex*> less_than"
proof (cases rule: run_part_cases [of m s e w k])
  case (goes_on a x)
  with assms(2) show ?thesis by simp
qed (use assms(1) in \<open>simp_all add: session_rank_def\<close>)

lemma session_rank_report [simp]: "session_rank (report st s) = session_rank s"
  by (simp add: session_rank_def)

abbreviation lower :: "((nat \<times> nat) \<times> nat \<times> nat) set" where
  "lower \<equiv> less_than <*lex*> less_than"

lemma index_ranks:
  assumes "indexer_step e s t" "outcome s = None" "token_cancelled (ctx s)"
  shows "(session_rank t, session_rank s) \<in> lower"
  using assms by (elim indexer_stepE) (auto simp: index_idle_def rank_defs)

lemma download_ranks:
  assumes "downloader_step e s t" "outcome s = None" "token_cancelled (ctx s)"
  shows "(session_rank t, session_rank s) \<in> lower"
  using assms(1)
proof (cases rule: downloader_step.cases)
  case (collect all d ds queue)
  show ?thesis unfolding collect(1) download_collect_def
    by (rule rank_run_part) (use collect assms in \<open>simp_all add: rank_defs\<close>)
next
  case (fetch all queue)
  show ?thesis unfolding fetch(1) download_fetch_def
    by (rule rank_run_part) (use fetch assms in \<open>simp_all add: rank_defs\<close>)
next
  case (apply_one d ds)
  show ?thesis unfolding apply_one(1) download_apply_def
    by (cases "rr_deleted d"; simp only: if_True if_False simp_thms; rule rank_run_part)
       (use apply_one assms in \<open>simp_all add: rank_defs\<close>)
next
  case (remove p ds)
  show ?thesis unfolding remove(1) download_remove_def
    by (rule rank_run_part) (use remove assms in \<open>simp_all add: rank_defs\<close>)
next
  case polled
  show ?thesis unfolding polled(1) poll_answered_def
    by (rule rank_run_part) (use polled assms in \<open>simp_all add: rank_defs\<close>)
qed (use assms in \<open>auto simp: download_end_def rank_defs\<close>)

lemma upload_ranks:
  assumes "uploader_step e s t" "outcome s = None" "token_cancelled (ctx s)"
  shows "(session_rank t, session_rank s) \<in> lower"
  using assms(1)
proof (cases rule: uploader_step.cases)
  case (one_file f fs q all_commited)
  show ?thesis unfolding one_file(1) upload_next_def
    by (rule rank_run_part) (use one_file assms in \<open>simp_all add: rank_defs\<close>)
next
  case (batch n b bs all_commited)
  show ?thesis unfolding batch(1) upload_send_def
    by (rule rank_run_part) (use batch assms in \<open>simp_all add: rank_defs\<close>)
qed (use assms in \<open>auto simp: upload_end_def rank_defs\<close>)

lemma own_step_rank:
  assumes "token_cancelled (ctx s)" "own_step e s t"
  shows "(session_rank t, session_rank s) \<in> lower"
  using assms(2)
proof (cases rule: own_step.cases)
  case joined
  then show ?thesis by (simp add: session_rank_def)
qed (use assms(1) index_ranks download_ranks upload_ranks in blast)+

lemma env_step_rank:
  "env_step s t \<Longrightarrow> session_rank t = session_rank s"
  by (elim env_stepE) (simp_all add: session_rank_def)

lemma env_step_told: "env_step s t \<Longrightarrow> token_cancelled (ctx s) \<Longrightarrow> token_cancelled (ctx t)"
  by (elim env_stepE) simp_all

interpretation stopping: winding_down "own_step e" env_step
    "\<lambda>s. token_cancelled (ctx s)" "\<lambda>s. outcome s \<noteq> None" lower session_rank
  for e :: "'srv run_env"
proof
  show "wf lower" by auto
  show "\<exists>t. own_step e s t" if "\<not> outcome s \<noteq> None" for s :: "'srv session"
    using that by (intro session_progress) simp
qed (simp_all add: own_step_rank own_step_ctx env_step_rank env_step_told)

end
