(* ===== verification/SessionInvariants.thy ===== *)
theory SessionInvariants
  imports SessionSteps
begin

text \<open>
  What holds in every state of a session: the registry stays well-formed and typed, every local
  change is covered by the upload loop or by a queued update, the loops end only when told to,
  and the listener has been told exactly what happened.
\<close>

section \<open>Reachable states\<close>

definition reachable_from :: "'srv run_env \<Rightarrow> 'srv session \<Rightarrow> 'srv session \<Rightarrow> bool" where
  "reachable_from e s t \<longleftrightarrow> (\<exists>n. interleaved (own_step e) env_step n s t)"

lemma reachable_start [intro]: "reachable_from e s s"
  unfolding reachable_from_def by (blast intro: interleaved.start)

lemma reachable_own: "reachable_from e s t \<Longrightarrow> own_step e t u \<Longrightarrow> reachable_from e s u"
  unfolding reachable_from_def by (blast intro: interleaved.own)

lemma reachable_env: "reachable_from e s t \<Longrightarrow> env_step t u \<Longrightarrow> reachable_from e s u"
  unfolding reachable_from_def by (blast intro: interleaved.env)

lemma reachable_invariant:
  assumes "reachable_from e s t" "I s"
    and "\<And>t u. I t \<Longrightarrow> own_step e t u \<Longrightarrow> I u" "\<And>t u. I t \<Longrightarrow> env_step t u \<Longrightarrow> I u"
  shows "I t"
  using assms unfolding reachable_from_def by (blast intro: interleaved_invariant)

section \<open>The registry\<close>

abbreviation rows :: "'srv session \<Rightarrow> table" where
  "rows s \<equiv> records (fst (machine s))"

definition table_typed :: "table \<Rightarrow> bool" where
  "table_typed rs \<longleftrightarrow> wf_table rs \<and> (\<forall>r \<in> set rs. row_typed r)"

lemma row_step_typed: "row_step rs rs' \<Longrightarrow> table_typed rs \<Longrightarrow> table_typed rs'"
proof (induction rule: row_step.induct)
  case (accepted rs f j)
  have "\<forall>r \<in> set (update_jid f j rs). row_typed r"
    using accepted by (auto simp: table_typed_def row_typed_def update_jid_def)
  with accepted show ?case by (simp add: table_typed_def)
next
  case (landed r rs)
  then show ?case by (simp add: table_typed_def ids_sorted_append_one)
qed

text \<open>No part of the upload or download makes anything wait that did not wait before.\<close>

lemma row_step_pending:
  assumes "row_step rs rs'" "wf_table rs"
  shows "wf_table rs' \<and> set (updated_locally ns rs') \<subseteq> set (updated_locally ns rs)"
  using assms
proof (induction rule: row_step.induct)
  case (accepted rs f j)
  have wf: "wf_table (update_jid f j rs)" using accepted by simp
  have "jid r = None \<Longrightarrow> registry_view ns (update_jid f j rs) p = Some r \<Longrightarrow>
      registry_view ns rs p = Some r" for r p
    by (auto simp: view_update_jid split: if_splits)
  then show ?case
    using accepted wf by (auto simp: set_updated_locally)
next
  case (landed r rs)
  have wf: "wf_table (rs @ [r])" using landed by (simp add: ids_sorted_append_one)
  have "jid q = None \<Longrightarrow> registry_view ns (rs @ [r]) p = Some q \<Longrightarrow> registry_view ns rs p = Some q" for q p
    using landed(1) by (auto simp: view_append_one split: if_splits)
  then show ?case
    using landed wf by (auto simp: set_updated_locally)
qed simp

lemma accepted_not_pending:
  assumes "wf_table rs"
  shows "f \<notin> set (updated_locally ns (update_jid f j rs))"
proof -
  have wf: "wf_table (update_jid f j rs)" using assms by simp
  have "registry_view ns (update_jid f j rs) p \<noteq> Some f" if "jid f = None" for p
    using that by (auto simp: view_update_jid split: if_splits)
  then show ?thesis by (auto simp: set_updated_locally [OF wf])
qed

lemma downloader_rows:
  assumes "digest_ok (ext (syncing e))" "downloader_step e s t"
  shows "row_step (rows s) (rows t) \<and> updates t = updates s \<and> uploading t = uploading s
    \<and> indexing t = indexing s"
proof -
  have del: "row_step (records c) (records (snd (delete p c)))" for p and c :: client
    using keepsD [OF keeps_delete] files_only_records same_records_row_step by blast
  note parts = collect_rows [OF assms(1)] fetch_records record_deletion_rows apply_record_rows del
  note kept = run_part_keeps [where F = updates] run_part_keeps [where F = uploading]
    run_part_keeps [where F = indexing]
  note defs = download_begin_def download_collect_def download_fetch_def download_apply_def
    download_remove_def download_end_def poll_answered_def
  from assms(2) show ?thesis
    by (cases rule: downloader_step.cases)
       (simp_all add: defs machine_run_part kept parts list_remote_def row_step.same
         del: collect_needed.simps)
qed

lemma uploader_rows:
  assumes "digest_ok (ext (syncing e))" "uploader_step e s t"
  shows "row_step (rows s) (rows t) \<and> downloading t = downloading s \<and> indexing t = indexing s"
proof -
  note kept = run_part_keeps [where F = downloading] run_part_keeps [where F = indexing]
  note defs = upload_begin_def upload_next_def upload_send_def upload_end_def
  from assms(2) show ?thesis
    by (cases rule: uploader_step.cases)
       (simp_all add: defs machine_run_part kept upload_file_rows [OF assms(1)] send_batches_client
         row_step.same del: send_batches.simps)
qed

lemma indexer_rows:
  assumes "indexer_step e s t"
  obtains (same) "rows t = rows s" "updates t = updates s"
  | (ended) "outcome t \<noteq> None" "wf_table (rows s) \<Longrightarrow> wf_table (rows t)"
      "walker_ok (dir_walker e) \<Longrightarrow> table_typed (rows s) \<Longrightarrow> table_typed (rows t)"
  | (told) "updates t = updates s @ [Updated]" "wf_table (rows s) \<Longrightarrow> wf_table (rows t)"
      "walker_ok (dir_walker e) \<Longrightarrow> table_typed (rows s) \<Longrightarrow> table_typed (rows t)"
  using assms
proof (cases rule: indexer_step.cases)
  case round
  let ?check = "check_index_once (dir_walker e) (id_gap (syncing e)) (namespace (syncing e))"
  obtain c v where m: "machine s = (c, v)" by (cases "machine s")
  obtain r c' where run: "?check c = (r, c')" by (cases "?check c")
  have on: "on_client ?check (machine (report Indexing s)) = (r, (c', v))"
    using run m by (simp add: on_client_apply)
  have t: "rows t = records c'"
    using round(1) on by (auto simp: index_round_def run_part_def send_update_def index_idle_def
        split: res.splits)
  from run show thesis
  proof (cases rule: index_pass_rows)
    case same
    with t m have "rows t = rows s" by simp
    moreover have "updates t = updates s"
      using same(2) round(1) on by (auto simp: index_round_def run_part_def index_idle_def split: res.splits)
    ultimately show thesis by (rule that(1))
  next
    case (added rm ad)
    have wf: "wf_table (rows s) \<Longrightarrow> wf_table (rows t)"
      using added(2) t m by simp
    have typed: "walker_ok (dir_walker e) \<Longrightarrow> table_typed (rows s) \<Longrightarrow> table_typed (rows t)"
      using added(3) wf t m by (simp add: table_typed_def)
    have "outcome t \<noteq> None \<or> updates t = updates s @ [Updated]"
      using added(1) round(1) on by (auto simp: index_round_def run_part_def send_update_def)
    with wf typed ended told show thesis by blast
  qed
qed (auto simp: index_idle_def)


lemma own_step_typed:
  assumes "digest_ok (ext (syncing e))" "walker_ok (dir_walker e)" "own_step e s t" "table_typed (rows s)"
  shows "table_typed (rows t)"
  using assms(3)
proof (cases rule: own_step.cases)
  case indexer
  from indexer(2) assms(2,4) show ?thesis by (cases rule: indexer_rows) simp_all
next
  case downloader
  with downloader_rows [OF assms(1)] row_step_typed assms(4) show ?thesis by blast
next
  case uploader
  with uploader_rows [OF assms(1)] row_step_typed assms(4) show ?thesis by blast
qed (use assms(4) in simp)

lemma env_step_rows: "env_step s t \<Longrightarrow> rows t = rows s"
  by (elim env_stepE) simp_all

lemma own_step_wf:
  assumes "digest_ok (ext (syncing e))" "own_step e s t" "wf_table (rows s)"
  shows "wf_table (rows t)"
  using assms(2)
proof (cases rule: own_step.cases)
  case indexer
  from indexer(2) assms(3) show ?thesis by (cases rule: indexer_rows) simp_all
next
  case downloader
  with downloader_rows [OF assms(1)] row_step_pending assms(3) show ?thesis by blast
next
  case uploader
  with uploader_rows [OF assms(1)] row_step_pending assms(3) show ?thesis by blast
qed (use assms(3) in simp)

section \<open>No local change is forgotten\<close>

abbreviation pending :: "'srv run_env \<Rightarrow> 'srv session \<Rightarrow> file_record set" where
  "pending e s \<equiv> set (updated_locally (namespace (syncing e)) (rows s))"

text \<open>
  Every local change is one the running pass has yet to look at, or the pass will be repeated,
  or an update is queued that wakes the loop.
\<close>

definition covered_by :: "upload_phase \<Rightarrow> file_record set \<Rightarrow> bool" where
  "covered_by p changes =
     (case p of
        Upload_files fs q all_commited \<Rightarrow> all_commited \<longrightarrow> changes \<subseteq> set fs
      | Upload_batches n bs all_commited \<Rightarrow> all_commited \<longrightarrow> changes = {}
      | Upload_waiting \<Rightarrow> changes = {}
      | _ \<Rightarrow> True)"

definition not_forgotten :: "'srv run_env \<Rightarrow> 'srv session \<Rightarrow> bool" where
  "not_forgotten e s \<longleftrightarrow>
     wf_table (rows s) \<and>
     (outcome s = None \<longrightarrow> updates s \<noteq> [] \<or> covered_by (uploading s) (pending e s))"

lemma covered_by_mono: "covered_by p xs \<Longrightarrow> ys \<subseteq> xs \<Longrightarrow> covered_by p ys"
  by (auto simp: covered_by_def split: upload_phase.splits)

lemma upload_next_covered:
  assumes d: "digest_ok (ext (syncing e))" and wf: "wf_table (rows s)"
    and ph: "uploading s = Upload_files (f # fs) q ac" and cov: "covered_by (uploading s) (pending e s)"
    and none: "outcome (upload_next e f fs q ac s) = None"
  shows "covered_by (uploading (upload_next e f fs q ac s)) (pending e (upload_next e f fs q ac s))"
proof -
  obtain c v where m: "machine s = (c, v)" by (cases "machine s")
  obtain r c' v' where run: "upload_file (syncing e) f q (c, v) = (r, (c', v'))" by (metis prod.collapse)
  from none run m obtain y where y: "r = Ok y"
    by (cases r) (auto simp: upload_next_def run_part_def)
  obtain q' ok where q': "y = (q', ok)" by (cases y)
  have t: "uploading (upload_next e f fs q ac s) = Upload_files fs q' (ac \<and> ok)"
    "rows (upload_next e f fs q ac s) = records c'"
    using run m y q' by (simp_all add: upload_next_def run_part_def)
  show ?thesis
  proof (cases "ac \<and> ok")
    case True
    with upload_file_spec [OF d run] y q' obtain j where j: "records c' = update_jid f j (records c)"
      by auto
    have "pending e s \<subseteq> set (f # fs)" using cov ph True by (simp add: covered_by_def)
    moreover have "set (updated_locally (namespace (syncing e)) (records c')) \<subseteq> pending e s"
      using row_step_pending [OF row_step.accepted wf] m j by simp
    moreover have "f \<notin> set (updated_locally (namespace (syncing e)) (records c'))"
      using accepted_not_pending wf m j by simp
    ultimately show ?thesis unfolding t by (auto simp: covered_by_def)
  qed (auto simp: t covered_by_def)
qed

lemma uploader_covered:
  assumes d: "digest_ok (ext (syncing e))" and st: "uploader_step e s t" and wf: "wf_table (rows s)"
    and cov: "updates s \<noteq> [] \<or> covered_by (uploading s) (pending e s)" and none: "outcome t = None"
  shows "updates t \<noteq> [] \<or> covered_by (uploading t) (pending e t)"
proof -
  have less: "pending e t \<subseteq> pending e s"
    using row_step_pending [OF _ wf] uploader_rows [OF d st] by blast
  note kept = run_part_keeps [where F = updates]
  from st show ?thesis
  proof (cases rule: uploader_step.cases)
    case (one_file f fs q ac)
    have "updates t = updates s" unfolding one_file(1) upload_next_def by (rule kept) simp_all
    with upload_next_covered [OF d wf one_file(2)] one_file(1) none cov show ?thesis by auto
  next
    case pass
    then show ?thesis by (simp add: upload_begin_def covered_by_def)
  next
    case (files_done q ac)
    with less cov show ?thesis by (auto simp: covered_by_def)
  next
    case (batch n b bs ac)
    have u: "updates t = updates s" unfolding batch(1) upload_send_def by (rule kept) simp_all
    show ?thesis
    proof (cases "updates s = []")
      case True
      have "uploading t = Upload_batches (Suc n) bs ac"
        using batch(1) none by (cases rule: run_part_cases [of "send_batches (syncing e) n [b]" s e id])
          (auto simp: upload_send_def run_part_def split: res.splits prod.splits)
      with True cov batch(2) less show ?thesis by (auto simp: covered_by_def)
    qed (simp add: u)
  next
    case (finish n ac)
    with less cov show ?thesis by (auto simp: covered_by_def upload_end_def)
  qed (auto simp: covered_by_def)
qed

lemma own_step_not_forgotten:
  assumes d: "digest_ok (ext (syncing e))" and st: "own_step e s t" and nf: "not_forgotten e s"
  shows "not_forgotten e t"
proof -
  have wf: "wf_table (rows s)" using nf by (simp add: not_forgotten_def)
  have s: "outcome s = None" using st by (cases rule: own_step.cases) simp_all
  with nf have cov: "updates s \<noteq> [] \<or> covered_by (uploading s) (pending e s)"
    by (simp add: not_forgotten_def)
  have "updates t \<noteq> [] \<or> covered_by (uploading t) (pending e t)" if none: "outcome t = None"
    using st
  proof (cases rule: own_step.cases)
    case indexer
    have up: "uploading t = uploading s" using indexer(2) none
      by (cases rule: indexer_step.cases)
         (auto simp: index_round_def index_idle_def send_update_def run_part_def
           split: res.splits prod.splits)
    from indexer(2) show ?thesis
      by (cases rule: indexer_rows) (use none cov up in auto)
  next
    case downloader
    note dr = downloader_rows [OF d downloader(2)]
    have "pending e t \<subseteq> pending e s" using row_step_pending [OF _ wf] dr by blast
    with cov dr show ?thesis by (auto intro: covered_by_mono)
  next
    case uploader
    from uploader_covered [OF d uploader(2) wf cov none] show ?thesis .
  qed (use none in simp)
  with own_step_wf [OF d st wf] show ?thesis by (simp add: not_forgotten_def)
qed

lemma env_step_not_forgotten: "env_step s t \<Longrightarrow> not_forgotten e s \<Longrightarrow> not_forgotten e t"
  by (elim env_stepE) (simp_all add: not_forgotten_def)


section \<open>How a session ends\<close>

text \<open>
  The loops end only when they are told to; the listener the session was started with hears of
  every status and, last, how the session ended, and no other listener hears of anything.
\<close>

definition status_calls :: "nat option \<Rightarrow> call_log \<Rightarrow> bool" where
  "status_calls l cs \<longleftrightarrow>
     (\<forall>(i, m) \<in> set cs. l = Some i \<and>
        m \<in> On_status_changed ` {Idle, Syncing, Indexing, Downloading, Uploading})"

definition final_calls :: "'srv run_env \<Rightarrow> (sync_error, unit) res \<Rightarrow> nat option \<Rightarrow> call_log \<Rightarrow> call_log" where
  "final_calls e r l cs =
     (case r of
        Ok _ \<Rightarrow> call_listener l (On_complete True None) cs
      | Err x \<Rightarrow> call_listener l (On_complete False (Some (debug_error e x))) cs
      | Panic \<Rightarrow> cs)"

definition orderly :: "'srv run_env \<Rightarrow> 'srv session \<Rightarrow> bool" where
  "orderly e s \<longleftrightarrow>
     (indexing s = Index_done \<or> downloading s = Download_done \<or> uploading s = Upload_done \<or>
        outcome s = Some (Ok ()) \<longrightarrow> token_cancelled (ctx s)) \<and>
     (\<exists>cs. status_calls (hears s) cs \<and>
        calls s = (case outcome s of None \<Rightarrow> cs | Some r \<Rightarrow> final_calls e r (hears s) cs))"

lemma orderly_conclude:
  "orderly e s \<Longrightarrow> outcome s = None \<Longrightarrow> r = Ok () \<longrightarrow> token_cancelled (ctx s) \<Longrightarrow>
    orderly e (conclude e r s)"
  by (auto simp: orderly_def final_calls_def conclude_def)

lemma orderly_report:
  assumes "orderly e s" "outcome s = None" "st \<in> {Idle, Syncing, Indexing, Downloading, Uploading}"
  shows "orderly e (report st s)"
proof -
  have "status_calls (hears s) (call_listener (hears s) (On_status_changed st) (calls s))"
    using assms by (cases "hears s") (auto simp: orderly_def status_calls_def)
  with assms(1,2) show ?thesis by (auto simp: orderly_def report_def)
qed

lemma orderly_update:
  assumes "orderly e s" "calls t = calls s" "hears t = hears s" "outcome t = outcome s"
    "indexing t = Index_done \<and> indexing s \<noteq> Index_done \<or> downloading t = Download_done \<and> downloading s \<noteq> Download_done
      \<or> uploading t = Upload_done \<and> uploading s \<noteq> Upload_done \<longrightarrow> token_cancelled (ctx s)"
    "token_cancelled (ctx s) \<longrightarrow> token_cancelled (ctx t)"
  shows "orderly e t"
proof -
  have "\<exists>cs. status_calls (hears t) cs \<and>
      calls t = (case outcome t of None \<Rightarrow> cs | Some r \<Rightarrow> final_calls e r (hears t) cs)"
    unfolding assms(2-4) using assms(1) unfolding orderly_def by (rule conjunct2)
  moreover have "indexing s = Index_done \<or> downloading s = Download_done \<or> uploading s = Upload_done \<or>
      outcome s = Some (Ok ()) \<longrightarrow> token_cancelled (ctx s)"
    using assms(1) unfolding orderly_def by (rule conjunct1)
  ultimately show ?thesis using assms(4-6) unfolding orderly_def by metis
qed

lemma orderly_part:
  assumes "orderly e s" "outcome s = None"
    and "\<And>a s. orderly e s \<Longrightarrow> outcome s = None \<Longrightarrow> orderly e (k a s)"
  shows "orderly e (run_part e m w k s)"
proof -
  have "orderly e (s\<lparr>machine := x\<rparr>)" for x
    using assms(1) by (rule orderly_update) simp_all
  with assms(2,3) show ?thesis
    by (cases rule: run_part_cases [of m s e w k]) (auto intro: orderly_conclude)
qed

lemma orderly_phases:
  assumes "orderly e s"
  shows "p \<noteq> Download_done \<or> token_cancelled (ctx s) \<Longrightarrow> orderly e (s\<lparr>downloading := p\<rparr>)"
    and "i \<noteq> Index_done \<or> token_cancelled (ctx s) \<Longrightarrow> orderly e (s\<lparr>indexing := i\<rparr>)"
    and "u \<noteq> Upload_done \<or> token_cancelled (ctx s) \<Longrightarrow> orderly e (s\<lparr>uploading := u\<rparr>)"
    and "orderly e (s\<lparr>updates := us\<rparr>)" "orderly e (s\<lparr>watch_events := n\<rparr>)"
  using assms by (auto intro: orderly_update)

lemmas orderly_intros = orderly_part orderly_phases orderly_report orderly_conclude

lemma own_step_orderly:
  assumes "own_step e s t" "orderly e s"
  shows "orderly e t"
  using assms(1)
proof (cases rule: own_step.cases)
  case indexer
  from indexer(2) show ?thesis
    by (cases rule: indexer_step.cases)
       (use indexer(1) assms(2) in \<open>auto simp: index_round_def send_update_def index_idle_def
         intro!: orderly_intros\<close>)
next
  case downloader
  from downloader(2) show ?thesis
    by (cases rule: downloader_step.cases)
       (use downloader(1) assms(2) in \<open>auto simp: download_begin_def download_collect_def
         download_fetch_def download_apply_def download_remove_def download_end_def poll_answered_def
         simp del: collect_needed.simps intro!: orderly_intros split: if_splits\<close>)
next
  case uploader
  from uploader(2) show ?thesis
    by (cases rule: uploader_step.cases)
       (use uploader(1) assms(2) in \<open>auto simp: upload_begin_def upload_next_def upload_send_def
         upload_end_def simp del: send_batches.simps intro!: orderly_intros\<close>)
next
  case joined
  have "token_cancelled (ctx s)" using joined assms(2) by (auto simp: orderly_def)
  with joined assms(2) show ?thesis by (auto intro: orderly_conclude)
qed

lemma env_step_orderly: "env_step s t \<Longrightarrow> orderly e s \<Longrightarrow> orderly e t"
  by (elim env_stepE) (auto intro: orderly_update)

lemma orderly_start: "orderly e (session_start download_only c v cx)"
proof -
  have "status_calls (listener cx) (call_listener (listener cx) (On_status_changed Syncing) [])"
    by (cases "listener cx") (auto simp: status_calls_def)
  then show ?thesis by (auto simp: orderly_def session_start_def)
qed

text \<open>The update channel is never written to after its receiver is gone.\<close>

lemma orderly_receiver:
  "orderly e s \<Longrightarrow> \<not> token_cancelled (ctx s) \<Longrightarrow> \<not> receiver_gone s"
  by (auto simp: orderly_def receiver_gone_def split: upload_phase.splits)

end
