(* ===== verification/SessionRuns.thy ===== *)
theory SessionRuns
  imports SessionInvariants
begin

text \<open>
  The passes of \<open>Syncer\<close> as runs of a session: when no other loop and nothing of the
  environment comes in between, the steps of a loop from its top compute exactly the pass, in
  success and in failure. The locale \<open>phased\<close> is what the two loops share: a phase that can be
  set apart from the machine. In it, runs compose the way programs do.
\<close>

section \<open>Programs as runs\<close>

text \<open>The end of a session a part's result means.\<close>

definition failure :: "(sync_error \<Rightarrow> sync_error) \<Rightarrow> (sync_error, 'a) res \<Rightarrow> (sync_error, unit) res option" where
  "failure w r = (case r of Ok a \<Rightarrow> None | Err y \<Rightarrow> Some (Err (w y)) | Panic \<Rightarrow> Some Panic)"

lemma failure_simps [simp]:
  "failure w (Ok a) = None" "failure w (Err y) = Some (Err (w y))" "failure w Panic = Some Panic"
  by (simp_all add: failure_def)

lemma and_then_result:
  assumes "and_then m g s = (r, x)"
  obtains (ok) y x1 where "m s = (Ok y, x1)" "g y x1 = (r, x)"
  | (failed) r1 where "m s = (r1, x)" "failure w r = failure w r1" "\<And>y. r1 \<noteq> Ok y" "\<And>y. r \<noteq> Ok y"
  using assms by (cases "m s"; cases "fst (m s)") (auto simp: and_then_def)

abbreviation steps :: "'srv run_env \<Rightarrow> 'srv session \<Rightarrow> 'srv session \<Rightarrow> bool" where
  "steps e \<equiv> (own_step e)\<^sup>*\<^sup>*"

text \<open>
  From \<open>u\<close>, the loop runs the program \<open>m\<close> on the machine of \<open>s\<close> (usually \<open>u\<close> itself): with a
  result \<open>y\<close> it gets to a phase of \<open>P y\<close>, with an error or a panic the session ends.
\<close>

definition realises ::
    "'srv run_env \<Rightarrow> ('p \<Rightarrow> 'srv session \<Rightarrow> 'srv session) \<Rightarrow> (sync_error \<Rightarrow> sync_error) \<Rightarrow>
     'srv session \<Rightarrow> 'srv session \<Rightarrow> (client \<times> 'srv, sync_error, 'a) prog \<Rightarrow> ('a \<Rightarrow> 'p set) \<Rightarrow> bool" where
  "realises e put w u s m P \<longleftrightarrow>
     (\<forall>y x. m (machine s) = (Ok y, x) \<longrightarrow> (\<exists>p \<in> P y. steps e u (put p (s\<lparr>machine := x\<rparr>)))) \<and>
     (\<forall>r x f. m (machine s) = (r, x) \<longrightarrow> failure w r = Some f \<longrightarrow>
        (\<exists>p. steps e u (conclude e f (put p (s\<lparr>machine := x\<rparr>)))))"

lemma realises_OkD:
  "realises e put w u s m P \<Longrightarrow> m (machine s) = (Ok y, x) \<Longrightarrow>
    \<exists>p \<in> P y. steps e u (put p (s\<lparr>machine := x\<rparr>))"
  unfolding realises_def by blast

lemma realises_failD:
  "realises e put w u s m P \<Longrightarrow> m (machine s) = (r, x) \<Longrightarrow> failure w r = Some f \<Longrightarrow>
    \<exists>p. steps e u (conclude e f (put p (s\<lparr>machine := x\<rparr>)))"
  unfolding realises_def by blast

locale phased =
  fixes put :: "'p \<Rightarrow> 'srv session \<Rightarrow> 'srv session"
    and phase_of :: "'srv session \<Rightarrow> 'p"
    and wrap :: "sync_error \<Rightarrow> sync_error"
  assumes put_put: "put p (put q s) = put p s"
    and put_same: "put (phase_of s) s = s"
    and put_machine: "machine (put p s) = machine s"
    and put_commute: "(put p s)\<lparr>machine := x\<rparr> = put p (s\<lparr>machine := x\<rparr>)"
begin

lemma realises_ret:
  assumes "phase_of s \<in> P y"
  shows "realises e put wrap s s (ret y) P"
proof -
  have "put (phase_of s) (s\<lparr>machine := machine s\<rparr>) = s" by (simp add: put_same)
  then have "\<exists>p \<in> P y. steps e s (put p (s\<lparr>machine := machine s\<rparr>))" using assms by (metis rtranclp.rtrancl_refl)
  then show ?thesis by (auto simp only: realises_def ret_def failure_simps)
qed

lemma realises_step:
  assumes "own_step e u (run_part e m wrap (\<lambda>y. put (F y)) s)"
  shows "realises e put wrap u s m (\<lambda>y. {F y})"
  unfolding realises_def
proof (intro conjI allI impI)
  show "\<exists>p \<in> {F y}. steps e u (put p (s\<lparr>machine := x\<rparr>))" if "m (machine s) = (Ok y, x)" for y x
    using assms that by (simp add: run_part_def r_into_rtranclp)
  show "\<exists>p. steps e u (conclude e f (put p (s\<lparr>machine := x\<rparr>)))"
    if "m (machine s) = (r, x)" "failure wrap r = Some f" for r x f
  proof -
    have "run_part e m wrap (\<lambda>y. put (F y)) s = conclude e f (s\<lparr>machine := x\<rparr>)"
      using that by (cases r) (auto simp: run_part_def)
    moreover have "put (phase_of (s\<lparr>machine := x\<rparr>)) (s\<lparr>machine := x\<rparr>) = s\<lparr>machine := x\<rparr>"
      by (rule put_same)
    ultimately show ?thesis using assms by (metis r_into_rtranclp)
  qed
qed

lemma after_put:
  "machine (put p (s\<lparr>machine := x\<rparr>)) = x"
  "put q ((put p (s\<lparr>machine := x\<rparr>))\<lparr>machine := x'\<rparr>) = put q (s\<lparr>machine := x'\<rparr>)"
  by (simp_all add: put_machine put_commute put_put)

lemma realises_then:
  assumes m: "realises e put wrap u s m P"
    and g: "\<And>y x p. m (machine s) = (Ok y, x) \<Longrightarrow> p \<in> P y \<Longrightarrow>
      realises e put wrap (put p (s\<lparr>machine := x\<rparr>)) (put p (s\<lparr>machine := x\<rparr>)) (g y) Q"
  shows "realises e put wrap u s (and_then m g) Q"
  unfolding realises_def
proof (intro conjI allI impI)
  fix z x assume "and_then m g (machine s) = (Ok z, x)"
  then show "\<exists>q \<in> Q z. steps e u (put q (s\<lparr>machine := x\<rparr>))"
  proof (cases rule: and_then_result [where w = wrap])
    case (ok y x1)
    then obtain p where p: "p \<in> P y" "steps e u (put p (s\<lparr>machine := x1\<rparr>))"
      using m unfolding realises_def by blast
    have "\<exists>q \<in> Q z. steps e (put p (s\<lparr>machine := x1\<rparr>)) (put q (s\<lparr>machine := x\<rparr>))"
      using g [OF ok(1) p(1)] ok(2) unfolding realises_def after_put by blast
    with p(2) show ?thesis by (blast intro: rtranclp_trans)
  qed blast
next
  fix r x f assume run: "and_then m g (machine s) = (r, x)" and f: "failure wrap r = Some f"
  from run show "\<exists>p. steps e u (conclude e f (put p (s\<lparr>machine := x\<rparr>)))"
  proof (cases rule: and_then_result [where w = wrap])
    case (ok y x1)
    then obtain p where p: "p \<in> P y" "steps e u (put p (s\<lparr>machine := x1\<rparr>))"
      using m unfolding realises_def by blast
    have "\<exists>q. steps e (put p (s\<lparr>machine := x1\<rparr>)) (conclude e f (put q (s\<lparr>machine := x\<rparr>)))"
      using g [OF ok(1) p(1)] ok(2) f unfolding realises_def after_put by blast
    with p(2) show ?thesis by (blast intro: rtranclp_trans)
  next
    case (failed r1)
    with m f show ?thesis unfolding realises_def by metis
  qed
qed

lemma realises_first:
  assumes "own_step e s t" "t = put p s" "realises e put wrap t t m P"
  shows "realises e put wrap s s m P"
proof -
  have "machine t = machine s" "put q (t\<lparr>machine := x\<rparr>) = put q (s\<lparr>machine := x\<rparr>)" for q x
    by (simp_all add: assms(2) put_machine put_commute put_put)
  with assms(1,3) show ?thesis
    unfolding realises_def by (metis converse_rtranclp_into_rtranclp)
qed

end

interpretation uploads: phased "\<lambda>p. uploading_update (\<lambda>_. p)" uploading "\<lambda>x. x"
  by unfold_locales simp_all

interpretation downloads: phased "\<lambda>p. downloading_update (\<lambda>_. p)" downloading download_failure
  by unfold_locales simp_all

section \<open>The upload loop\<close>

abbreviation run_upload where
  "run_upload e s \<equiv> realises e (\<lambda>p. uploading_update (\<lambda>_. p)) (\<lambda>x. x) s s"

lemma upload_files_run:
  assumes "outcome s = None" "chunker_free s" "uploading s = Upload_files fs q ac"
  shows "run_upload e s (upload_files (syncing e) fs q ac) (\<lambda>y. {Upload_files [] (fst y) (snd y)})"
  using assms
proof (induction fs arbitrary: s q ac)
  case Nil
  then show ?case by (auto intro: uploads.realises_ret)
next
  case (Cons f fs)
  have "own_step e s (upload_next e f fs q ac s)"
    using Cons.prems by (intro own_step.uploader uploader_step.one_file)
  then have one: "run_upload e s (upload_file (syncing e) f q)
      (\<lambda>y. {Upload_files fs (fst y) (ac \<and> snd y)})"
    unfolding upload_next_def by (rule uploads.realises_step)
  show ?case
    unfolding upload_files_Cons
    by (rule uploads.realises_then [OF one])
       (use Cons in \<open>auto simp: chunker_free_def split: prod.splits\<close>)
qed

lemma send_batches_Cons:
  "send_batches e n (b # bs) = and_then (send_batches e n [b]) (\<lambda>_. send_batches e (Suc n) bs)"
  by (simp add: and_then_assoc)

lemma upload_batches_run:
  assumes "outcome s = None" "uploading s = Upload_batches n bs ac"
  shows "run_upload e s (send_batches (syncing e) n bs) (\<lambda>_. range (\<lambda>m. Upload_batches m [] ac))"
  using assms
proof (induction bs arbitrary: s n)
  case Nil
  then show ?case by (auto intro: uploads.realises_ret)
next
  case (Cons b bs)
  have "own_step e s (upload_send e n b bs ac s)"
    using Cons.prems by (intro own_step.uploader uploader_step.batch)
  then have one: "run_upload e s (send_batches (syncing e) n [b]) (\<lambda>_. {Upload_batches (Suc n) bs ac})"
    unfolding upload_send_def by (rule uploads.realises_step)
  have rest: "run_upload e (s\<lparr>machine := x, uploading := Upload_batches (Suc n) bs ac\<rparr>)
      (send_batches (syncing e) (Suc n) bs) (\<lambda>_. range (\<lambda>m. Upload_batches m [] ac))" for x
    using Cons.IH [of "s\<lparr>machine := x, uploading := Upload_batches (Suc n) bs ac\<rparr>" "Suc n"]
      Cons.prems(1) by simp
  show ?case
    unfolding send_batches_Cons [of "syncing e" n b bs]
    using one by (rule uploads.realises_then) (simp only: singleton_iff rest)
qed

text \<open>The pass from its beginning, up to the place where it says what it did.\<close>

lemma upload_pass_run:
  assumes "outcome s = None" "chunker_free s" "uploading s = Upload_top" "\<not> token_cancelled (ctx s)"
  shows "run_upload e (upload_begin e s) (check_upload_once (syncing e))
    (\<lambda>b. range (\<lambda>m. Upload_batches m [] b))"
proof -
  let ?q = "\<lparr>closed = [], current_batch = [], batch_size = 0\<rparr>"
  let ?fs = "updated_locally (namespace (syncing e)) (records (fst (machine s)))"
  let ?t = "upload_begin e s"
  let ?goes = "\<lambda>b. range (\<lambda>m. Upload_batches m [] b)"
  have t: "outcome ?t = None" "chunker_free ?t" "uploading ?t = Upload_files ?fs ?q True"
    using assms by (simp_all add: upload_begin_def chunker_free_def)
  have send: "run_upload e u (and_then (send_batches (syncing e) 0 (batches q)) (\<lambda>_. ret ac)) ?goes"
    if u: "outcome u = None" "uploading u = Upload_files [] q ac" for u q ac
  proof -
    let ?v = "u\<lparr>uploading := Upload_batches 0 (batches q) ac\<rparr>"
    have "own_step e u ?v" using u by (intro own_step.uploader uploader_step.files_done)
    moreover have "run_upload e ?v (and_then (send_batches (syncing e) 0 (batches q)) (\<lambda>_. ret ac)) ?goes"
      by (rule uploads.realises_then [OF upload_batches_run])
         (use u in \<open>auto intro: uploads.realises_ret\<close>)
    ultimately show ?thesis by (rule uploads.realises_first [OF _ refl])
  qed
  have "run_upload e ?t (and_then (upload_files (syncing e) ?fs ?q True)
      (\<lambda>(q, ac). and_then (send_batches (syncing e) 0 (batches q)) (\<lambda>_. ret ac))) ?goes"
    by (rule uploads.realises_then [OF upload_files_run [OF t]]) (use t in \<open>auto intro!: send\<close>)
  moreover have "machine ?t = machine s" by (simp add: upload_begin_def)
  ultimately show ?thesis by (simp add: realises_def check_upload_once_def Let_def)
qed


section \<open>The download loop\<close>

abbreviation run_download where
  "run_download e s \<equiv> realises e (\<lambda>p. downloading_update (\<lambda>_. p)) download_failure s s"

lemma on_client_and_then:
  "on_client (and_then m g) = and_then (on_client m) (\<lambda>a. on_client (g a))"
  by (rule ext) (auto simp: on_client_def and_then_def split: res.splits prod.splits)

lemma on_client_ret [simp]: "on_client (ret y) = ret y"
  by (rule ext) (auto simp: on_client_def ret_def)

lemma collect_needed_Cons:
  "collect_needed e (d # ds) queue = and_then (collect_needed e [d] queue) (collect_needed e ds)"
  by (rule ext) (simp add: and_then_apply ret_apply split: res.splits)

lemma collect_run:
  assumes "outcome s = None" "downloading s = Download_collect all ds queue"
  shows "run_download e s (on_client (collect_needed (syncing e) ds queue)) (\<lambda>y. {Download_collect all [] y})"
  using assms
proof (induction ds arbitrary: s queue)
  case Nil
  then show ?case by (auto intro: downloads.realises_ret)
next
  case (Cons d ds)
  have "own_step e s (download_collect e all d ds queue s)"
    using Cons.prems by (intro own_step.downloader downloader_step.collect)
  then have one: "run_download e s (on_client (collect_needed (syncing e) [d] queue))
      (\<lambda>y. {Download_collect all ds y})"
    unfolding download_collect_def by (rule downloads.realises_step)
  have rest: "run_download e (s\<lparr>machine := x, downloading := Download_collect all ds y\<rparr>)
      (on_client (collect_needed (syncing e) ds y)) (\<lambda>y. {Download_collect all [] y})" for x y
    using Cons.IH [of "s\<lparr>machine := x, downloading := Download_collect all ds y\<rparr>" y] Cons.prems(1) by simp
  show ?case
    unfolding collect_needed_Cons [of "syncing e" d ds] on_client_and_then
    using one by (rule downloads.realises_then) (simp only: singleton_iff rest)
qed

text \<open>A deletion is recorded in one step, and the file goes in a second one if there is one.\<close>

lemma apply_one_run:
  assumes "outcome s = None" "downloading s = Download_apply (d # ds)"
  shows "run_download e s (on_client (apply_record (syncing e) d)) (\<lambda>_. {Download_apply ds})"
proof -
  have first: "own_step e s (download_apply e d ds s)"
    using assms by (intro own_step.downloader downloader_step.apply_one)
  show ?thesis
  proof (cases "rr_deleted d")
    case False
    with first show ?thesis
      unfolding download_apply_def if_not_P [OF False]
      by (intro downloads.realises_step [where F = "\<lambda>_. Download_apply ds"])
  next
    case True
    from first have one: "run_download e s (on_client (record_deletion (syncing e) d))
        (\<lambda>present. {if present then Download_remove (rr_path d) ds else Download_apply ds})"
      unfolding download_apply_def if_P [OF True] by (rule downloads.realises_step)
    have two: "run_download e u (on_client (delete (rr_path d))) (\<lambda>_. {Download_apply ds})"
      if "outcome u = None" "downloading u = Download_remove (rr_path d) ds" for u
    proof -
      have "own_step e u (download_remove e (rr_path d) ds u)"
        using that by (intro own_step.downloader downloader_step.remove)
      then show ?thesis unfolding download_remove_def by (rule downloads.realises_step)
    qed
    show ?thesis
      unfolding apply_record_deleted [OF True] on_client_and_then
      by (rule downloads.realises_then [OF one])
         (use assms in \<open>auto intro: two downloads.realises_ret\<close>)
  qed
qed

lemma apply_run:
  assumes "outcome s = None" "downloading s = Download_apply ds"
  shows "run_download e s (on_client (for_each (apply_record (syncing e)) ds)) (\<lambda>_. {Download_apply []})"
  using assms
proof (induction ds arbitrary: s)
  case Nil
  then show ?case by (auto intro: downloads.realises_ret)
next
  case (Cons d ds)
  show ?case
    unfolding for_each.simps on_client_and_then
    by (rule downloads.realises_then [OF apply_one_run]) (use Cons in auto)
qed



lemma fetch_run:
  assumes "outcome s = None" "downloading s = Download_collect all [] queue"
  shows "run_download e s (fetch_chunks (syncing e) queue) (\<lambda>_. {Download_apply all})"
proof -
  have "own_step e s (download_fetch e all queue s)"
    using assms by (intro own_step.downloader downloader_step.fetch)
  then show ?thesis unfolding download_fetch_def by (rule downloads.realises_step)
qed

lemma check_download_once_list:
  "check_download_once e = and_then (list_remote e) (\<lambda>ds.
     and_then (on_client (collect_needed e ds [])) (\<lambda>queue.
     and_then (fetch_chunks e queue) (\<lambda>_.
     and_then (on_client (for_each (apply_record e) ds)) (\<lambda>_. ret (ds \<noteq> [])))))"
  by (rule ext) (simp add: check_download_once_def list_remote_def and_then_def)

text \<open>The pass from the top of the loop, up to the place where it is idle again.\<close>

lemma download_pass_run:
  assumes "outcome s = None" "downloading s = Download_top" "\<not> token_cancelled (ctx s)"
  shows "realises e (\<lambda>p. downloading_update (\<lambda>_. p)) download_failure s (report Downloading s)
    (check_download_once (syncing e)) (\<lambda>_. {Download_apply []})"
proof -
  have "own_step e s (download_begin e s)"
    using assms by (intro own_step.downloader downloader_step.pass)
  then have first: "realises e (\<lambda>p. downloading_update (\<lambda>_. p)) download_failure s (report Downloading s)
      (list_remote (syncing e)) (\<lambda>ds. {Download_collect ds ds []})"
    unfolding download_begin_def by (rule downloads.realises_step)
  have rest: "run_download e u (and_then (on_client (collect_needed (syncing e) ds [])) (\<lambda>queue.
     and_then (fetch_chunks (syncing e) queue) (\<lambda>_.
     and_then (on_client (for_each (apply_record (syncing e)) ds)) (\<lambda>_. ret (ds \<noteq> [])))))
     (\<lambda>_. {Download_apply []})"
    if "outcome u = None" "downloading u = Download_collect ds ds []" for u ds
    by (rule downloads.realises_then [OF collect_run [OF that]], rule downloads.realises_then [OF fetch_run],
        use that in simp, use that in simp, rule downloads.realises_then [OF apply_run])
       (use that in \<open>auto intro: downloads.realises_ret\<close>)
  show ?thesis
    unfolding check_download_once_list
    by (rule downloads.realises_then [OF first]) (use assms in \<open>auto intro!: rest\<close>)
qed


section \<open>Whole passes\<close>

lemma report_updates [simp]:
  "(report st s)\<lparr>machine := x\<rparr> = report st (s\<lparr>machine := x\<rparr>)"
  "(report st s)\<lparr>uploading := u\<rparr> = report st (s\<lparr>uploading := u\<rparr>)"
  "(report st s)\<lparr>downloading := d\<rparr> = report st (s\<lparr>downloading := d\<rparr>)"
  by (simp_all add: report_def)

lemma upload_steps_pass:
  assumes "outcome s = None" "chunker_free s" "uploading s = Upload_top" "\<not> token_cancelled (ctx s)"
  shows "case check_upload_once (syncing e) (machine s) of
      (Ok b, x) \<Rightarrow> steps e s (upload_end b (report Uploading (s\<lparr>machine := x\<rparr>)))
    | (Err y, x) \<Rightarrow> \<exists>p. steps e s (conclude e (Err y) (report Uploading (s\<lparr>machine := x, uploading := p\<rparr>)))
    | (Panic, x) \<Rightarrow> \<exists>p. steps e s (conclude e Panic (report Uploading (s\<lparr>machine := x, uploading := p\<rparr>)))"
proof -
  let ?t = "upload_begin e s"
  obtain r x where run: "check_upload_once (syncing e) (machine s) = (r, x)" by (metis prod.collapse)
  have first: "own_step e s ?t" using assms by (intro own_step.uploader uploader_step.pass)
  have t: "machine ?t = machine s"
    "?t\<lparr>machine := x, uploading := p\<rparr> = report Uploading (s\<lparr>machine := x, uploading := p\<rparr>)" for p
    by (simp_all add: upload_begin_def)
  note pass = upload_pass_run [OF assms, of e]
  have run': "check_upload_once (syncing e) (machine ?t) = (r, x)" using run t(1) by simp
  have cut: "\<exists>p. steps e s (conclude e f (report Uploading (s\<lparr>machine := x, uploading := p\<rparr>)))"
    if "failure (\<lambda>x. x) r = Some f" for f
    using realises_failD [OF pass run' that] first unfolding t(2)
    by (blast intro: converse_rtranclp_into_rtranclp)
  show ?thesis
  proof (cases r)
    case (Ok b)
    from realises_OkD [OF pass run' [unfolded Ok]] obtain m where
      m: "steps e ?t (report Uploading (s\<lparr>machine := x, uploading := Upload_batches m [] b\<rparr>))"
      (is "steps e _ ?u") unfolding t(2) by blast
    have "own_step e ?u (upload_end b ?u)"
      using assms(1) by (intro own_step.uploader uploader_step.finish) simp_all
    moreover have "upload_end b ?u = upload_end b (report Uploading (s\<lparr>machine := x\<rparr>))"
      by (simp add: upload_end_def report_def)
    ultimately have "steps e s (upload_end b (report Uploading (s\<lparr>machine := x\<rparr>)))"
      using first m by (metis converse_rtranclp_into_rtranclp rtranclp.rtrancl_into_rtrancl)
    with Ok run show ?thesis by simp
  next
    case (Err y)
    with cut [of "Err y"] run show ?thesis by simp
  next
    case Panic
    with cut [of Panic] run show ?thesis by simp
  qed
qed

lemma download_steps_pass:
  assumes "outcome s = None" "downloading s = Download_top" "\<not> token_cancelled (ctx s)"
  shows "case check_download_once (syncing e) (machine s) of
      (Ok b, x) \<Rightarrow> steps e s (download_end (report Downloading (s\<lparr>machine := x\<rparr>)))
    | (Err y, x) \<Rightarrow> \<exists>p. steps e s (conclude e (Err (download_failure y))
        (report Downloading (s\<lparr>machine := x, downloading := p\<rparr>)))
    | (Panic, x) \<Rightarrow> \<exists>p. steps e s (conclude e Panic (report Downloading (s\<lparr>machine := x, downloading := p\<rparr>)))"
proof -
  obtain r x where run: "check_download_once (syncing e) (machine s) = (r, x)" by (metis prod.collapse)
  have run': "check_download_once (syncing e) (machine (report Downloading s)) = (r, x)" using run by simp
  note pass = download_pass_run [OF assms, of e]
  note cut = realises_failD [OF pass run', unfolded report_updates]
  show ?thesis
  proof (cases r)
    case (Ok b)
    from realises_OkD [OF pass run' [unfolded Ok]]
    have m: "steps e s (report Downloading (s\<lparr>machine := x, downloading := Download_apply []\<rparr>))"
      (is "steps e _ ?u") unfolding report_updates by blast
    have "own_step e ?u (download_end ?u)"
      using assms(1) by (intro own_step.downloader downloader_step.finish) simp_all
    moreover have "download_end ?u = download_end (report Downloading (s\<lparr>machine := x\<rparr>))"
      by (simp add: download_end_def report_def)
    ultimately have "steps e s (download_end (report Downloading (s\<lparr>machine := x\<rparr>)))"
      using m by (metis rtranclp.rtrancl_into_rtrancl)
    with Ok run show ?thesis by simp
  next
    case (Err y)
    with cut [of "Err (download_failure y)"] run show ?thesis by simp
  next
    case Panic
    with cut [of Panic] run show ?thesis by simp
  qed
qed

end
