(* ===== verification/SessionProps.thy ===== *)
theory SessionProps
  imports SessionRuns SyncerProps IndexerProps
begin

text \<open>
  The properties of a continuous sync that hold with any server and any interference: it ends
  when it is cancelled, it forgets no local change, its registry stays typed, its listener is
  told what happened, and its steps are the passes of \<open>Syncer\<close>.
\<close>

section \<open>Samples\<close>

definition sample_env :: "nat run_env" where
  "sample_env =
     \<lparr>syncing = sample_sync, dir_walker = sample_walker, debug_error = display_error,
      closed_channel = ''send failed because receiver is gone''\<rparr>"

definition sample_session :: "nat session" where
  "sample_session = session_start False pending_client 0 (set_listener 4 new_context)"

lemma sample_env_fields [simp]: "syncing sample_env = sample_sync" "dir_walker sample_env = sample_walker"
  "ext sample_sync = sample_externals" "namespace sample_sync = 1"
  by (simp_all add: sample_env_def sample_sync_def)

lemma reachable_steps:
  assumes "reachable_from e s t" "steps e t u"
  shows "reachable_from e s u"
  using assms(2,1) by (induction rule: rtranclp_induct) (auto intro: reachable_own)

text \<open>The sample session: the upload loop wakes up, uploads what was waiting, and waits.\<close>

lemma sample_waits:
  "\<exists>t. reachable_from sample_env sample_session t \<and> uploading t = Upload_waiting \<and> outcome t = None \<and>
     calls t = [(4, On_status_changed Syncing), (4, On_status_changed Uploading), (4, On_status_changed Idle)]"
proof -
  let ?s = "sample_session\<lparr>uploading := Upload_top\<rparr>"
  have s: "outcome ?s = None" "chunker_free ?s" "uploading ?s = Upload_top" "\<not> token_cancelled (ctx ?s)"
    by (simp_all add: sample_session_def session_start_def chunker_free_def)
  have "own_step sample_env sample_session ?s"
    by (intro own_step.uploader uploader_step.wake) (simp_all add: sample_session_def session_start_def)
  then have a: "reachable_from sample_env sample_session ?s" by (blast intro: reachable_own)
  have b: "own_step sample_env ?s (upload_begin sample_env ?s)"
    using s by (intro own_step.uploader uploader_step.pass)
  obtain x where x: "check_upload_once sample_sync (pending_client, 0) = (Ok True, x)"
    using pending_pass by (metis prod.collapse)
  have "machine (upload_begin sample_env ?s) = (pending_client, 0)"
    by (simp add: upload_begin_def sample_session_def session_start_def)
  with x have "check_upload_once (syncing sample_env) (machine (upload_begin sample_env ?s)) = (Ok True, x)"
    by simp
  with upload_pass_run [OF s, of sample_env, unfolded realises_def] obtain m where
    c: "steps sample_env (upload_begin sample_env ?s)
      ((upload_begin sample_env ?s)\<lparr>machine := x, uploading := Upload_batches m [] True\<rparr>)"
    (is "steps _ _ ?u") by blast
  have d: "own_step sample_env ?u (upload_end True ?u)"
    by (intro own_step.uploader uploader_step.finish)
       (simp_all add: upload_begin_def sample_session_def session_start_def)
  have "reachable_from sample_env sample_session (upload_end True ?u)"
    using reachable_own [OF reachable_steps [OF reachable_own [OF a b] c] d] .
  moreover have "calls (upload_end True ?u) =
      [(4, On_status_changed Syncing), (4, On_status_changed Uploading), (4, On_status_changed Idle)]"
    by (simp add: upload_end_def upload_begin_def report_def sample_session_def session_start_def)
  ultimately show ?thesis
    by (intro exI [of _ "upload_end True ?u"])
       (simp add: upload_end_def upload_begin_def sample_session_def session_start_def)
qed

section \<open>Cancellation\<close>

text \<open>Claim C4.
  A session that is told to stop ends: in every infinite execution in which the session gets
  its turn again and again until it has ended, whatever the environment does in between, a
  state that is cancelled is followed by one in which the session has ended, even when the
  indexer waits for room in the channel or an upload of any length is under way; and as long
  as a session has not ended one of its loops can move.
\<close>

theorem cancelled_session_ends:
  assumes "execution (own_step e) env_step f" "scheduled (own_step e) (\<lambda>s. outcome s \<noteq> None) f"
    and "token_cancelled (ctx (f i))"
  shows "(\<exists>j \<ge> i. outcome (f j) \<noteq> None) \<and> (\<forall>s. outcome s = None \<longrightarrow> (\<exists>t. own_step e s t))"
  using stopping.ends [OF assms] session_progress by blast

definition sample_stop :: "nat \<Rightarrow> nat session" where
  "sample_stop i =
     (let s0 = session_start True pending_client 0 (cancel new_context);
          s1 = s0\<lparr>indexing := Index_done\<rparr>;
          s2 = s1\<lparr>downloading := Download_done\<rparr> in
      case i of 0 \<Rightarrow> s0 | Suc 0 \<Rightarrow> s1 | Suc (Suc 0) \<Rightarrow> s2 | _ \<Rightarrow> conclude sample_env (Ok ()) s2)"

theorem cancelled_session_ends_witness:
  "\<exists>j. outcome (sample_stop j) \<noteq> None \<and> token_cancelled (ctx (sample_stop 0))"
proof -
  have told: "token_cancelled (ctx (sample_stop i))" for i
    by (simp add: sample_stop_def session_start_def Let_def split: nat.split)
  have idle: "env_step (sample_stop (Suc (Suc (Suc n)))) (sample_stop (Suc (Suc (Suc (Suc n)))))" for n
  proof -
    let ?s = "sample_stop (Suc (Suc (Suc n)))"
    have "ctx ?s = cancel (ctx ?s)" by (simp add: sample_stop_def session_start_def Let_def cancel_def)
    then have "?s = ?s\<lparr>ctx := cancel (ctx ?s)\<rparr>" by simp
    moreover have "sample_stop (Suc (Suc (Suc (Suc n)))) = ?s" by (simp add: sample_stop_def)
    ultimately show ?thesis using env_step.cancelling by metis
  qed
  have go: "own_step sample_env (sample_stop i) (sample_stop (Suc i))" if "i < 3" for i
  proof -
    from that consider "i = 0" | "i = 1" | "i = 2" by linarith
    then show ?thesis
    proof cases
      case 1
      have "indexer_step sample_env (sample_stop 0) ((sample_stop 0)\<lparr>indexing := Index_done\<rparr>)"
        by (intro indexer_step.stop) (simp_all add: sample_stop_def session_start_def Let_def)
      with 1 show ?thesis
        by (intro own_step.indexer) (simp_all add: sample_stop_def session_start_def Let_def)
    next
      case 2
      have "downloader_step sample_env (sample_stop 1) ((sample_stop 1)\<lparr>downloading := Download_done\<rparr>)"
        by (intro downloader_step.stop) (simp_all add: sample_stop_def session_start_def Let_def)
      with 2 show ?thesis
        by (intro own_step.downloader) (simp_all add: sample_stop_def session_start_def Let_def numeral_2_eq_2)
    next
      case 3
      have "own_step sample_env (sample_stop 2) (conclude sample_env (Ok ()) (sample_stop 2))"
        by (intro own_step.joined)
           (simp_all add: sample_stop_def session_start_def Let_def syncer_done_def numeral_2_eq_2)
      with 3 show ?thesis by (simp add: sample_stop_def Let_def numeral_2_eq_2)
    qed
  qed
  have "own_step sample_env (sample_stop i) (sample_stop (Suc i)) \<or>
      env_step (sample_stop i) (sample_stop (Suc i))" for i
  proof (cases "i < 3")
    case False
    then obtain n where "i = Suc (Suc (Suc n))" by (metis add_2_eq_Suc less_Suc_eq_le not_less_eq numeral_3_eq_3 old.nat.exhaust zero_less_Suc)
    with idle show ?thesis by blast
  qed (use go in blast)
  then have ex: "execution (own_step sample_env) env_step sample_stop" by (simp add: execution_def)
  have "outcome (sample_stop i) = None \<longrightarrow> i < 3" for i
    by (simp add: sample_stop_def Let_def numeral_3_eq_3 split: nat.split)
  with go have "scheduled (own_step sample_env) (\<lambda>s. outcome s \<noteq> None) sample_stop"
    unfolding scheduled_def by blast
  from cancelled_session_ends [OF ex this told [of 0]] told show ?thesis by blast
qed


section \<open>Local changes\<close>

text \<open>Claim C3.
  No local change is forgotten. In every state of a session, however the index passes, the
  files and batches of the upload, the downloads, edits of the user and of other clients are
  interleaved: while the upload loop waits, either an update is in the channel that will wake
  it, or no row of the registry waits to be uploaded.
\<close>

theorem no_change_forgotten:
  assumes "digest_ok (ext (syncing e))" "wf_table (records c)"
    and "reachable_from e (session_start download_only c v cx) t"
    and "outcome t = None" "uploading t = Upload_waiting"
  shows "updates t \<noteq> [] \<or> updated_locally (namespace (syncing e)) (records (fst (machine t))) = []"
proof -
  have "not_forgotten e (session_start download_only c v cx)"
    using assms(2) by (auto simp: not_forgotten_def session_start_def covered_by_def)
  with assms(3) have "not_forgotten e t"
    by (rule reachable_invariant) (blast intro: own_step_not_forgotten [OF assms(1)] env_step_not_forgotten)+
  with assms(4,5) show ?thesis by (simp add: not_forgotten_def covered_by_def)
qed

theorem no_change_forgotten_witness:
  "\<exists>t. reachable_from sample_env sample_session t \<and> uploading t = Upload_waiting
    \<and> (updates t \<noteq> [] \<or> updated_locally 1 (records (fst (machine t))) = [])"
proof -
  obtain t where t: "reachable_from sample_env sample_session t" "outcome t = None" "uploading t = Upload_waiting"
    using sample_waits by blast
  have "digest_ok (ext (syncing sample_env))" by (simp add: digest_ok_sample)
  from no_change_forgotten [OF this wf_pending_client t(1) [unfolded sample_session_def] t(2,3)] t
  show ?thesis by auto
qed

text \<open>Claim C34.
  The registry stays typed: whatever the loops, the user, other clients and the server's
  answers do, in every state of a session the row ids increase strictly, every size is
  between 0 and the largest 64-bit integer, and every time is in whole seconds.
\<close>

theorem session_rows_typed:
  assumes "digest_ok (ext (syncing e))" "walker_ok (dir_walker e)" "table_typed (records c)"
    and "reachable_from e (session_start download_only c v cx) t"
  shows "sorted_wrt (<) (map record_id (records (fst (machine t)))) \<and>
    (\<forall>r \<in> set (records (fst (machine t))).
       0 \<le> file_size r \<and> file_size r \<le> int I64_MAX \<and> nanosecond (modified_at r) = 0)"
proof -
  have "table_typed (rows (session_start download_only c v cx))"
    using assms(3) by (simp add: session_start_def)
  with assms(4) have "table_typed (rows t)"
    by (rule reachable_invariant) (simp_all add: own_step_typed [OF assms(1,2)] env_step_rows)
  then show ?thesis by (simp add: table_typed_def row_typed_def ids_sorted_def)
qed

theorem session_rows_typed_witness:
  "\<exists>t. reachable_from sample_env sample_session t \<and> uploading t = Upload_waiting
    \<and> (\<forall>r \<in> set (records (fst (machine t))). file_size r \<le> int I64_MAX)"
proof -
  obtain t where t: "reachable_from sample_env sample_session t" "uploading t = Upload_waiting"
    using sample_waits by blast
  have "list_all (\<lambda>r. 0 \<le> file_size r \<and> file_size r \<le> 3 \<and> nanosecond (modified_at r) = 0) (records pending_client)"
    by code_simp
  moreover have "(3::int) \<le> int I64_MAX" by (simp add: I64_MAX_def)
  ultimately have "table_typed (records pending_client)"
    using wf_pending_client by (fastforce simp: table_typed_def row_typed_def list_all_iff)
  with session_rows_typed [of sample_env pending_client False 0 "set_listener 4 new_context" t] t
  show ?thesis by (auto simp: digest_ok_sample walker_ok_sample sample_session_def)
qed

section \<open>What the caller is told\<close>

text \<open>
  Every call goes to the listener the context had when the session started (one that is set
  later hears nothing), and no call is an error status. While the session runs there is no
  completion; when it has ended there is exactly one, the last call: success without a message,
  or failure with the error it returns; none after a panic. A session only succeeds when it
  was cancelled, and while it is not cancelled the receiver of the indexer's updates is there,
  so the indexer's send does not fail.
\<close>

theorem listener_told:
  assumes "reachable_from e (session_start download_only c v cx) t"
  shows "\<exists>cs. (\<forall>(i, m) \<in> set cs. listener cx = Some i \<and>
        m \<in> On_status_changed ` {Idle, Syncing, Indexing, Downloading, Uploading})
    \<and> calls t = (case outcome t of
        None \<Rightarrow> cs
      | Some (Ok _) \<Rightarrow> call_listener (listener cx) (On_complete True None) cs
      | Some (Err x) \<Rightarrow> call_listener (listener cx) (On_complete False (Some (debug_error e x))) cs
      | Some Panic \<Rightarrow> cs)
    \<and> (outcome t = Some (Ok ()) \<longrightarrow> token_cancelled (ctx t))
    \<and> (\<not> token_cancelled (ctx t) \<longrightarrow> \<not> receiver_gone t)"
proof -
  have hears: "hears t = listener cx"
    by (rule reachable_invariant [where I = "\<lambda>t. hears t = listener cx", OF assms])
       (auto simp: session_start_def dest: own_step_ctx elim: env_stepE)
  have o: "orderly e t"
    by (rule reachable_invariant [where I = "orderly e", OF assms orderly_start])
       (blast intro: own_step_orderly env_step_orderly)+
  then obtain cs where "status_calls (listener cx) cs"
    "calls t = (case outcome t of None \<Rightarrow> cs | Some r \<Rightarrow> final_calls e r (listener cx) cs)"
    unfolding orderly_def hears by blast
  with o orderly_receiver [OF o] show ?thesis
    by (intro exI [of _ cs])
       (auto simp: status_calls_def final_calls_def orderly_def split: option.splits res.splits)
qed

theorem listener_told_witness:
  "\<exists>t. reachable_from sample_env sample_session t
    \<and> calls t = [(4, On_status_changed Syncing), (4, On_status_changed Uploading), (4, On_status_changed Idle)]
    \<and> (\<forall>(i, m) \<in> set (calls t). i = 4)"
proof -
  obtain t where t: "reachable_from sample_env sample_session t" "outcome t = None"
    "calls t = [(4, On_status_changed Syncing), (4, On_status_changed Uploading), (4, On_status_changed Idle)]"
    using sample_waits by blast
  from listener_told [OF t(1) [unfolded sample_session_def]] t show ?thesis by auto
qed

section \<open>Passes\<close>

text \<open>
  The steps of a session are the passes: when nothing comes in between, the upload loop, from
  its top, gets to where \<open>check_upload_once\<close> ends, waiting when everything was committed and at
  its top again when not, and the download loop to where \<open>check_download_once\<close> ends; a pass that
  fails or panics ends the session with the pass's error, wrapped by the download loop.
\<close>

theorem steps_compute_passes:
  assumes "outcome s = None" "\<not> token_cancelled (ctx s)" "chunker_free s"
  shows "(uploading s = Upload_top \<longrightarrow>
      (case check_upload_once (syncing e) (machine s) of
         (Ok b, x) \<Rightarrow> steps e s (upload_end b (report Uploading (s\<lparr>machine := x\<rparr>)))
       | (Err y, x) \<Rightarrow> \<exists>p. steps e s (conclude e (Err y) (report Uploading (s\<lparr>machine := x, uploading := p\<rparr>)))
       | (Panic, x) \<Rightarrow> \<exists>p. steps e s (conclude e Panic (report Uploading (s\<lparr>machine := x, uploading := p\<rparr>)))))
    \<and> (downloading s = Download_top \<longrightarrow>
      (case check_download_once (syncing e) (machine s) of
         (Ok b, x) \<Rightarrow> steps e s (download_end (report Downloading (s\<lparr>machine := x\<rparr>)))
       | (Err y, x) \<Rightarrow> \<exists>p. steps e s (conclude e (Err (download_failure y))
           (report Downloading (s\<lparr>machine := x, downloading := p\<rparr>)))
       | (Panic, x) \<Rightarrow> \<exists>p. steps e s (conclude e Panic (report Downloading (s\<lparr>machine := x, downloading := p\<rparr>)))))"
  using upload_steps_pass [OF assms(1,3) _ assms(2)] download_steps_pass [OF assms(1) _ assms(2)]
  by (intro conjI impI)

theorem steps_compute_passes_witness:
  "\<exists>x. steps sample_env (sample_session\<lparr>uploading := Upload_top\<rparr>)
      (upload_end True (report Uploading (sample_session\<lparr>machine := x, uploading := Upload_top\<rparr>)))
    \<and> updated_locally 1 (records (fst x)) = updated_locally 1 (records (fst (snd
        (check_upload_once sample_sync (pending_client, 0)))))"
proof -
  let ?s = "sample_session\<lparr>uploading := Upload_top\<rparr>"
  have s: "outcome ?s = None" "\<not> token_cancelled (ctx ?s)" "chunker_free ?s" "uploading ?s = Upload_top"
    "machine ?s = (pending_client, 0)"
    by (simp_all add: sample_session_def session_start_def chunker_free_def)
  obtain x where x: "check_upload_once sample_sync (pending_client, 0) = (Ok True, x)"
    using pending_pass by (metis prod.collapse)
  have "steps sample_env ?s (upload_end True (report Uploading (?s\<lparr>machine := x\<rparr>)))"
    using steps_compute_passes [OF s(1-3), of sample_env] s(4,5) x by simp
  moreover have "?s\<lparr>machine := x\<rparr> = sample_session\<lparr>machine := x, uploading := Upload_top\<rparr>" by simp
  ultimately show ?thesis using x by (metis snd_conv)
qed

end
