(* ===== verification/SessionOneOff.thy ===== *)
theory SessionOneOff
  imports SessionProps EndToEndProps
begin

text \<open>
  The continuous sync and the one-off upload: what \<open>run_upload_once\<close> does in one call a session
  can do with its first index round and its first upload passes.
\<close>

abbreviation goes_to :: "'srv run_env \<Rightarrow> 'srv session \<Rightarrow> (client \<times> 'srv) \<Rightarrow>
    (sync_error, unit) res option \<Rightarrow> ('srv session \<Rightarrow> bool) \<Rightarrow> bool" where
  "goes_to e s x r P \<equiv> \<exists>t. steps e s t \<and> machine t = x \<and> outcome t = r \<and> P t"

abbreviation running :: "'srv session \<Rightarrow> bool" where
  "running s \<equiv> outcome s = None \<and> \<not> token_cancelled (ctx s) \<and> chunker_free s"

lemma one_pass:
  assumes "running s" "uploading s = Upload_top"
  shows "case check_upload_once (syncing e) (machine s) of
      (Ok b, x) \<Rightarrow> goes_to e s x None (\<lambda>t. running t \<and> indexing t = indexing s
          \<and> uploading t = (if b then Upload_waiting else Upload_top))
    | (Err y, x) \<Rightarrow> goes_to e s x (Some (Err y)) (\<lambda>t. True)
    | (Panic, x) \<Rightarrow> goes_to e s x (Some Panic) (\<lambda>t. True)"
proof -
  have free: "chunker_free (upload_end b (report Uploading (s\<lparr>machine := x\<rparr>)))" for b x
    using assms(1) by (simp add: chunker_free_def upload_end_def report_def)
  have ended: "goes_to e s x (Some r) (\<lambda>t. True)"
    if "steps e s (conclude e r (report Uploading (s\<lparr>machine := x, uploading := p\<rparr>)))" for r x p
    using that by (intro exI [of _ "conclude e r (report Uploading (s\<lparr>machine := x, uploading := p\<rparr>))"])
      (simp add: conclude_def report_def)
  have gone: "goes_to e s x None (\<lambda>t. running t \<and> indexing t = indexing s
          \<and> uploading t = (if b then Upload_waiting else Upload_top))"
    if "steps e s (upload_end b (report Uploading (s\<lparr>machine := x\<rparr>)))" for b x
    using that assms free [of b x]
    by (intro exI [of _ "upload_end b (report Uploading (s\<lparr>machine := x\<rparr>))"])
      (simp add: upload_end_def report_def)
  obtain r x where run: "check_upload_once (syncing e) (machine s) = (r, x)" by (metis prod.collapse)
  show ?thesis
    using upload_steps_pass [OF _ _ assms(2), of e] assms(1) run ended gone
    by (cases r) fastforce+
qed


lemma first_round:
  assumes "\<not> token_cancelled cx"
    and "check_index_once (dir_walker e) (id_gap (syncing e)) (namespace (syncing e)) c = (r, c')"
  shows "goes_to e (session_start False c v cx) (c', v)
      (case r of Ok b \<Rightarrow> None | Err y \<Rightarrow> Some (Err y) | Panic \<Rightarrow> Some Panic)
      (\<lambda>t. case r of Ok b \<Rightarrow> running t \<and> indexing t = Index_waiting \<and> uploading t = Upload_top | _ \<Rightarrow> True)"
proof -
  let ?s = "session_start False c v cx"
  let ?t = "index_round e ?s"
  have "own_step e ?s ?t"
    using assms(1) by (intro own_step.indexer indexer_step.round) (simp_all add: session_start_def)
  then have a: "steps e ?s ?t" by simp
  have on: "on_client (check_index_once (dir_walker e) (id_gap (syncing e)) (namespace (syncing e)))
      (machine (report Indexing ?s)) = (r, (c', v))"
    using assms(2) by (simp add: on_client_def session_start_def)
  show ?thesis
  proof (cases r)
    case (Ok b)
    let ?i = "index_idle ?t" and ?u = "(if b then index_idle ?t else ?t)\<lparr>uploading := Upload_top\<rparr>"
    have t: "?t = (if b then send_update e else index_idle) ((report Indexing ?s)\<lparr>machine := (c', v)\<rparr>)"
      using on Ok by (simp add: index_round_def run_part_def)
    have f: "outcome ?t = None" "uploading ?t = Upload_sleeping" "downloading ?t = Download_top"
      "ctx ?t = cx" "machine ?t = (c', v)" "indexing ?t = (if b then Index_sending else Index_waiting)"
      "length (updates ?t) \<le> CHANNEL_SIZE"
        unfolding t by (simp_all add: send_update_def index_idle_def receiver_gone_def report_def
          session_start_def CHANNEL_SIZE_def)
    have idle: "own_step e ?t ?i" if b
      using that f by (intro own_step.indexer indexer_step.sent) simp_all
    have i: "outcome ?i = None" "uploading ?i = Upload_sleeping"
      using f by (simp_all add: index_idle_def report_def)
    have "own_step e (if b then ?i else ?t) ?u"
      using f i by (intro own_step.uploader uploader_step.wake) simp_all
    with a idle have "steps e ?s ?u"
      by (cases b) (auto intro: rtranclp.rtrancl_into_rtrancl)
    moreover have "machine ?u = (c', v) \<and> outcome ?u = None \<and> running ?u \<and> indexing ?u = Index_waiting"
      using f assms(1) by (simp add: index_idle_def report_def chunker_free_def)
    ultimately show ?thesis
      using Ok by (intro exI [of _ ?u]) simp
  qed (use a on in \<open>auto simp: index_round_def run_part_def conclude_def intro!: exI [of _ ?t]\<close>)
qed


lemma passes_goes_to:
  assumes "running s" "uploading s = Upload_top"
  shows "case and_then (check_upload_once (syncing e)) (\<lambda>b. if b then ret () else
        and_then (check_upload_once (syncing e)) (\<lambda>_. ret ())) (machine s) of
      (Ok _, x) \<Rightarrow> goes_to e s x None (\<lambda>t. running t \<and> indexing t = indexing s
          \<and> uploading t \<in> {Upload_waiting, Upload_top})
    | (Err y, x) \<Rightarrow> goes_to e s x (Some (Err y)) (\<lambda>t. True)
    | (Panic, x) \<Rightarrow> goes_to e s x (Some Panic) (\<lambda>t. True)"
proof -
  obtain r x where run: "check_upload_once (syncing e) (machine s) = (r, x)" by (metis prod.collapse)
  note first = one_pass [OF assms, of e, unfolded run prod.case]
  show ?thesis
  proof (cases "r = Ok False")
    case False
    with run first show ?thesis by (cases r) (auto simp: and_then_def ret_def)
  next
    case True
    with first obtain u where u: "steps e s u" "machine u = x" "running u" "indexing u = indexing s"
      "uploading u = Upload_top" by auto
    have on: "\<exists>t. steps e s t \<and> P t" if "\<exists>t. steps e u t \<and> P t" for P
      using that u(1) by (auto intro: rtranclp_trans)
    obtain r2 x2 where run2: "check_upload_once (syncing e) x = (r2, x2)" by (metis prod.collapse)
    note second = one_pass [OF u(3,5), of e, unfolded u(2) run2 prod.case]
    have "and_then (check_upload_once (syncing e)) (\<lambda>b. if b then ret () else
        and_then (check_upload_once (syncing e)) (\<lambda>_. ret ())) (machine s) =
        (case r2 of Ok _ \<Rightarrow> (Ok (), x2) | Err y \<Rightarrow> (Err y, x2) | Panic \<Rightarrow> (Panic, x2))"
      using run run2 True by (cases r2) (simp_all add: and_then_def ret_def)
    moreover have "goes_to e s x2 None (\<lambda>t. running t \<and> indexing t = indexing s
          \<and> uploading t \<in> {Upload_waiting, Upload_top})" if "r2 = Ok b" for b
      using second u(4) that by (intro on) (auto split: if_splits)
    ultimately show ?thesis
      using second by (cases r2) (auto intro: on)
  qed
qed

lemma one_off_reached:
  assumes "\<not> token_cancelled cx"
  shows "case run_upload_once (dir_walker e) (syncing e) (c, v) of
      (Ok _, x) \<Rightarrow> \<exists>t. steps e (session_start False c v cx) t \<and> machine t = x \<and> outcome t = None
          \<and> indexing t = Index_waiting \<and> uploading t \<in> {Upload_waiting, Upload_top}
    | (Err y, x) \<Rightarrow> \<exists>t. steps e (session_start False c v cx) t \<and> machine t = x \<and> outcome t = Some (Err y)
    | (Panic, x) \<Rightarrow> \<exists>t. steps e (session_start False c v cx) t \<and> machine t = x \<and> outcome t = Some Panic"
proof -
  let ?s = "session_start False c v cx"
  let ?check = "check_index_once (dir_walker e) (id_gap (syncing e)) (namespace (syncing e))"
  obtain r c' where run: "?check c = (r, c')" by (metis prod.collapse)
  note first = first_round [OF assms run, of v]
  have on: "on_client ?check (c, v) = (r, (c', v))" using run by (simp add: on_client_def)
  show ?thesis
  proof (cases r)
    case (Ok b)
    with first obtain u where u: "steps e ?s u" "machine u = (c', v)" "running u"
      "indexing u = Index_waiting" "uploading u = Upload_top" by auto
    have onward: "\<exists>t. steps e ?s t \<and> P t" if "\<exists>t. steps e u t \<and> P t" for P
      using that u(1) by (auto intro: rtranclp_trans)
    have eq: "run_upload_once (dir_walker e) (syncing e) (c, v) =
        and_then (check_upload_once (syncing e)) (\<lambda>b. if b then ret () else
          and_then (check_upload_once (syncing e)) (\<lambda>_. ret ())) (machine u)"
      using on Ok u(2) by (simp add: run_upload_once_def and_then_def)
    obtain q x where q: "run_upload_once (dir_walker e) (syncing e) (c, v) = (q, x)" by (metis prod.collapse)
    note last = passes_goes_to [OF u(3,5), of e, folded eq, unfolded q prod.case]
    show ?thesis
      unfolding q prod.case using last u(4) by (cases q) (auto intro!: onward)
  next
    case (Err y)
    with first on show ?thesis by (auto simp: run_upload_once_def and_then_def)
  next
    case Panic
    with first on show ?thesis by (auto simp: run_upload_once_def and_then_def)
  qed
qed


text \<open>Claim C32.
  A continuous sync does what a one-off upload does. Whatever the server, with its first index
  round and first upload passes a session can get to exactly the client, files and server
  \<open>run_upload_once\<close> leaves, and is then running, its indexer waiting; and where the one-off
  upload fails or panics, the session can end there with the same error.
\<close>

theorem session_does_one_off_upload:
  assumes "\<not> token_cancelled cx"
  shows "case run_upload_once (dir_walker e) (syncing e) (c, v) of
      (Ok _, x) \<Rightarrow> \<exists>t. steps e (session_start False c v cx) t \<and> machine t = x \<and> outcome t = None
          \<and> indexing t = Index_waiting \<and> uploading t \<in> {Upload_waiting, Upload_top}
    | (Err y, x) \<Rightarrow> \<exists>t. steps e (session_start False c v cx) t \<and> machine t = x \<and> outcome t = Some (Err y)
    | (Panic, x) \<Rightarrow> \<exists>t. steps e (session_start False c v cx) t \<and> machine t = x \<and> outcome t = Some Panic"
  using assms by (rule one_off_reached)

theorem session_does_one_off_upload_witness:
  "\<exists>t. steps sample_env sample_session t \<and> outcome t = None \<and> indexing t = Index_waiting
    \<and> machine t = snd (run_upload_once sample_walker sample_sync (pending_client, 0))"
proof -
  have ix: "check_index_once sample_walker (id_gap sample_sync) 1 pending_client = (Ok False, pending_client)"
    using index_pending by (simp add: sample_sync_def)
  obtain x where x: "check_upload_once sample_sync (pending_client, 0) = (Ok True, x)"
    using pending_pass by (metis prod.collapse)
  with ix have r: "run_upload_once sample_walker sample_sync (pending_client, 0) = (Ok (), x)"
    by (simp add: run_upload_once_def and_then_def on_client_def ret_def)
  have "\<not> token_cancelled (set_listener 4 new_context)" by simp
  from session_does_one_off_upload [OF this, of sample_env pending_client 0] r show ?thesis
    by (auto simp: sample_session_def)
qed


text \<open>
  A continuous sync with this server can settle: when the client's files can be read, its
  requests are within the limits and no id stands for two contents, the session gets, without
  anything from outside, to a state where it runs and no local change waits; every change the
  index pass found is then the server's current record of its path, with its stored chunks
  making up the file, and the records of other paths are as before.
\<close>

theorem session_settles:
  assumes "check_index_once (dir_walker r) (id_gap (syncing r)) (namespace (syncing r)) c0 = (Ok b, c)"
    and "hosted E user (syncing r) v" "complete E user v" "sendable (syncing r) c v"
    and "no_clash E (syncing r) c v" "\<not> token_cancelled cx"
  shows "\<exists>t c' v'. steps r (session_start False c0 v cx) t \<and> machine t = (c', v') \<and> outcome t = None
    \<and> files c' = files c \<and> updated_locally (namespace (syncing r)) (records c') = []
    \<and> (\<forall>f \<in> set (updated_locally (namespace (syncing r)) (records c)). \<exists>j ids.
        record_of user v' (path f) = Some (j, deleted f, ids) \<and>
        (\<not> deleted f \<longrightarrow> Some (stored_content (chunk_at E v') (split_on Syncer.COMMA ids)) =
          content_at c (full_path c (path f))))
    \<and> (\<forall>p. p \<notin> path ` set (updated_locally (namespace (syncing r)) (records c)) \<longrightarrow>
        record_of user v' p = record_of user v p)"
proof -
  let ?e = "syncing r"
  from uploaded_to_server [OF assms(2,4,3,5)] obtain c' v' where
    up: "upload_passes ?e (c, v) = (Ok (), (c', v'))" "tree_kept c c'"
    and none: "updated_locally (namespace ?e) (records c') = []"
    and there: "\<forall>f \<in> set (updated_locally (namespace ?e) (records c)). \<exists>j ids.
        record_of user v' (path f) = Some (j, deleted f, ids) \<and> 0 < j \<and>
        registry_view (namespace ?e) (records c') (path f) = Some (f\<lparr>jid := Some j\<rparr>) \<and>
        (\<not> deleted f \<longrightarrow> Some (stored_content (chunk_at E v') (split_on Syncer.COMMA ids)) =
          content_at c (full_path c (path f)))"
    and others: "\<forall>p. p \<notin> path ` set (updated_locally (namespace ?e) (records c)) \<longrightarrow>
        record_of user v' p = record_of user v p" by blast
  have "run_upload_once (dir_walker r) ?e (c0, v) = (Ok (), (c', v'))"
    using run_upload_once_eq [OF assms(1)] up(1) by simp
  with one_off_reached [OF assms(6), of r c0 v] obtain t where
    t: "steps r (session_start False c0 v cx) t" "machine t = (c', v')" "outcome t = None" by auto
  have "files c' = files c" using tree_keptD [OF up(2)] by simp
  moreover have "\<forall>f \<in> set (updated_locally (namespace ?e) (records c)). \<exists>j ids.
        record_of user v' (path f) = Some (j, deleted f, ids) \<and>
        (\<not> deleted f \<longrightarrow> Some (stored_content (chunk_at E v') (split_on Syncer.COMMA ids)) =
          content_at c (full_path c (path f)))" using there by blast
  ultimately show ?thesis using t none others by (intro exI conjI)
qed

definition loop_env :: "server run_env" where
  "loop_env = \<lparr>syncing = sync_a, dir_walker = sample_walker, debug_error = display_error,
     closed_channel = ''send failed because receiver is gone''\<rparr>"

theorem session_settles_witness:
  "\<exists>t. steps loop_env (session_start False pending_client bare_server new_context) t \<and> outcome t = None
    \<and> updated_locally 1 (records (fst (machine t))) = []"
proof -
  have r: "syncing loop_env = sync_a" "dir_walker loop_env = sample_walker" by (simp_all add: loop_env_def)
  from session_settles [of loop_env, unfolded r, OF index_pending_a hosted_bare complete_bare
      sendable_pending no_clash_pending context_simps(3)]
  obtain t c' v' where "steps loop_env (session_start False pending_client bare_server new_context) t"
    "machine t = (c', v')" "outcome t = None" "updated_locally 1 (records c') = []"
    unfolding loop_sync_fields by (elim exE conjE) (rule that)
  then show ?thesis by (intro exI [of _ t]) simp
qed

end
