(* ===== verification/Network.thy ===== *)
theory Network
  imports SessionOneOff
begin

text \<open>
  Any number of continuous clients on one server. Each has its own session; the server's state
  is the one all their machines hold. A step of one client is its own, and the server it leaves
  is the others' server too; a caller, a user or a watcher acts on one client only. What holds
  of one session under any interference holds of each of them, and their steps can be composed
  into deliveries from one to another.
\<close>

section \<open>Clients on one server\<close>

type_synonym 'srv network = "nat \<Rightarrow> 'srv session"

definition with_server :: "'srv \<Rightarrow> 'srv session \<Rightarrow> 'srv session" where
  "with_server v s = s\<lparr>machine := (fst (machine s), v)\<rparr>"

definition moved :: "nat \<Rightarrow> 'srv session \<Rightarrow> 'srv network \<Rightarrow> 'srv network" where
  "moved i s n = (\<lambda>j. if j = i then s else with_server (snd (machine s)) (n j))"

inductive network_step :: "(nat \<Rightarrow> 'srv run_env) \<Rightarrow> 'srv network \<Rightarrow> 'srv network \<Rightarrow> bool" for E where
  client: "own_step (E i) (n i) s \<Longrightarrow> network_step E n (moved i s n)"
| around: "env_step (n i) s \<Longrightarrow> snd (machine s) = snd (machine (n i)) \<Longrightarrow> network_step E n (moved i s n)"

definition one_server :: "'srv network \<Rightarrow> bool" where
  "one_server n \<longleftrightarrow> (\<forall>i j. snd (machine (n i)) = snd (machine (n j)))"

lemma with_server_simps [simp]:
  "machine (with_server v s) = (fst (machine s), v)" "outcome (with_server v s) = outcome s"
  "with_server v (with_server w s) = with_server v s"
  by (simp_all add: with_server_def)

lemma with_server_same: "snd (machine s) = v \<Longrightarrow> with_server v s = s"
  by (auto simp: with_server_def)

lemma with_server_start [simp]:
  "with_server v (session_start d c w cx) = session_start d c v cx"
  by (simp add: with_server_def session_start_def)

lemma env_with_server: "env_step s (with_server v s)"
  using env_step.serving [of s "fst (machine s)" "snd (machine s)" v] by (simp add: with_server_def)

lemma one_server_moved [simp]: "one_server (moved i s n)"
  by (simp add: one_server_def moved_def)

lemma moved_simps [simp]: "moved i s n i = s" "moved i t (moved i s n) = moved i t n"
  by (auto simp: moved_def)

lemma moved_same: "one_server n \<Longrightarrow> moved i (n i) n = n"
  by (auto simp: moved_def one_server_def intro!: ext with_server_same)

section \<open>Each client is a session\<close>

lemma network_step_session:
  assumes "network_step E n m"
  shows "one_server m \<and> (\<forall>s. reachable_from (E j) s (n j) \<longrightarrow> reachable_from (E j) s (m j))"
  using assms
proof (cases rule: network_step.cases)
  case (client i s)
  then show ?thesis
    by (auto simp: moved_def [of i s n] one_server_def intro: reachable_own reachable_env [OF _ env_with_server])
next
  case (around i s)
  then show ?thesis
    by (auto simp: moved_def [of i s n] one_server_def intro: reachable_env [OF _ env_with_server] reachable_env)
qed

lemma network_sessions:
  assumes "(network_step E)\<^sup>*\<^sup>* n m" "one_server n"
  shows "one_server m \<and> (\<forall>j. reachable_from (E j) (n j) (m j))"
  using assms
proof (induction rule: rtranclp_induct)
  case (step m m')
  then show ?case using network_step_session by blast
qed auto

text \<open>Steps of one client, with the others standing still.\<close>

lemma client_steps:
  assumes "steps (E i) (n i) s" "one_server n"
  shows "(network_step E)\<^sup>*\<^sup>* n (moved i s n)"
  using assms(1)
proof (induction rule: rtranclp_induct)
  case base
  show ?case using moved_same [OF assms(2)] by simp
next
  case (step s t)
  have "network_step E (moved i s n) (moved i t (moved i s n))"
    using step(2) by (intro network_step.client) simp
  with step(3) show ?case by simp
qed


section \<open>Properties\<close>

lemma call_heard: "(i, m) \<in> set (call_listener l x cs) \<Longrightarrow> (i, m) \<in> set cs \<or> l = Some i"
  by (cases l) auto

lemma orderly_heard:
  assumes "orderly e t" "(i, m) \<in> set (calls t)"
  shows "hears t = Some i"
proof -
  from assms(1) obtain cs where cs: "status_calls (hears t) cs"
    "calls t = (case outcome t of None \<Rightarrow> cs | Some r \<Rightarrow> final_calls e r (hears t) cs)"
    by (auto simp: orderly_def)
  with assms(2) have "(i, m) \<in> set cs \<or> hears t = Some i"
    by (auto simp: final_calls_def split: option.splits res.splits dest: call_heard)
  with cs(1) show ?thesis by (auto simp: status_calls_def)
qed


definition pair_env :: "nat \<Rightarrow> server run_env" where
  "pair_env i = (if i = 0 then loop_env else loop_env\<lparr>syncing := sync_b\<rparr>)"

definition pair_client :: "nat \<Rightarrow> client" where
  "pair_client i = (if i = 0 then pending_client else fresh_client)"

lemma pair_simps [simp]:
  "syncing (pair_env 0) = sync_a" "dir_walker (pair_env i) = sample_walker"
  "syncing (pair_env (Suc i)) = sync_b" "pair_client 0 = pending_client" "pair_client (Suc i) = fresh_client"
  by (simp_all add: pair_env_def pair_client_def loop_env_def)

abbreviation pair_start :: "server network" where
  "pair_start \<equiv> \<lambda>i. session_start False (pair_client i) bare_server (set_listener i new_context)"





end
