(* ===== verification/SessionHazards.thy ===== *)
theory SessionHazards
  imports SessionProps
begin

text \<open>
  Behaviours of a continuous sync its users do not expect: a download-only session stops
  indexing for good, a file that vanishes at the wrong moment or a deletion that is downloaded
  ends the whole session, and the caller is told that it is idle while an upload is running.
\<close>

section \<open>A download-only session\<close>

text \<open>What holds from the moment the channel is full, until someone cancels.\<close>

definition stalled :: "'srv session \<Rightarrow> bool" where
  "stalled s \<longleftrightarrow> uploading s = Upload_off \<and>
     (token_cancelled (ctx s) \<or>
      indexing s = Index_sending \<and> CHANNEL_SIZE < length (updates s) \<and> downloading s \<noteq> Download_done)"

lemma stalled_own:
  assumes "stalled s" "own_step e s t"
  shows "stalled t"
  using assms(2)
proof (cases rule: own_step.cases)
  case indexer
  have "uploading t = uploading s"
    using indexer(2) by (cases rule: indexer_step.cases)
      (auto simp: index_round_def index_idle_def send_update_def run_part_keeps [where F = uploading])
  with indexer(2) assms(1) show ?thesis
    by (cases rule: indexer_step.cases) (auto simp: stalled_def receiver_gone_def index_idle_def
        index_round_def send_update_def run_part_keeps [where F = ctx])
next
  case downloader
  note kept = run_part_keeps [where F = updates] run_part_keeps [where F = uploading]
    run_part_keeps [where F = indexing]
  note defs = download_begin_def download_collect_def download_fetch_def download_apply_def
    download_remove_def download_end_def poll_answered_def
  have "updates t = updates s \<and> uploading t = uploading s \<and> indexing t = indexing s"
    using downloader(2) by (cases rule: downloader_step.cases)
      (simp_all add: defs kept del: collect_needed.simps)
  moreover have "ctx t = ctx s" using ctx_kept(2) [OF downloader(2)] by simp
  moreover have "token_cancelled (ctx s)" if "downloading t = Download_done" "downloading s \<noteq> Download_done"
    using downloader(2) that
    by (cases rule: downloader_step.cases)
       (auto simp: defs run_part_def simp del: collect_needed.simps split: res.splits prod.splits if_splits)
  ultimately show ?thesis using assms(1) by (auto simp: stalled_def)
next
  case uploader
  from uploader(2) assms(1) show ?thesis by (cases rule: uploader_step.cases) (auto simp: stalled_def)
qed (use assms(1) in \<open>simp add: stalled_def\<close>)

lemma stalled_env: "stalled s \<Longrightarrow> env_step s t \<Longrightarrow> stalled t"
  by (elim env_stepE) (auto simp: stalled_def)

text \<open>One round: the user puts the other tree in place, the indexer sees it and sends.\<close>

lemma out_of_date_one:
  assumes "disk_view w (base_path c) ns (c\<lparr>files := f1\<rparr>) \<noteq> disk_view w (base_path c) ns (c\<lparr>files := f2\<rparr>)"
  shows "\<exists>f \<in> {f1, f2}. \<exists>p. out_of_date w ns (c\<lparr>files := f, records := rs\<rparr>) p"
proof (rule ccontr)
  assume no: "\<not> ?thesis"
  let ?v = "\<lambda>f. disk_view w (base_path c) ns (c\<lparr>files := f\<rparr>)"
  have agree: "case ?v f p of None \<Rightarrow> live_view ns rs p = None
      | Some d \<Rightarrow> \<exists>r. live_view ns rs p = Some r \<and> same_file r d" if "f \<in> {f1, f2}" for f p
  proof -
    have "\<not> out_of_date w ns (c\<lparr>files := f, records := rs\<rparr>) p" using no that by blast
    moreover have "disk_view w (base_path (c\<lparr>files := f, records := rs\<rparr>)) ns (c\<lparr>files := f, records := rs\<rparr>) p
        = ?v f p"
      by (simp add: disk_view_def indexed_def form_of_def node_at_def)
    ultimately show ?thesis
      by (auto simp: out_of_date_def changed_def split: option.splits)
  qed
  have "?v f1 p = ?v f2 p" for p
  proof (cases "?v f1 p")
    case None
    with agree [of f1 p] agree [of f2 p] show ?thesis by (auto split: option.splits)
  next
    case (Some d1)
    with agree [of f1 p] obtain r where r: "live_view ns rs p = Some r" "same_file r d1" by auto
    with agree [of f2 p] obtain d2 where d2: "?v f2 p = Some d2" "same_file r d2"
      by (auto split: option.splits)
    have "d1 = d2"
      using r(2) d2(2) disk_view_SomeD [OF Some] disk_view_SomeD [OF d2(1)]
      by (intro create_form.equality) (auto simp: same_file_def)
    with Some d2(1) show ?thesis by simp
  qed
  with assms show False by blast
qed


definition swapping :: "'srv run_env \<Rightarrow> client \<Rightarrow> 'srv \<Rightarrow> nat \<Rightarrow> 'srv session \<Rightarrow> bool" where
  "swapping e c v n s \<longleftrightarrow>
     outcome s = None \<and> \<not> token_cancelled (ctx s) \<and> uploading s = Upload_off \<and>
     downloading s = Download_top \<and> length (updates s) = n \<and>
     (\<exists>f rs. machine s = (c\<lparr>files := f, records := rs\<rparr>, v) \<and> wf_table rs)"

lemma swap_round:
  fixes e :: "'srv run_env"
  assumes w: "walker_ok (dir_walker e)"
    and st: "\<And>f. f \<in> {f1, f2} \<Longrightarrow> storage_ok (dir_walker e) (base_path c) (c\<lparr>files := f\<rparr>)"
    and diff: "disk_view (dir_walker e) (base_path c) (namespace (syncing e)) (c\<lparr>files := f1\<rparr>) \<noteq>
      disk_view (dir_walker e) (base_path c) (namespace (syncing e)) (c\<lparr>files := f2\<rparr>)"
    and s: "swapping e c v n s" "indexing s = Index_top"
  shows "\<exists>t. reachable_from e s t \<and> swapping e c v (Suc n) t \<and> indexing t = Index_sending"
proof -
  let ?w = "dir_walker e" and ?ns = "namespace (syncing e)"
  from s obtain f0 rs where m: "machine s = (c\<lparr>files := f0, records := rs\<rparr>, v)" and wf: "wf_table rs"
    by (auto simp: swapping_def)
  from out_of_date_one [OF diff, of rs] obtain f where f: "f \<in> {f1, f2}"
    and ood: "\<exists>p. out_of_date ?w ?ns (c\<lparr>files := f, records := rs\<rparr>) p" by blast
  let ?c = "c\<lparr>files := f, records := rs\<rparr>"
  let ?s = "s\<lparr>machine := (?c, v)\<rparr>"
  have eq: "(c\<lparr>files := f0, records := rs\<rparr>)\<lparr>files := f, dir_meta := dir_meta c, clock := clock c\<rparr> = ?c"
    by (rule client.equality) simp_all
  have edit: "env_step s ?s"
    using env_step.editing [OF m, where f = f and d = "dir_meta c" and t = "clock c"] unfolding eq .
  have "storage_ok ?w (base_path ?c) ?c" using st [OF f] by simp
  from check_index_once_spec [OF w _ this, of "id_gap (syncing e)" ?ns] wf ood obtain rows' where
    ix: "check_index_once ?w (id_gap (syncing e)) ?ns ?c = (Ok True, ?c\<lparr>records := rows'\<rparr>)"
    and wf': "wf_table rows'" by (auto dest: refreshed_wf)
  let ?t = "index_round e ?s"
  have round: "own_step e ?s ?t"
    using s by (intro own_step.indexer indexer_step.round) (simp_all add: swapping_def)
  have "?t = (report Indexing ?s)\<lparr>machine := (?c\<lparr>records := rows'\<rparr>, v),
      updates := updates s @ [Updated], indexing := Index_sending\<rparr>"
    using ix s by (simp add: index_round_def run_part_def on_client_def send_update_def
        receiver_gone_def swapping_def report_def)
  then have "swapping e c v (Suc n) ?t \<and> indexing ?t = Index_sending"
    using s wf' by (auto simp: swapping_def intro!: exI [of _ f] exI [of _ rows'])
  with edit round show ?thesis by (blast intro: reachable_own reachable_env)
qed

lemma reachable_trans:
  assumes "reachable_from e s t" "reachable_from e t u"
  shows "reachable_from e s u"
proof -
  from assms obtain m n where "interleaved (own_step e) env_step m s t" "interleaved (own_step e) env_step n t u"
    unfolding reachable_from_def by blast
  from interleaved_trans [OF this(2,1)] show ?thesis unfolding reachable_from_def by blast
qed

lemma swap_rounds:
  fixes e :: "'srv run_env"
  assumes w: "walker_ok (dir_walker e)"
    and st: "\<And>f. f \<in> {f1, f2} \<Longrightarrow> storage_ok (dir_walker e) (base_path c) (c\<lparr>files := f\<rparr>)"
    and diff: "disk_view (dir_walker e) (base_path c) (namespace (syncing e)) (c\<lparr>files := f1\<rparr>) \<noteq>
      disk_view (dir_walker e) (base_path c) (namespace (syncing e)) (c\<lparr>files := f2\<rparr>)"
    and s: "swapping e c v 0 s" "indexing s = Index_top"
  shows "n \<le> CHANNEL_SIZE \<Longrightarrow> \<exists>t. reachable_from e s t \<and> swapping e c v n t \<and> indexing t = Index_top"
proof (induction n)
  case 0
  with s show ?case by blast
next
  case (Suc n)
  then obtain t where t: "reachable_from e s t" "swapping e c v n t" "indexing t = Index_top" by auto
  from swap_round [OF w st diff t(2,3)] obtain u where
    u: "reachable_from e t u" "swapping e c v (Suc n) u" "indexing u = Index_sending" by blast
  let ?x = "index_idle u" and ?y = "(index_idle u)\<lparr>indexing := Index_top\<rparr>"
  have "own_step e u ?x"
    using u Suc.prems by (intro own_step.indexer indexer_step.sent) (auto simp: swapping_def)
  moreover have "own_step e ?x ?y"
    using u by (intro own_step.indexer indexer_step.timer) (simp_all add: swapping_def index_idle_def)
  moreover have "swapping e c v (Suc n) ?y" using u(2) by (auto simp: swapping_def index_idle_def)
  ultimately show ?case
    using reachable_trans [OF t(1) u(1)] by (intro exI [of _ ?y]) (auto intro: reachable_own)
qed

text \<open>Claim C38.
  A download-only session can stop indexing for good: its indexer still reports every change
  to a channel nobody reads. When two different states of the storage directory alternate (a
  file that comes and goes), the session reaches a state from which, whatever happens, the
  indexer never moves again until the session is cancelled.
\<close>

theorem download_only_stalls:
  fixes e :: "'srv run_env"
  assumes "walker_ok (dir_walker e)" "wf_table (records c)" "\<not> token_cancelled cx"
    and "storage_ok (dir_walker e) (base_path c) (c\<lparr>files := f1\<rparr>)"
    and "storage_ok (dir_walker e) (base_path c) (c\<lparr>files := f2\<rparr>)"
    and "disk_view (dir_walker e) (base_path c) (namespace (syncing e)) (c\<lparr>files := f1\<rparr>) \<noteq>
      disk_view (dir_walker e) (base_path c) (namespace (syncing e)) (c\<lparr>files := f2\<rparr>)"
  shows "\<exists>t. reachable_from e (session_start True c v cx) t \<and> outcome t = None \<and> \<not> token_cancelled (ctx t)
    \<and> (\<forall>u. reachable_from e t u \<longrightarrow> \<not> token_cancelled (ctx u) \<longrightarrow> indexing u = Index_sending)"
proof -
  let ?s = "session_start True c v cx"
  have st: "storage_ok (dir_walker e) (base_path c) (c\<lparr>files := f\<rparr>)" if "f \<in> {f1, f2}" for f
    using that assms(4,5) by blast
  have "c\<lparr>files := files c, records := records c\<rparr> = c" by simp
  then have "\<exists>f rs. machine ?s = (c\<lparr>files := f, records := rs\<rparr>, v) \<and> wf_table rs"
    using assms(2) by (intro exI [of _ "files c"] exI [of _ "records c"]) (simp add: session_start_def)
  then have s: "swapping e c v 0 ?s" "indexing ?s = Index_top"
    using assms(3) unfolding swapping_def by (simp_all add: session_start_def)
  from swap_rounds [OF assms(1) st assms(6) s, of CHANNEL_SIZE] obtain t where
    t: "reachable_from e ?s t" "swapping e c v CHANNEL_SIZE t" "indexing t = Index_top" by blast
  from swap_round [OF assms(1) st assms(6) t(2,3)] obtain u where
    u: "reachable_from e t u" "swapping e c v (Suc CHANNEL_SIZE) u" "indexing u = Index_sending" by blast
  have "stalled u" using u(2,3) by (simp add: stalled_def swapping_def)
  then have "stalled x" if "reachable_from e u x" for x
    using that by (intro reachable_invariant [where I = stalled, OF that]) (auto intro: stalled_own stalled_env)
  then have "indexing x = Index_sending" if "reachable_from e u x" "\<not> token_cancelled (ctx x)" for x
    using that by (auto simp: stalled_def)
  with u(2) reachable_trans [OF t(1) u(1)] show ?thesis
    by (intro exI [of _ u]) (simp add: swapping_def)
qed


lemma storage_ok_fewer:
  assumes "storage_ok w base c" "set gs \<subseteq> set (files c)"
  shows "storage_ok w base (c\<lparr>files := gs\<rparr>)"
proof -
  have "dir_meta (c\<lparr>files := gs\<rparr>) = dir_meta c" "files (c\<lparr>files := gs\<rparr>) = gs" by simp_all
  then show ?thesis
    using assms(1) unfolding storage_ok_def
    by (elim conjE) (intro conjI ballI; (assumption | (simp only:, erule bspec, erule subsetD [OF assms(2)])))
qed

theorem download_only_stalls_witness:
  "\<exists>t. reachable_from sample_env (session_start True pending_client 0 new_context) t
    \<and> indexing t = Index_sending \<and> outcome t = None"
proof -
  let ?with = "files pending_client" and ?without = "[([RootDir], Dir), (sample_base, Dir)]"
  have same: "files pending_client = files sample_client" "base_path pending_client = base_path sample_client"
    "dir_meta pending_client = dir_meta sample_client"
    by (simp_all add: pending_client_def sample_client_def chunker.defs)
  have st: "storage_ok sample_walker (base_path pending_client) pending_client"
    using storage_sample_client unfolding storage_ok_def same .
  moreover have "pending_client\<lparr>files := ?with\<rparr> = pending_client" by simp
  ultimately have a: "storage_ok sample_walker (base_path pending_client) (pending_client\<lparr>files := ?with\<rparr>)"
    by metis
  have "set ?without \<subseteq> set ?with"
    by (simp add: pending_client_def sample_chunker_def chunker.defs)
  with st have b: "storage_ok sample_walker (base_path pending_client) (pending_client\<lparr>files := ?without\<rparr>)"
    by (rule storage_ok_fewer)
  have "disk_view sample_walker (base_path pending_client) 1 (pending_client\<lparr>files := ?with\<rparr>) ''d/a.cook'' \<noteq> None"
    "disk_view sample_walker (base_path pending_client) 1 (pending_client\<lparr>files := ?without\<rparr>) ''d/a.cook'' = None"
    by code_simp+
  then have "disk_view sample_walker (base_path pending_client) 1 (pending_client\<lparr>files := ?with\<rparr>) \<noteq>
      disk_view sample_walker (base_path pending_client) 1 (pending_client\<lparr>files := ?without\<rparr>)" by metis
  with a b download_only_stalls [of sample_env pending_client new_context ?with ?without 0] show ?thesis
    by (auto simp: walker_ok_sample wf_pending_client)
qed

section \<open>Vanishing files\<close>

lemma upload_next_missing:
  assumes "machine s = (c, v)" "\<not> deleted f" "listed (path f)" "node_at c (full_path c (path f)) = None"
  shows "upload_next e f fs q ac s =
    conclude e (Err (IoError (path f) (missing_kind c (full_path c (path f))))) s"
proof -
  have "on_client (hashify (ext (syncing e)) (path f)) (c, v) =
      (Err (IoError (path f) (missing_kind c (full_path c (path f)))), (c, v))"
    by (simp add: on_client_def hashify_missing [OF assms(3,4)])
  then have "upload_file (syncing e) f q (machine s) =
      (Err (IoError (path f) (missing_kind c (full_path c (path f)))), (c, v))"
    using assms(1,2) by (simp add: upload_file_def and_then_def)
  moreover have "s\<lparr>machine := (c, v)\<rparr> = s" using assms(1) by simp
  ultimately show ?thesis by (simp add: upload_next_def run_part_def)
qed

text \<open>A file that vanishes between the index pass and its turn in the upload ends the whole
  session: the upload loop can only fail with the IO error that names it, \<open>run_async\<close> returns
  that error, and the listener is told that the sync has failed. Nothing is retried and the
  deletion, which the next index pass would have recorded, is not uploaded.
\<close>

theorem vanished_file_ends_session:
  assumes "outcome s = None" "chunker_free s" "machine s = (c, v)"
    and "uploading s = Upload_files (f # fs) q all_commited"
    and "\<not> deleted f" "listed (path f)" "node_at c (full_path c (path f)) = None"
  shows "\<exists>t. own_step e s t \<and> (\<forall>u. uploader_step e s u \<longrightarrow> u = t)
    \<and> machine t = machine s
    \<and> outcome t = Some (Err (IoError (path f) (missing_kind c (full_path c (path f)))))
    \<and> calls t = call_listener (hears s) (On_complete False (Some (debug_error e
        (IoError (path f) (missing_kind c (full_path c (path f))))))) (calls s)"
proof -
  let ?t = "upload_next e f fs q all_commited s"
  have "own_step e s ?t" using assms(1,2,4) by (intro own_step.uploader uploader_step.one_file)
  moreover have "u = ?t" if "uploader_step e s u" for u
    using that assms(4) by (cases rule: uploader_step.cases) auto
  ultimately show ?thesis
    unfolding upload_next_missing [OF assms(3,5-7)] by (auto simp: conclude_def)
qed

text \<open>The sample session: the file is indexed, the upload starts, the user removes the file.\<close>

lemma sample_file_vanishes:
  "\<exists>s c v f fs q. reachable_from sample_env sample_session s \<and> outcome s = None \<and> chunker_free s
    \<and> machine s = (c, v) \<and> uploading s = Upload_files (f # fs) q True
    \<and> \<not> deleted f \<and> path f = ''d/a.cook'' \<and> node_at c (full_path c (path f)) = None"
proof -
  let ?s = "sample_session\<lparr>uploading := Upload_top\<rparr>"
  let ?t = "upload_begin sample_env ?s"
  let ?u = "?t\<lparr>machine := (pending_client\<lparr>files := [([RootDir], Dir), (sample_base, Dir)],
    dir_meta := dir_meta pending_client, clock := clock pending_client\<rparr>, 0)\<rparr>"
  have a: "own_step sample_env sample_session ?s"
    by (intro own_step.uploader uploader_step.wake) (simp_all add: sample_session_def session_start_def)
  have b: "own_step sample_env ?s ?t"
    by (intro own_step.uploader uploader_step.pass) (simp_all add: sample_session_def session_start_def)
  have m: "machine ?t = (pending_client, 0)"
    by (simp add: upload_begin_def sample_session_def session_start_def)
  have r: "reachable_from sample_env sample_session ?u"
    by (rule reachable_env [OF reachable_own [OF reachable_own [OF reachable_start a] b]
          env_step.editing [OF m]])
  have todo: "updated_locally 1 (records pending_client) = [hd (records pending_client)]"
    "path (hd (records pending_client)) = ''d/a.cook''" "deleted (hd (records pending_client)) = False"
    by code_simp+
  have u: "outcome ?u = None" "chunker_free ?u"
    "uploading ?u = Upload_files (hd (records pending_client) # [])
      \<lparr>closed = [], current_batch = [], batch_size = 0\<rparr> True"
    using todo(1) by (simp_all add: upload_begin_def sample_session_def session_start_def chunker_free_def)
  let ?c = "pending_client\<lparr>files := [([RootDir], Dir), (sample_base, Dir)],
    dir_meta := dir_meta pending_client, clock := clock pending_client\<rparr>"
  let ?f = "hd (records pending_client)"
  have "full_path pending_client ''d/a.cook'' = sample_base @ [Normal ''d'', Normal ''a.cook'']" by code_simp
  then have gone: "node_at ?c (full_path ?c (path (hd (records pending_client)))) = None"
    unfolding todo(2) by (simp add: node_at_def sample_base_def full_path_def)
  have mu: "machine ?u = (?c, 0)" by simp
  have dl: "\<not> deleted ?f" using todo(3) by simp
  show ?thesis by (intro exI conjI; (rule r u mu dl todo(2) gone))
qed

theorem vanished_file_ends_session_witness:
  "\<exists>s t. reachable_from sample_env sample_session s \<and> own_step sample_env s t
    \<and> (\<exists>k. outcome t = Some (Err (IoError ''d/a.cook'' k)))"
proof -
  obtain s c v f fs q where s: "reachable_from sample_env sample_session s" "outcome s = None"
    "chunker_free s" "machine s = (c, v)" "uploading s = Upload_files (f # fs) q True"
    "\<not> deleted f" "path f = ''d/a.cook''" "node_at c (full_path c (path f)) = None"
    using sample_file_vanishes by (elim exE conjE) (rule that)
  then have "listed (path f)" using listed_sample by simp
  from vanished_file_ends_session [OF s(2-6) this s(8), of sample_env] s(1,7) show ?thesis by auto
qed

end
