(* ===== verification/Startup.thy ===== *)
theory Startup
  imports Session
begin

text \<open>
  How the client gets going: the command line (client/src/main.rs), the user's id in the token
  and the entry points (client/src/lib.rs), the database and its migrations
  (client/src/connection.rs, client/migrations) and the watcher (client/src/file_watcher.rs).

  Parameters (\<open>platform\<close>): whether a runtime, a watcher, a watch, a pool, a connection and
  the migrations can be had, and the message when not; the ids \<open>Uuid::new_v4\<close> gives; decoding
  base64 and reading the \<open>uid\<close> of a JSON text. Errors come from these and from what the
  passes and loops return.
\<close>

section \<open>The platform\<close>

record platform =
  runtime_error :: "io_kind option"
  watcher_error :: "string option"
  watch_error :: "pathbuf \<Rightarrow> string option"
  build_error :: "string \<Rightarrow> string option"
  checkout_error :: "string \<Rightarrow> string option"
  migration_error :: "string \<Rightarrow> string option"
  new_v4 :: string
  url_safe_no_pad :: "string \<Rightarrow> bytes option"
  json_uid :: "bytes \<Rightarrow> int option"

text \<open>\<open>?\<close> on a call that may fail: the error is converted and returned.\<close>

definition attempt :: "('a \<Rightarrow> sync_error) \<Rightarrow> 'a option \<Rightarrow> ('s, sync_error, unit) prog" where
  "attempt wrap failure = (case failure of None \<Rightarrow> ret () | Some m \<Rightarrow> throw (wrap m))"

section \<open>The database\<close>

text \<open>
  What is in a database file: nothing, the table the first migration creates, or the table with
  the column the second one adds. Its rows get namespace 0.
\<close>

record old_row =
  or_id :: int
  or_jid :: "int option"
  or_deleted :: bool
  or_path :: string
  or_modified_at :: timestamp
  or_size :: int

datatype database =
    No_tables
  | Without_namespaces "old_row list"
  | Current table

definition add_namespace_id :: "old_row \<Rightarrow> file_record" where
  "add_namespace_id r =
     \<lparr>record_id = or_id r, jid = or_jid r, deleted = or_deleted r, path = or_path r,
      file_size = or_size r, modified_at = or_modified_at r, namespace_id = 0\<rparr>"

definition create_files :: "old_row list" where "create_files = []"

definition migrated :: "database \<Rightarrow> table" where
  "migrated d =
     (case d of
        No_tables \<Rightarrow> map add_namespace_id create_files
      | Without_namespaces rs \<Rightarrow> map add_namespace_id rs
      | Current rs \<Rightarrow> rs)"

text \<open>Everything outside the process: the databases by file name, the files, the server.\<close>

record 'srv host =
  databases :: "string \<Rightarrow> database"
  disk :: world
  remote_side :: 'srv

definition get_connection :: "platform \<Rightarrow> string \<Rightarrow> ('srv host, sync_error, unit) prog" where
  "get_connection pl db_path = attempt ConnectionInitError (checkout_error pl db_path)"

definition get_connection_pool :: "platform \<Rightarrow> string \<Rightarrow> ('srv host, sync_error, unit) prog" where
  "get_connection_pool pl db_path =
     and_then (attempt ConnectionInitError (build_error pl db_path)) (\<lambda>_.
     and_then (get_connection pl db_path) (\<lambda>_.
     and_then (attempt ConnectionInitError (migration_error pl db_path)) (\<lambda>_ h.
       (Ok (), h\<lparr>databases := (databases h)(db_path := Current (migrated (databases h db_path)))\<rparr>))))"

section \<open>Components\<close>

definition async_watcher :: "platform \<Rightarrow> ('srv host, sync_error, unit) prog" where
  "async_watcher pl = attempt NotifyError (watcher_error pl)"

definition new_runtime :: "platform \<Rightarrow> ('srv host, sync_error, unit) prog" where
  "new_runtime pl = attempt IoErrorGeneric (runtime_error pl)"

definition new_remote :: "platform \<Rightarrow> string \<Rightarrow> string \<Rightarrow> remote" where
  "new_remote pl endpoint tok = \<lparr>api_endpoint = endpoint, token = tok, uuid = new_v4 pl\<rparr>"

text \<open>A fresh chunker with an empty cache on the directory, and the rows of the database.\<close>

definition new_client :: "string \<Rightarrow> string \<Rightarrow> 'srv host \<Rightarrow> client" where
  "new_client storage_dir db_path h =
     \<lparr>files = files (disk h), dir_meta = dir_meta (disk h), clock = clock (disk h),
      base_path = components storage_dir, cache = Map.empty, inserts = 0,
      records = migrated (databases h db_path)\<rparr>"

text \<open>What a program does to its client and the server, done to the host.\<close>

definition opened ::
    "string \<Rightarrow> string \<Rightarrow> (client \<times> 'srv, sync_error, 'a) prog \<Rightarrow> ('srv host, sync_error, 'a) prog" where
  "opened storage_dir db_path m = (\<lambda>h.
     case m (new_client storage_dir db_path h, remote_side h) of
       (r, c, v) \<Rightarrow>
         (r, \<lparr>databases = (databases h)(db_path := Current (records c)),
              disk = \<lparr>files = files c, dir_meta = dir_meta c, clock = clock c\<rparr>, remote_side = v\<rparr>))"

definition connected :: "platform \<Rightarrow> 'srv sync_env \<Rightarrow> string \<Rightarrow> string \<Rightarrow> int \<Rightarrow> 'srv sync_env" where
  "connected pl e endpoint tok ns =
     e\<lparr>remote_client := new_remote pl endpoint tok, namespace := ns\<rparr>"

section \<open>One-off entry points\<close>

definition wait_remote_update ::
    "platform \<Rightarrow> 'srv sync_env \<Rightarrow> string \<Rightarrow> string \<Rightarrow> ('srv host, sync_error, unit) prog" where
  "wait_remote_update pl e endpoint tok =
     and_then (new_runtime pl) (\<lambda>_ h.
       case poll (http e) (new_remote pl endpoint tok) (remote_side h) of
         (r, v) \<Rightarrow> (r, h\<lparr>remote_side := v\<rparr>))"

definition download_entry ::
    "platform \<Rightarrow> 'srv sync_env \<Rightarrow> string \<Rightarrow> string \<Rightarrow> string \<Rightarrow> string \<Rightarrow> int \<Rightarrow>
     ('srv host, sync_error, unit) prog" where
  "download_entry pl e storage_dir db_path endpoint tok ns =
     and_then (get_connection_pool pl db_path) (\<lambda>_.
     and_then (new_runtime pl) (\<lambda>_.
       opened storage_dir db_path (run_download_once (connected pl e endpoint tok ns))))"

text \<open>The index pass comes before the runtime; the two upload passes share one chunker.\<close>

definition upload_entry ::
    "platform \<Rightarrow> walker \<Rightarrow> 'srv sync_env \<Rightarrow> string \<Rightarrow> string \<Rightarrow> string \<Rightarrow> string \<Rightarrow> int \<Rightarrow>
     ('srv host, sync_error, unit) prog" where
  "upload_entry pl w e storage_dir db_path endpoint tok ns =
     (let e' = connected pl e endpoint tok ns in
      and_then (get_connection_pool pl db_path) (\<lambda>_.
      and_then (opened storage_dir db_path (on_client (check_index_once w (id_gap e') ns))) (\<lambda>_.
      and_then (new_runtime pl) (\<lambda>_.
        opened storage_dir db_path
          (and_then (check_upload_once e') (\<lambda>all_commited.
             if all_commited then ret () else and_then (check_upload_once e') (\<lambda>_. ret ())))))))"

section \<open>The continuous sync\<close>

text \<open>
  \<open>run_async\<close> up to the point where the loops start: the environment they run in and the
  session. Initialisation has no one to report to but its result.
\<close>

definition run_async ::
    "platform \<Rightarrow> 'srv run_env \<Rightarrow> sync_context \<Rightarrow> string \<Rightarrow> string \<Rightarrow> string \<Rightarrow> string \<Rightarrow> int \<Rightarrow> bool \<Rightarrow>
     ('srv host, sync_error, 'srv run_env \<times> 'srv session) prog" where
  "run_async pl e cx storage_dir db_path endpoint tok ns download_only =
     and_then (async_watcher pl) (\<lambda>_.
     and_then (get_connection_pool pl db_path) (\<lambda>_.
     and_then (if download_only then ret ()
               else attempt NotifyError (watch_error pl (components storage_dir))) (\<lambda>_ h.
       (Ok (e\<lparr>syncing := connected pl (syncing e) endpoint tok ns\<rparr>,
            session_start download_only (new_client storage_dir db_path h) (remote_side h) cx), h))))"

definition run ::
    "platform \<Rightarrow> 'srv run_env \<Rightarrow> sync_context \<Rightarrow> string \<Rightarrow> string \<Rightarrow> string \<Rightarrow> string \<Rightarrow> int \<Rightarrow> bool \<Rightarrow>
     ('srv host, sync_error, 'srv run_env \<times> 'srv session) prog" where
  "run pl e cx storage_dir db_path endpoint tok ns download_only =
     and_then (new_runtime pl) (\<lambda>_.
       run_async pl e cx storage_dir db_path endpoint tok ns download_only)"

text \<open>How a call of \<open>run\<close> may end: what it returns and the calls its listener has received.\<close>

inductive run_ends ::
    "(sync_error, 'srv run_env \<times> 'srv session) res \<Rightarrow> (sync_error, unit) res \<Rightarrow> call_log \<Rightarrow> bool" where
  not_started: "run_ends (Err x) (Err x) []"
| panicked: "run_ends Panic Panic []"
| ended: "interleaved (own_step e) env_step n s t \<Longrightarrow> outcome t = Some r \<Longrightarrow> run_ends (Ok (e, s)) r (calls t)"

inductive_cases run_endsE: "run_ends x r cs"

section \<open>The command line\<close>

text \<open>The second segment of the token, decoded; every failure is an \<open>expect\<close> or an index.\<close>

definition extract_uid_from_jwt :: "platform \<Rightarrow> string \<Rightarrow> (sync_error, int) res" where
  "extract_uid_from_jwt pl tok =
     (case nth_opt (split_on DOT tok) 1 of
        None \<Rightarrow> Panic
      | Some part \<Rightarrow>
          (case url_safe_no_pad pl part of
             None \<Rightarrow> Panic
           | Some json_text \<Rightarrow>
               (case json_uid pl json_text of None \<Rightarrow> Panic | Some u \<Rightarrow> Ok u)))"

text \<open>The arguments, program name first. The guard asks for more than three, the body reads
  \<open>args[4]\<close>.\<close>

definition main ::
    "platform \<Rightarrow> 'srv run_env \<Rightarrow> string list \<Rightarrow>
     ('srv host, sync_error, 'srv run_env \<times> 'srv session) prog" where
  "main pl e args =
     (if 3 < length args then
        (case nth_opt args 4 of
           None \<Rightarrow> panic
         | Some client_token \<Rightarrow>
             and_then (lift_res (extract_uid_from_jwt pl client_token)) (\<lambda>ns.
               run pl e new_context (args ! 1) (args ! 2) (args ! 3) client_token ns False))
      else panic)"

end
