(* ===== verification/StartupProps.thy ===== *)
theory StartupProps
  imports SessionProps Startup Auth
begin

text \<open>
  The properties of starting: what the entry points come to once everything is available, who
  is told when it is not, the user a command runs as, and what a migrated database still knows.
\<close>

section \<open>Attempts\<close>

lemma attempt_simps [simp]:
  "attempt wrap None s = (Ok (), s)"
  "attempt wrap (Some m) s = (Err (wrap m), s)"
  by (simp_all add: attempt_def ret_def throw_def)

lemma migrated_Current [simp]: "migrated (Current rs) = rs"
  by (simp add: migrated_def)

text \<open>What can fail before the loops start, in the order it is tried.\<close>

definition startup_failures :: "platform \<Rightarrow> string \<Rightarrow> string \<Rightarrow> bool \<Rightarrow> sync_error list" where
  "startup_failures pl storage_dir db_path download_only =
     List.map_filter (\<lambda>x. x)
       [map_option IoErrorGeneric (runtime_error pl), map_option NotifyError (watcher_error pl),
        map_option ConnectionInitError (build_error pl db_path),
        map_option ConnectionInitError (checkout_error pl db_path),
        map_option ConnectionInitError (migration_error pl db_path),
        if download_only then None
        else map_option NotifyError (watch_error pl (components storage_dir))]"

definition migrate_host :: "string \<Rightarrow> 'srv host \<Rightarrow> 'srv host" where
  "migrate_host db_path h =
     h\<lparr>databases := (databases h)(db_path := Current (migrated (databases h db_path)))\<rparr>"

lemma pool_result:
  "get_connection_pool pl db_path h =
     (case List.map_filter (\<lambda>x. x) [build_error pl db_path, checkout_error pl db_path, migration_error pl db_path] of
        m # _ \<Rightarrow> (Err (ConnectionInitError m), h)
      | [] \<Rightarrow> (Ok (), migrate_host db_path h))"
  by (cases "build_error pl db_path"; cases "checkout_error pl db_path"; cases "migration_error pl db_path")
     (simp_all add: get_connection_pool_def get_connection_def migrate_host_def and_then_def
       List.map_filter_simps)

lemma new_client_migrated [simp]: "new_client d p (migrate_host p h) = new_client d p h"
  by (simp add: new_client_def migrate_host_def)

lemma run_result:
  "run pl e cx storage_dir db_path endpoint tok ns download_only h =
     (case startup_failures pl storage_dir db_path download_only of
        x # _ \<Rightarrow> (Err x, if runtime_error pl = None \<and> watcher_error pl = None
            then snd (get_connection_pool pl db_path h) else h)
      | [] \<Rightarrow> (Ok (e\<lparr>syncing := connected pl (syncing e) endpoint tok ns\<rparr>,
            session_start download_only (new_client storage_dir db_path h) (remote_side h) cx),
          migrate_host db_path h))"
  by (cases "runtime_error pl"; cases "watcher_error pl"; cases "build_error pl db_path";
      cases "checkout_error pl db_path"; cases "migration_error pl db_path"; cases download_only;
      cases "watch_error pl (components storage_dir)")
     (simp_all add: run_def run_async_def new_runtime_def async_watcher_def startup_failures_def
       List.map_filter_simps and_then_def pool_result ret_def, simp_all add: migrate_host_def)

section \<open>The calls of a session\<close>

lemma told_call: "prefix cs ds \<Longrightarrow> prefix cs (call_listener l m ds)"
  by (cases l) simp_all

lemma told_conclude: "prefix cs (calls s) \<Longrightarrow> prefix cs (calls (conclude e r s))"
  by (cases r) (simp_all add: conclude_def told_call)

lemma told_report: "prefix cs (calls s) \<Longrightarrow> prefix cs (calls (report st s))"
  by (simp add: report_def told_call)

lemma told_part:
  assumes "prefix cs (calls s)" "\<And>a s. prefix cs (calls s) \<Longrightarrow> prefix cs (calls (k a s))"
  shows "prefix cs (calls (run_part e m w k s))"
  by (cases rule: run_part_cases [of m s e w k]) (simp_all add: assms told_conclude)

lemmas told_intros = told_part told_report told_conclude

lemma own_step_calls:
  assumes "own_step e s t" "prefix cs (calls s)"
  shows "prefix cs (calls t)"
  using assms(1)
proof (cases rule: own_step.cases)
  case indexer
  from indexer(2) show ?thesis
    by (cases rule: indexer_step.cases)
       (use assms(2) in \<open>auto simp: index_round_def send_update_def index_idle_def intro!: told_intros\<close>)
next
  case downloader
  from downloader(2) show ?thesis
    by (cases rule: downloader_step.cases)
       (use assms(2) in \<open>auto simp: download_begin_def download_collect_def
         download_fetch_def download_apply_def download_remove_def download_end_def poll_answered_def
         simp del: collect_needed.simps intro!: told_intros split: if_splits\<close>)
next
  case uploader
  from uploader(2) show ?thesis
    by (cases rule: uploader_step.cases)
       (use assms(2) in \<open>auto simp: upload_begin_def upload_next_def upload_send_def
         upload_end_def simp del: send_batches.simps intro!: told_intros\<close>)
qed (use assms(2) in \<open>auto intro: told_conclude\<close>)

lemma reachable_calls:
  assumes "reachable_from e s t"
  shows "prefix (calls s) (calls t)"
  by (rule reachable_invariant [where I = "\<lambda>t. prefix (calls s) (calls t)", OF assms])
     (auto intro: own_step_calls elim: env_stepE)

section \<open>Starting\<close>

text \<open>What the listener has heard of a run that started: first that it syncs, last how it ended.\<close>

definition heard_all :: "(sync_error \<Rightarrow> string) \<Rightarrow> nat option \<Rightarrow> (sync_error, unit) res \<Rightarrow> call_log \<Rightarrow> bool" where
  "heard_all debug l r cs \<longleftrightarrow>
     (case l of
        None \<Rightarrow> cs = []
      | Some i \<Rightarrow> \<exists>ds. status_calls (Some i) ds \<and> cs = (i, On_status_changed Syncing) # ds @
          (case r of
             Ok _ \<Rightarrow> [(i, On_complete True None)]
           | Err x \<Rightarrow> [(i, On_complete False (Some (debug x)))]
           | Panic \<Rightarrow> []))"

lemma session_heard_all:
  assumes "reachable_from e (session_start download_only c v cx) t" "outcome t = Some r"
  shows "heard_all (debug_error e) (listener cx) r (calls t)"
proof -
  let ?s = "session_start download_only c v cx"
  have hears: "hears t = listener cx"
    by (rule reachable_invariant [where I = "\<lambda>t. hears t = listener cx", OF assms(1)])
       (auto simp: session_start_def dest: own_step_ctx elim: env_stepE)
  have "orderly e t"
    by (rule reachable_invariant [where I = "orderly e", OF assms(1) orderly_start])
       (blast intro: own_step_orderly env_step_orderly)+
  then obtain cs where cs: "status_calls (listener cx) cs" "calls t = final_calls e r (listener cx) cs"
    using assms(2) hears by (auto simp: orderly_def)
  show ?thesis
  proof (cases "listener cx")
    case None
    with cs have "cs = []" by (cases cs) (auto simp: status_calls_def)
    with None cs show ?thesis by (auto simp: heard_all_def final_calls_def split: res.splits)
  next
    case (Some i)
    have "prefix [(i, On_status_changed Syncing)] (calls t)"
      using reachable_calls [OF assms(1)] Some by (simp add: session_start_def)
    then obtain rest where rest: "calls t = (i, On_status_changed Syncing) # rest" by (auto elim: prefixE)
    have "cs \<noteq> [] \<and> hd cs = (i, On_status_changed Syncing)"
      using cs(2) rest Some by (cases cs) (auto simp: final_calls_def split: res.splits)
    then obtain ds where ds: "cs = (i, On_status_changed Syncing) # ds" by (cases cs) auto
    with cs(1) Some have "status_calls (Some i) ds" by (auto simp: status_calls_def)
    with cs(2) ds Some show ?thesis
      by (auto simp: heard_all_def final_calls_def split: res.splits)
  qed
qed

text \<open>Claim C35.
  Who is told how a call of \<open>run\<close> ends. When something it needs is missing, it returns the
  first failure as an IO, notify or connection error, and the listener hears nothing at all,
  neither a status nor a completion. Otherwise the loops start in the namespace and with the
  credentials given, on the migrated rows of the database; however the run ends, the listener
  hears first that it syncs and last the completion that fits the result (none after a panic).
\<close>

theorem run_reports:
  assumes "run_ends (fst (run pl e cx storage_dir db_path endpoint tok ns download_only h)) r cs"
  shows "case startup_failures pl storage_dir db_path download_only of
      x # _ \<Rightarrow> r = Err x \<and> cs = []
    | [] \<Rightarrow> heard_all (debug_error e) (listener cx) r cs
        \<and> (r = Ok () \<longrightarrow> (\<exists>t. reachable_from (e\<lparr>syncing := connected pl (syncing e) endpoint tok ns\<rparr>)
            (session_start download_only (new_client storage_dir db_path h) (remote_side h) cx) t
            \<and> token_cancelled (ctx t) \<and> calls t = cs))"
proof (cases "startup_failures pl storage_dir db_path download_only")
  case (Cons x xs)
  with assms show ?thesis by (auto simp: run_result elim: run_endsE)
next
  case Nil
  let ?e = "e\<lparr>syncing := connected pl (syncing e) endpoint tok ns\<rparr>"
  let ?s = "session_start download_only (new_client storage_dir db_path h) (remote_side h) cx"
  from assms Nil have "run_ends (Ok (?e, ?s)) r cs" by (simp add: run_result)
  then obtain t where t: "reachable_from ?e ?s t" "outcome t = Some r" "cs = calls t"
    unfolding reachable_from_def by (rule run_endsE) (auto intro: that)
  have "orderly ?e t"
    by (rule reachable_invariant [where I = "orderly ?e", OF t(1) orderly_start])
       (blast intro: own_step_orderly env_step_orderly)+
  then have "r = Ok () \<longrightarrow> token_cancelled (ctx t)" using t(2) by (auto simp: orderly_def)
  moreover have "heard_all (debug_error e) (listener cx) r cs"
    using session_heard_all [OF t(1,2)] t(3) by simp
  ultimately show ?thesis using Nil t by auto
qed


definition sample_platform :: platform where
  "sample_platform =
     \<lparr>runtime_error = None, watcher_error = None, watch_error = (\<lambda>d. None), build_error = (\<lambda>p. None),
      checkout_error = (\<lambda>p. None), migration_error = (\<lambda>p. None), new_v4 = ''u1'',
      url_safe_no_pad = (\<lambda>p. Some (to_bytes p)), json_uid = (\<lambda>b. if b = to_bytes ''p'' then Some 1 else None)\<rparr>"

definition sample_host :: "nat host" where
  "sample_host =
     \<lparr>databases = (\<lambda>_. No_tables),
      disk = \<lparr>files = files pending_client, dir_meta = dir_meta pending_client, clock = clock pending_client\<rparr>,
      remote_side = 0\<rparr>"

lemma startup_sample [simp]: "startup_failures sample_platform d p dl = []"
  by (simp add: startup_failures_def sample_platform_def List.map_filter_simps)

lemma cancelled_start_ends:
  assumes "token_cancelled cx"
  shows "\<exists>t. reachable_from e (session_start True c v cx) t \<and> outcome t = Some (Ok ())"
proof -
  let ?a = "session_start True c v cx"
  let ?b = "?a\<lparr>indexing := Index_done\<rparr>"
  let ?c = "?b\<lparr>downloading := Download_done\<rparr>"
  have "own_step e ?a ?b"
    using assms by (intro own_step.indexer indexer_step.stop) (simp_all add: session_start_def)
  moreover have "own_step e ?b ?c"
    using assms by (intro own_step.downloader downloader_step.stop) (simp_all add: session_start_def)
  moreover have "own_step e ?c (conclude e (Ok ()) ?c)"
    by (intro own_step.joined) (simp_all add: session_start_def syncer_done_def)
  ultimately have "reachable_from e ?a (conclude e (Ok ()) ?c)"
    using reachable_own reachable_start by metis
  then show ?thesis by (intro exI [of _ "conclude e (Ok ()) ?c"]) (simp add: conclude_def)
qed

theorem run_reports_witness:
  "\<exists>cs. run_ends (fst (run sample_platform sample_env (cancel (set_listener 4 new_context))
      ''d'' ''db'' ''http://s'' ''h.p.s'' 1 True sample_host)) (Ok ()) cs
    \<and> hd cs = (4, On_status_changed Syncing) \<and> last cs = (4, On_complete True None)"
proof -
  let ?cx = "cancel (set_listener 4 new_context)"
  let ?run = "run sample_platform sample_env ?cx ''d'' ''db'' ''http://s'' ''h.p.s'' 1 True sample_host"
  obtain e c v where start: "fst ?run = Ok (e, session_start True c v ?cx)"
    by (simp add: run_result)
  obtain t where "reachable_from e (session_start True c v ?cx) t" "outcome t = Some (Ok ())"
    using cancelled_start_ends [of ?cx e c v] by auto
  then have "run_ends (fst ?run) (Ok ()) (calls t)"
    unfolding start reachable_from_def by (auto intro: run_ends.ended)
  with run_reports [OF this] show ?thesis by (auto simp: heard_all_def)
qed


section \<open>One-off runs\<close>

lemma index_pass_registry_only:
  "\<exists>rs. snd (check_index_once w gap ns c) = c\<lparr>records := rs\<rparr>"
proof -
  obtain r1 c1 where d: "get_file_records_from_disk w (base_path c) ns c = (r1, c1)"
    by (metis prod.collapse)
  then have "c1 = c"
    using collect_records_same unfolding get_file_records_from_disk_def by (metis snd_conv)
  moreover have "\<exists>rs. c = c\<lparr>records := rs\<rparr>" by (intro exI [of _ "records c"]) simp
  ultimately show ?thesis
    using d by (cases r1) (auto simp: check_index_once_def and_then_def Let_def split: prod.split)
qed

text \<open>Between the two uses of the database in an upload only the registry changes.\<close>

lemma opened_again:
  fixes m :: "(client \<times> 'srv, sync_error, 'a) prog"
  assumes "\<And>c v. \<exists>rs. snd (m (c, v)) = (c\<lparr>records := rs\<rparr>, v)"
  shows "and_then (opened d p m) (\<lambda>a. opened d p (n a)) h = opened d p (and_then m n) h"
proof -
  obtain r rs where m: "m (new_client d p h, remote_side h) = (r, ((new_client d p h)\<lparr>records := rs\<rparr>, remote_side h))"
    using assms by (metis prod.collapse)
  have disk: "\<lparr>files = files (disk h), dir_meta = dir_meta (disk h), clock = clock (disk h)\<rparr> = disk h" by simp
  have again: "opened d p (n a) (snd (opened d p m h)) = (case n a ((new_client d p h)\<lparr>records := rs\<rparr>, remote_side h) of
      (r, c, v) \<Rightarrow> (r, \<lparr>databases = (databases h)(p := Current (records c)),
              disk = \<lparr>files = files c, dir_meta = dir_meta c, clock = clock c\<rparr>, remote_side = v\<rparr>))" for a
    unfolding opened_def m by (simp add: new_client_def split: prod.split)
  show ?thesis
    using again m by (cases r) (simp_all add: and_then_def opened_def [of d p m] opened_def [of d p "\<lambda>s. _ s"])
qed


text \<open>Once the database and a runtime are available, the two one-off entry points are the runs of
  the passes with a fresh client on the migrated rows, and their result goes back to the disk,
  the database and the server, although the upload opens the database again after the index
  pass. When only the runtime is missing, the index pass has already been written.
\<close>

theorem entry_points_run_passes:
  assumes "get_connection_pool pl db_path h = (Ok (), h')"
  shows "(runtime_error pl = None \<longrightarrow>
      upload_entry pl w e storage_dir db_path endpoint tok ns h =
        opened storage_dir db_path (run_upload_once w (connected pl e endpoint tok ns)) h' \<and>
      download_entry pl e storage_dir db_path endpoint tok ns h =
        opened storage_dir db_path (run_download_once (connected pl e endpoint tok ns)) h')
    \<and> (\<forall>k. runtime_error pl = Some k \<longrightarrow>
      snd (upload_entry pl w e storage_dir db_path endpoint tok ns h) =
        snd (opened storage_dir db_path (on_client (check_index_once w (id_gap e) ns)) h') \<and>
      download_entry pl e storage_dir db_path endpoint tok ns h = (Err (IoErrorGeneric k), h'))"
proof (intro conjI impI allI)
  let ?e = "connected pl e endpoint tok ns"
  have e: "namespace ?e = ns" "id_gap ?e = id_gap e" by (simp_all add: connected_def)
  have only: "\<exists>rs. snd (on_client (check_index_once w (id_gap e) ns) (c, v)) = (c\<lparr>records := rs\<rparr>, v)"
    for c :: client and v :: 'a
    using index_pass_registry_only [of w "id_gap e" ns c]
    by (cases "check_index_once w (id_gap e) ns c") (auto simp: on_client_def)
  let ?rest = "and_then (check_upload_once ?e) (\<lambda>all_commited.
      if all_commited then ret () else and_then (check_upload_once ?e) (\<lambda>_. ret ()))"
  have runtime: "and_then (new_runtime pl) k h = k () h" if "runtime_error pl = None"
    for k :: "unit \<Rightarrow> ('a host, sync_error, unit) prog" and h
    using that by (simp add: new_runtime_def and_then_def)
  {
    assume "runtime_error pl = None"
    note free = runtime [OF this]
    have "upload_entry pl w e storage_dir db_path endpoint tok ns h =
        and_then (opened storage_dir db_path (on_client (check_index_once w (id_gap e) ns)))
          (\<lambda>_. opened storage_dir db_path ?rest) h'"
      using assms free by (simp add: upload_entry_def Let_def e and_then_def)
    then show "upload_entry pl w e storage_dir db_path endpoint tok ns h =
        opened storage_dir db_path (run_upload_once w ?e) h'"
      unfolding run_upload_once_def e by (simp add: opened_again [OF only])
    show "download_entry pl e storage_dir db_path endpoint tok ns h =
        opened storage_dir db_path (run_download_once ?e) h'"
      using assms free by (simp add: download_entry_def and_then_def)
  next
    fix k assume k: "runtime_error pl = Some k"
    then show "snd (upload_entry pl w e storage_dir db_path endpoint tok ns h) =
        snd (opened storage_dir db_path (on_client (check_index_once w (id_gap e) ns)) h')"
      using assms by (auto simp: upload_entry_def Let_def e and_then_def new_runtime_def
          split: res.splits prod.splits)
    from k show "download_entry pl e storage_dir db_path endpoint tok ns h = (Err (IoErrorGeneric k), h')"
      using assms by (simp add: download_entry_def and_then_def new_runtime_def)
  }
qed

lemma pool_sample: "get_connection_pool sample_platform p h = (Ok (), migrate_host p h)"
  by (simp add: pool_result sample_platform_def List.map_filter_simps)

theorem entry_points_run_passes_witness:
  "\<exists>h. get_connection_pool sample_platform ''db'' sample_host = (Ok (), h)
    \<and> upload_entry sample_platform sample_walker sample_sync ''d'' ''db'' ''http://s'' ''h.p.s'' 1 sample_host =
        opened ''d'' ''db'' (run_upload_once sample_walker (connected sample_platform sample_sync ''http://s'' ''h.p.s'' 1)) h"
  using entry_points_run_passes [OF pool_sample [of "''db''" sample_host], of sample_walker sample_sync
      "''d''" "''http://s''" "''h.p.s''" 1] pool_sample [of "''db''" sample_host]
  by (simp add: sample_platform_def)

text \<open>
  A database from before namespaces starts over. Migrating it keeps every row, once, but under
  namespace 0; for any other namespace nothing in it is known: no row is current, nothing waits
  to be uploaded, the next listing is asked from the beginning, and the next index pass takes
  every file on disk for a new one.
\<close>

theorem upgraded_database_starts_over:
  assumes "databases h db_path = Without_namespaces rs" "namespace e \<noteq> 0"
    and "get_connection_pool pl db_path h = (Ok (), h')"
  shows "let c = new_client storage_dir db_path h' in
    map (\<lambda>r. (record_id r, path r, jid r, namespace_id r)) (records c) =
      map (\<lambda>r. (or_id r, or_path r, or_jid r, 0)) rs
    \<and> (\<forall>p. registry_view (namespace e) (records c) p = None)
    \<and> updated_locally (namespace e) (records c) = []
    \<and> latest_local e c = 0
    \<and> (\<forall>p. out_of_date w (namespace e) c p \<longleftrightarrow> indexed w (base_path c) c p)
    \<and> get_connection_pool pl db_path h' = (Ok (), h')"
proof -
  let ?c = "new_client storage_dir db_path h'"
  have h': "h' = migrate_host db_path h"
    using assms(3) by (auto simp: pool_result split: list.splits)
  have rows: "records ?c = map add_namespace_id rs"
    using assms(1) by (simp add: h' new_client_def migrate_host_def migrated_def)
  have none: "filter (\<lambda>r. namespace_id r = namespace e) (records ?c) = []"
    "filter (\<lambda>r. jid r \<noteq> None \<and> namespace_id r = namespace e) (records ?c) = []"
    using assms(2) by (simp_all add: rows filter_empty_conv add_namespace_id_def)
  have view: "registry_view (namespace e) (records ?c) p = None" for p
    unfolding registry_view_def none by (simp add: latest_def)
  have "updated_locally (namespace e) (records ?c) = []"
    unfolding updated_locally_def none by (simp add: max_ids_def)
  moreover have "latest_local e ?c = 0"
    unfolding latest_local_def latest_jid_def none by simp
  moreover have "out_of_date w (namespace e) ?c p \<longleftrightarrow> indexed w (base_path ?c) ?c p" for p
    by (simp add: out_of_date_def disk_view_def live_view_def view changed_def)
  moreover have "get_connection_pool pl db_path h' = (Ok (), h')"
    using assms(3) unfolding pool_result h' by (auto simp: migrate_host_def split: list.splits)
  ultimately show ?thesis
    using view by (simp add: Let_def rows add_namespace_id_def)
qed

definition old_host :: "nat host" where
  "old_host = sample_host\<lparr>databases := (\<lambda>_. Without_namespaces
     [\<lparr>or_id = 1, or_jid = Some 7, or_deleted = False, or_path = ''a.cook'',
       or_modified_at = Timestamp 5 0, or_size = 3\<rparr>])\<rparr>"

theorem upgraded_database_starts_over_witness:
  "\<exists>h. get_connection_pool sample_platform ''db'' old_host = (Ok (), h)
    \<and> map path (records (new_client ''d'' ''db'' h)) = [''a.cook'']
    \<and> latest_local sample_sync (new_client ''d'' ''db'' h) = 0"
proof -
  have old: "databases old_host ''db'' = Without_namespaces [\<lparr>or_id = 1, or_jid = Some 7, or_deleted = False,
      or_path = ''a.cook'', or_modified_at = Timestamp 5 0, or_size = 3\<rparr>]" (is "_ = Without_namespaces ?rs")
    by (simp add: old_host_def)
  have ns: "namespace sample_sync \<noteq> 0" by simp
  let ?c = "new_client ''d'' ''db'' (migrate_host ''db'' old_host)"
  note all = upgraded_database_starts_over [OF old ns pool_sample, of "''d''" sample_walker, unfolded Let_def]
  have keys: "map (\<lambda>r. (record_id r, path r, jid r, namespace_id r)) (records ?c) =
      map (\<lambda>r. (or_id r, or_path r, or_jid r, 0)) ?rs"
    using all by (elim conjE)
  have "latest_local sample_sync ?c = 0" using all by (elim conjE)
  moreover from keys have "map path (records ?c) = [''a.cook'']"
    by (auto simp: Cons_eq_map_conv)
  ultimately show ?thesis
    using pool_sample [of "''db''" old_host] by (intro exI conjI)
qed

section \<open>The command line\<close>

text \<open>The program runs as the user of its token. With fewer than four arguments it panics, and with
  exactly three although its guard lets them pass. With four or more it runs the continuous
  sync without a listener, in both directions, in the namespace the token names. The client
  does not check the token, but it names the user the server takes it for: when the server
  accepts the token, the namespace is the server's user id.
\<close>

theorem command_line_runs_as_user:
  assumes "\<And>t key r. verify_token a t key = Some r \<Longrightarrow> \<exists>header claims_part signature b.
      t = header @ DOT # claims_part @ DOT # signature \<and> DOT \<notin> set header \<and> DOT \<notin> set claims_part
      \<and> url_safe_no_pad pl claims_part = Some b \<and> json_uid pl b = Some (raw_uid r)"
    and "extract_claims a (Some (BEARER @ tok)) = Ok c"
  shows "(length args \<le> 4 \<longrightarrow> main pl e args h = (Panic, h))
    \<and> (4 < length args \<and> args ! 4 = tok \<longrightarrow>
        main pl e args h = run pl e new_context (args ! 1) (args ! 2) (args ! 3) tok (uid c) False h)"
proof -
  obtain key r where r: "verify_token a tok key = Some r" "uid c = raw_uid r"
    using assms(2) by (auto simp: extract_claims_def decode_token_def split: if_splits option.splits)
  from assms(1) [OF r(1)] obtain hd p sg b where t: "tok = hd @ DOT # p @ DOT # sg" "DOT \<notin> set hd"
    "DOT \<notin> set p" "url_safe_no_pad pl p = Some b" "json_uid pl b = Some (raw_uid r)" by blast
  then have "nth_opt (split_on DOT tok) 1 = Some p" by (simp add: split_on_append_sep)
  with t(4,5) r(2) have "extract_uid_from_jwt pl tok = Ok (uid c)" by (simp add: extract_uid_from_jwt_def)
  then have "main pl e args h = run pl e new_context (args ! 1) (args ! 2) (args ! 3) tok (uid c) False h"
    if "4 < length args" "args ! 4 = tok"
    using that by (simp add: main_def nth_opt_def and_then_def lift_res_def)
  moreover have "main pl e args h = (Panic, h)" if "length args \<le> 4"
    using that by (simp add: main_def nth_opt_def panic_def)
  ultimately show ?thesis by blast
qed


definition sample_verifier :: auth_env where
  "sample_verifier =
     \<lparr>sync_enforcement = None, jwt_secret = Some ''k'', sync_upgrade_url = None,
      verify_token = (\<lambda>t key. if t = ''h.p.s'' then Some \<lparr>raw_uid = 1, raw_sync_until = None\<rparr> else None),
      since_epoch = Some 0\<rparr>"

theorem command_line_runs_as_user_witness:
  "main sample_platform sample_env [''sync'', ''d'', ''db'', ''http://s''] sample_host = (Panic, sample_host)
   \<and> main sample_platform sample_env [''sync'', ''d'', ''db'', ''http://s'', ''h.p.s''] sample_host =
      run sample_platform sample_env new_context ''d'' ''db'' ''http://s'' ''h.p.s'' 1 False sample_host"
proof -
  have v: "verify_token sample_verifier t key = Some r \<Longrightarrow> \<exists>header claims_part signature b.
      t = header @ DOT # claims_part @ DOT # signature \<and> DOT \<notin> set header \<and> DOT \<notin> set claims_part
      \<and> url_safe_no_pad sample_platform claims_part = Some b \<and> json_uid sample_platform b = Some (raw_uid r)"
    for t key r
    by (rule exI [of _ "''h''"], rule exI [of _ "''p''"], rule exI [of _ "''s''"], rule exI [of _ "to_bytes ''p''"])
       (auto simp: sample_verifier_def sample_platform_def DOT_def split: if_splits)
  have c: "extract_claims sample_verifier (Some (BEARER @ ''h.p.s'')) = Ok \<lparr>uid = 1, sync_until = None\<rparr>"
    by (simp add: extract_claims_def decode_token_def sample_verifier_def lenient_ts_def BEARER_def)
  have "(length args \<le> 4 \<longrightarrow> main sample_platform sample_env args sample_host = (Panic, sample_host))
    \<and> (4 < length args \<and> args ! 4 = ''h.p.s'' \<longrightarrow> main sample_platform sample_env args sample_host =
        run sample_platform sample_env new_context (args ! 1) (args ! 2) (args ! 3) ''h.p.s''
          (uid \<lparr>uid = 1, sync_until = None\<rparr>) False sample_host)" for args
    by (rule command_line_runs_as_user [OF _ c]) (erule v)
  from this [of "[''sync'', ''d'', ''db'', ''http://s'']"]
    this [of "[''sync'', ''d'', ''db'', ''http://s'', ''h.p.s'']"]
  show ?thesis by simp
qed

end
