(* ===== verification/ServerProps.thy ===== *)
theory ServerProps
  imports Loopback
begin

text \<open>
  What the server does with a request it does not let through.
\<close>

section \<open>Refused requests\<close>

lemma entitled_refused:
  assumes "\<forall>u. snd (entitled_user_from_parts (auth E) (header_text ''Authorization'' rq)) \<noteq> Ok u"
  shows "(\<exists>rej. entitled E rq s = (Err (rejection_response (auth E) rej), s)) \<or> entitled E rq s = (Panic, s)"
  using assms by (auto simp: entitled_def prog_simps split: res.splits)

lemma refused_routes:
  assumes "(\<exists>rej. entitled E rq s = (Err (rejection_response (auth E) rej), s)) \<or> entitled E rq s = (Panic, s)"
    "r \<noteq> HasFiles"
  shows "(\<exists>rej. handle E r q rq s = (Err (rejection_response (auth E) rej), s)) \<or> handle E r q rq s = (Panic, s)"
  using assms
  by (cases r) (auto simp: handle_def upload_route_def download_route_def retrieve_route_def
      commit_route_def list_route_def poll_route_def and_then_def)

lemma has_files_keeps:
  "snd (has_files_route E rq s) = s \<and>
   (case fst (has_files_route E rq s) of
      Ok resp \<Rightarrow> resp_status resp = 200 \<and> (\<exists>u. user_from_parts (auth E) (header_text ''Authorization'' rq) = Ok u)
    | Err resp \<Rightarrow> (\<exists>rej. resp = rejection_response (auth E) rej)
    | Panic \<Rightarrow> True)"
  by (auto simp: has_files_route_def plain_user_def and_then_def prog_simps json_response_def split: res.splits)

lemma rejection_status:
  "resp_status (rejection_response e rej) = (case rej of RejectUnauthorized \<Rightarrow> 401 | RejectPaymentRequired \<Rightarrow> 402)"
  by (cases rej) (simp_all add: rejection_response_def)

lemma only_has_files: "route_of p = Some (m, HasFiles) \<Longrightarrow> p = ''/metadata/has_files''"
  by (auto simp: route_of_def split: if_splits)

section \<open>Property\<close>

text \<open>Claim C22.
  A request whose token is missing, does not verify or, under enforcement, has no
  entitlement, changes nothing on the server: no chunk, no record, no registration, whatever
  its route, method and body are. It is answered with a refusal, a missing page or an
  internal error; the one route that still answers it is \<open>has_files\<close>, and only for a token
  that verifies.
\<close>

theorem refused_requests_change_nothing:
  assumes "\<forall>u. snd (entitled_user_from_parts (auth E) (header_text ''Authorization'' rq)) \<noteq> Ok u"
  shows "snd (serve E rq s) = s
    \<and> resp_status (fst (serve E rq s)) \<in> {200, 401, 402, 404, 500}
    \<and> (resp_status (fst (serve E rq s)) = 200 \<longrightarrow>
        fst (split_query (req_url rq)) = ''/metadata/has_files'' \<and>
        (\<exists>u. user_from_parts (auth E) (header_text ''Authorization'' rq) = Ok u))"
proof -
  obtain p q where pq: "split_query (req_url rq) = (p, q)" by (cases "split_query (req_url rq)")
  have miss: "resp_status (plain_response n) = n" for n by (simp add: plain_response_def)
  show ?thesis
  proof (cases "\<exists>r. route_of p = Some (req_method rq, r)")
    case False
    with pq have "serve E rq s = (default_error_pages (plain_response 404), s)"
      by (auto simp: serve_def split: option.splits prod.splits)
    with miss show ?thesis by simp
  next
    case True
    then obtain r where r: "route_of p = Some (req_method rq, r)" by blast
    show ?thesis
    proof (cases "r = HasFiles")
      case False
      from refused_routes [OF entitled_refused [OF assms, of s] False, of q]
      show ?thesis
        using pq r miss by (auto simp: serve_def rejection_status split: auth_rejection.splits)
    next
      case True
      then have p: "p = ''/metadata/has_files''" using only_has_files r by blast
      have h: "handle E r q rq s = has_files_route E rq s" by (simp add: True handle_def)
      show ?thesis
        using has_files_keeps [of E rq s] pq r p miss
        by (cases "has_files_route E rq s"; cases "fst (has_files_route E rq s)")
           (auto simp: serve_def h rejection_status split: auth_rejection.splits)
    qed
  qed
qed

theorem refused_requests_change_nothing_witness:
  "\<forall>s. snd (serve loop_server \<lparr>req_method = POST, req_url = ''/chunks/upload'',
      req_headers = [(''AUTHORIZATION'', ''Bearer x'')], req_body = [1, 2]\<rparr> s) = s"
proof -
  let ?rq = "\<lparr>req_method = POST, req_url = ''/chunks/upload'', req_headers = [(''AUTHORIZATION'', ''Bearer x'')],
      req_body = [1, 2]\<rparr>"
  have "snd (entitled_user_from_parts (auth loop_server) (header_text ''Authorization'' ?rq)) =
      Err RejectUnauthorized" by code_simp
  then show ?thesis using refused_requests_change_nothing [of loop_server ?rq] by simp
qed

end
