(* ===== verification/StoreProps.thy ===== *)
theory StoreProps
  imports StoreFacts MultipartProps
begin

text \<open>
  The properties of the chunk storage: what is uploaded can be retrieved and downloaded, ids
  are kept apart, ids that are not alphanumeric are not confined to the storage directory,
  a failed write is reported as success, and how the size limit cuts a body.
\<close>

section \<open>Samples\<close>

definition sample_env :: store_env where
  "sample_env =
     \<lparr>upload_dir = Some ''/up'',
      multer = (\<lambda>_ _. [\<lparr>field_name = Some ''ab1'', field_pieces = [[1, 2], [3]], field_complete = True\<rparr>,
                       \<lparr>field_name = Some ''c'', field_pieces = [], field_complete = True\<rparr>]),
      parse_boundary = (\<lambda>_. Some ''b''), form_decode = (\<lambda>_. None),
      write_fails = (\<lambda>_ _. False)\<rparr>"

definition empty_store :: world where
  "empty_store = \<lparr>files = [([RootDir], Dir)], dir_meta = (\<lambda>_. (0, Timestamp 0 0)), clock = Timestamp 2 0\<rparr>"

lemma empty_store_node: "node_at empty_store p = (if p = [RootDir] then Some Dir else None)"
  by (simp add: node_at_def empty_store_def)

lemma store_ok_empty: "store_ok (Some ''/up'') empty_store"
proof -
  have r: "store_root (Some ''/up'') = [RootDir, Normal ''up'']" by code_simp
  have "wf_world empty_store" by (auto simp: wf_world_def empty_store_node dir_at_def)
  moreover have "writable empty_store (stored_at (Some ''/up'') i)" for i
    by (auto simp: writable_def makeable_def empty_store_node) (simp add: stored_at_def r)
  ultimately show ?thesis by (simp add: store_ok_def)
qed

section \<open>Properties\<close>

text \<open>Claim C16.
  Uploading a batch of fields with alphanumeric names, each read to its end and written
  without a fault: the handler succeeds, the storage directory stays one where every id can
  be stored, each uploaded id is then present and is retrieved with exactly the bytes of its
  (last) field, and every other alphanumeric id is retrieved as before.
\<close>

theorem upload_then_retrieve:
  assumes "prefix MULTIPART_FORM_DATA content_type" "parse_boundary x content_type = Some b"
    and "store_ok (upload_dir x) w"
    and "\<forall>f \<in> set (multer x b (capped_data_stream DATA_FORM_LIMIT 0 body)). good_field x f"
  shows "\<exists>w'. upload_chunks x content_type body w = (Ok (), w') \<and> store_ok (upload_dir x) w'
    \<and> (\<forall>i. alnum i \<longrightarrow>
        (case uploaded (multer x b (capped_data_stream DATA_FORM_LIMIT 0 body)) i of
           Some content \<Rightarrow>
             is_present (upload_dir x) i w' = (Ok True :: (chunk_error, bool) res)
             \<and> retrieve x i w' = Ok \<lparr>resp_status = 200,
                 resp_content_type = Some ''text/plain; charset=utf-8'', resp_body = [Data content]\<rparr>
         | None \<Rightarrow> content_at w' (stored_at (upload_dir x) i) = content_at w (stored_at (upload_dir x) i)))"
proof -
  let ?d = "upload_dir x" and ?fs = "multer x b (capped_data_stream DATA_FORM_LIMIT 0 body)"
  from stored_batch [OF assms(3,4)] obtain w' where w':
    "for_each (store_field x) ?fs w = (Ok (), w')" "store_ok ?d w'"
    "\<forall>i. content_at w' (stored_at ?d i) =
      (case uploaded ?fs i of Some b \<Rightarrow> Some b | None \<Rightarrow> content_at w (stored_at ?d i))" by blast
  have "is_present ?d i w' = (Ok True :: (chunk_error, bool) res) \<and>
      retrieve x i w' = Ok \<lparr>resp_status = 200,
        resp_content_type = Some ''text/plain; charset=utf-8'', resp_body = [Data content]\<rparr>"
    if i: "alnum i" and up: "uploaded ?fs i = Some content" for i content
  proof -
    from w'(3) up have "content_at w' (stored_at ?d i) = Some content" by simp
    then obtain t where t: "node_at w' (stored_at ?d i) = Some (File content t)"
      by (auto dest: content_at_SomeD)
    have "i \<noteq> []" "list_all is_ascii_alphanumeric i" using i by (simp_all add: alnum_def)
    with t show ?thesis
      by (simp add: is_present_def retrieve_def from_param_def file_path_alnum [OF i] exists_path_def
          open_file_def reader_stream_def)
  qed
  with w' show ?thesis
    using assms(1,2) by (auto simp: upload_chunks_def split: option.splits)
qed

theorem upload_then_retrieve_witness:
  "\<exists>w'. upload_chunks sample_env ''multipart/form-data; boundary=b'' [] empty_store = (Ok (), w')
    \<and> retrieve sample_env ''ab1'' w' = Ok \<lparr>resp_status = 200,
        resp_content_type = Some ''text/plain; charset=utf-8'', resp_body = [Data [1, 2, 3]]\<rparr>"
proof -
  have 1: "prefix MULTIPART_FORM_DATA ''multipart/form-data; boundary=b''" by code_simp
  have 2: "parse_boundary sample_env ''multipart/form-data; boundary=b'' = Some ''b''"
    by (simp add: sample_env_def)
  have 3: "store_ok (upload_dir sample_env) empty_store"
    using store_ok_empty by (simp add: sample_env_def)
  have al: "alnum ''ab1''" "alnum ''c''" by code_simp+
  then have 4: "\<forall>f \<in> set (multer sample_env ''b'' (capped_data_stream DATA_FORM_LIMIT 0 [])).
      good_field sample_env f"
    by (auto simp: sample_env_def good_field_def)
  let ?r = "Ok \<lparr>resp_status = 200, resp_content_type = Some ''text/plain; charset=utf-8'',
      resp_body = [Data [1, 2, 3]]\<rparr> :: (chunk_error, response) res"
  have u: "uploaded (multer sample_env ''b'' (capped_data_stream DATA_FORM_LIMIT 0 [])) ''ab1'' =
      Some [1, 2, 3]" by (simp add: uploaded_def sample_env_def)
  obtain w' where w': "upload_chunks sample_env ''multipart/form-data; boundary=b'' [] empty_store = (Ok (), w')"
    and each: "\<forall>i. alnum i \<longrightarrow>
        (case uploaded (multer sample_env ''b'' (capped_data_stream DATA_FORM_LIMIT 0 [])) i of
           Some content \<Rightarrow>
             is_present (upload_dir sample_env) i w' = (Ok True :: (chunk_error, bool) res)
             \<and> retrieve sample_env i w' = Ok \<lparr>resp_status = 200,
                 resp_content_type = Some ''text/plain; charset=utf-8'', resp_body = [Data content]\<rparr>
         | None \<Rightarrow> content_at w' (stored_at (upload_dir sample_env) i) =
             content_at empty_store (stored_at (upload_dir sample_env) i))"
    using upload_then_retrieve [OF 1 2 3 4] by blast
  from each [rule_format, OF al(1)] have "retrieve sample_env ''ab1'' w' = ?r" by (simp only: u option.case)
  with w' show ?thesis by blast
qed

text \<open>
  Alphanumeric ids (all ids the client computes are) never panic, are stored strictly below
  the upload directory, two different ids never share a file, and no id's file stands where
  another id needs a directory.
\<close>

theorem ids_stored_apart:
  assumes "alnum i" "alnum j"
  shows "\<exists>p q. file_path d i = (Ok p :: (chunk_error, pathbuf) res)
    \<and> file_path d j = (Ok q :: (chunk_error, pathbuf) res)
    \<and> strict_prefix (store_root d) p \<and> (p = q \<longleftrightarrow> i = j) \<and> (prefix p q \<longrightarrow> i = j)"
proof (intro exI conjI)
  show "file_path d i = (Ok (stored_at d i) :: (chunk_error, pathbuf) res)"
    "file_path d j = (Ok (stored_at d j) :: (chunk_error, pathbuf) res)"
    using assms by (simp_all add: file_path_alnum)
  show "strict_prefix (store_root d) (stored_at d i)" by (simp add: stored_at_def strict_prefix_def)
qed (auto dest: stored_at_prefix)

theorem ids_stored_apart_witness:
  "\<exists>p. file_path None ''ab1'' = (Ok p :: (chunk_error, pathbuf) res)
    \<and> strict_prefix (store_root None) p"
proof -
  have "alnum ''ab1''" by code_simp
  from ids_stored_apart [OF this this, of None] show ?thesis by blast
qed

text \<open>Claim C29.
  Ids are not validated on upload and batch download: an id that is an absolute path names
  that very path, whatever the upload directory is; so an upload with such a field name
  creates or overwrites a file anywhere the server may write. (An id starting with a
  character of more than one byte panics instead.)
\<close>

theorem absolute_id_escapes:
  assumes "field_name f = Some (SLASH # i)" "i \<noteq> []" "\<not> is_cont (of_char (hd i))"
    and "length i = 1 \<or> \<not> is_cont (of_char (i ! 1))"
    and "writable w (components (SLASH # i))" "field_complete f"
    and "\<And>n. \<not> write_fails x (components (SLASH # i)) n"
  shows "\<exists>w'. store_field x f w = (Ok (), w')
    \<and> content_at w' (components (SLASH # i)) = Some (concat (field_pieces f))"
proof -
  let ?p = "components (SLASH # i)"
  have "char_boundary (SLASH # i) 1" "char_boundary (SLASH # i) 2"
    using assms(2-4) by (cases i; cases "tl i"; auto simp: char_boundary_def)+
  moreover have "\<not> length (SLASH # i) < 2" using assms(2) by (cases i) auto
  moreover have "push_path base (SLASH # i) = ?p" for base
    by (simp add: push_path_def is_absolute_def)
  ultimately have fp: "file_path (upload_dir x) (SLASH # i) = Ok ?p"
    by (simp add: file_path_def Let_def)
  have "write_pieces x ?p (field_pieces f) 0 [] True (after_dirs ?p w) =
      write_file ?p (concat (field_pieces f)) (after_dirs ?p w)"
    using write_pieces_ok [OF assms(7), of "field_pieces f" 0 "[]" "after_dirs ?p w"]
    by (simp add: after_dirs_write [OF assms(5)])
  then have "store_field x f w = (Ok (), write_file ?p (concat (field_pieces f)) (after_dirs ?p w))"
    using assms(1,6)
    by (simp add: store_field_def fp lift_res_def create_then_write [OF assms(5)]
        and_then_Pair and_then_def [of "\<lambda>s. (Ok ?p, s)"])
  then show ?thesis by (simp add: saved_content [OF assms(5)])
qed

theorem absolute_id_escapes_witness:
  "\<exists>w'. store_field sample_env
      \<lparr>field_name = Some ''/etc/x'', field_pieces = [[7]], field_complete = True\<rparr> empty_store = (Ok (), w')
    \<and> content_at w' [RootDir, Normal ''etc'', Normal ''x''] = Some [7]"
proof -
  have p: "components (SLASH # ''etc/x'') = [RootDir, Normal ''etc'', Normal ''x'']" by code_simp
  have s: "SLASH # ''etc/x'' = ''/etc/x''" by (simp add: SLASH_def)
  have c: "\<not> is_cont (of_char (hd ''etc/x''))" "\<not> is_cont (of_char (''etc/x'' ! 1))" by code_simp+
  have w: "writable empty_store (components (SLASH # ''etc/x''))"
    unfolding p by (auto simp: writable_def makeable_def empty_store_node)
  show ?thesis
    using absolute_id_escapes [of "\<lparr>field_name = Some ''/etc/x'', field_pieces = [[7]],
        field_complete = True\<rparr>" "''etc/x''" empty_store sample_env] c w p
    by (simp add: s) (simp add: sample_env_def)
qed

text \<open>
  When writing one of the pieces of a field fails, the handler removes the file, goes on as
  if nothing had happened and answers success, although the chunk is not stored.
\<close>

theorem failed_write_reports_success:
  assumes "field_name f = Some i" "alnum i" "field_complete f" "field_pieces f = b # bs"
    and "write_fails x (stored_at (upload_dir x) i) 0"
    and "writable w (stored_at (upload_dir x) i)"
  shows "\<exists>w'. store_field x f w = (Ok (), w')
    \<and> is_present (upload_dir x) i w' = (Ok False :: (chunk_error, bool) res)"
proof -
  let ?p = "stored_at (upload_dir x) i"
  have "node_at (after_dirs ?p w) ?p = Some (File [] (clock w))"
    by (simp add: after_dirs_facts(2) [OF assms(6)])
  then have gone: "snd (remove_file ?p (after_dirs ?p w)) = drop_node ?p (after_dirs ?p w)"
    by (simp add: remove_file_def)
  have "i \<noteq> []" using assms(2) by (simp add: alnum_def)
  then have "store_field x f w = (Ok (), drop_node ?p (after_dirs ?p w))"
    using assms(1,3,4,5)
    by (simp add: store_field_def file_path_alnum [OF assms(2)] lift_res_def
        create_then_write [OF assms(6)] and_then_def [of "\<lambda>s. (Ok ?p, s)"] gone write_pieces_unlinked)
  with \<open>i \<noteq> []\<close> show ?thesis
    by (simp add: is_present_def file_path_alnum [OF assms(2)] exists_path_def)
qed

theorem failed_write_reports_success_witness:
  "\<exists>w'. store_field (sample_env\<lparr>write_fails := \<lambda>_ n. n = 0\<rparr>)
      \<lparr>field_name = Some ''ab1'', field_pieces = [[7]], field_complete = True\<rparr> empty_store = (Ok (), w')
    \<and> is_present (Some ''/up'') ''ab1'' w' = (Ok False :: (chunk_error, bool) res)"
proof -
  have a: "alnum ''ab1''" by code_simp
  have d: "upload_dir (sample_env\<lparr>write_fails := \<lambda>_ n. n = 0\<rparr>) = Some ''/up''"
    by (simp add: sample_env_def)
  have "writable empty_store (stored_at (Some ''/up'') ''ab1'')"
    using store_ok_empty a by (simp add: store_ok_def)
  then show ?thesis
    using failed_write_reports_success [of "\<lparr>field_name = Some ''ab1'', field_pieces = [[7]],
        field_complete = True\<rparr>" "''ab1''" "[7]" "[]" "sample_env\<lparr>write_fails := \<lambda>_ n. n = 0\<rparr>" empty_store] a
    by (simp add: d)
qed

text \<open>
  The cap on an upload body: whatever pieces it arrives in, the capped stream carries exactly
  the first bytes of the body up to the limit and ends without an error there; a failure of
  the connection is passed on only when it happens before the limit is reached.
\<close>

theorem capped_stream_truncates:
  assumes "0 < limit"
  shows "whole_body (capped_data_stream limit 0 (map Data bs)) = Ok (take limit (concat bs))
    \<and> whole_body (capped_data_stream limit 0 (map Data bs @ Broken e # r)) =
        (if limit \<le> length (concat bs) then Ok (take limit (concat bs)) else Err e)"
proof -
  have "whole_body (capped_data_stream limit n (map Data bs)) = Ok (take (limit - n) (concat bs))
    \<and> whole_body (capped_data_stream limit n (map Data bs @ Broken e # r)) =
        (if limit - n \<le> length (concat bs) then Ok (take (limit - n) (concat bs)) else Err e)"
    if "n < limit" for n
    using that
  proof (induction bs arbitrary: n)
    case (Cons b bs)
    show ?case
    proof (cases "limit - n \<le> length b")
      case False
      then have "n + length b < limit" using Cons.prems by linarith
      from Cons.IH [OF this] False show ?thesis by (simp add: Let_def) linarith
    qed (simp add: Let_def)
  qed simp
  from this [OF assms] show ?thesis by simp
qed

theorem capped_stream_truncates_witness:
  "whole_body (capped_data_stream DATA_FORM_LIMIT 0 (map Data [[1], [2, 3]])) = Ok [1, 2, 3]"
proof -
  have "0 < DATA_FORM_LIMIT" "3 \<le> DATA_FORM_LIMIT" by (simp_all add: DATA_FORM_LIMIT_def)
  with capped_stream_truncates [OF this(1), of "[[1], [2, 3]]"] show ?thesis by simp
qed

end
