(* ===== verification/HazardProps.thy ===== *)
theory HazardProps
  imports SyncerProps IndexerProps MetadataProps StoreProps
begin

text \<open>
  Where the parts of the program do not fit together: what the client sends against the
  limit of the server, the id of an own commit against the ids still to be downloaded, and
  what the indexer takes for a file against what the chunker can read.
\<close>

section \<open>The size of a batch\<close>

lemma length_upload_part:
  "length (upload_part boundary (k, d)) = 89 + length boundary + length k + length d"
  by (simp add: upload_part_def CRLF_def QUOTE_def)

lemma length_upload_body:
  "length (upload_body boundary chunks) =
     (\<Sum>(k, d) \<leftarrow> chunks. 89 + length boundary + length k + length d) + length boundary + 6"
proof -
  have "length (concat (map (upload_part boundary) chunks)) =
      (\<Sum>(k, d) \<leftarrow> chunks. 89 + length boundary + length k + length d)"
    by (induction chunks) (auto simp: length_upload_part)
  then show ?thesis by (simp add: upload_body_def CRLF_def)
qed

lemma upload_body_at_least: "length chunks * 89 \<le> length (upload_body boundary chunks)"
proof -
  have "length chunks * 89 \<le> (\<Sum>(k, d) \<leftarrow> chunks. 89 + length boundary + length k + length d)"
    by (induction chunks) auto
  then show ?thesis by (simp add: length_upload_body)
qed

text \<open>A payload within the limit never closes a batch.\<close>

lemma queue_within_limit:
  assumes "answers s ks ds" "queue_ok q" "payload (current_batch q) + payload (zip ks ds) \<le> MAX_UPLOAD_SIZE"
  shows "queue_chunks ks q s =
    (Ok \<lparr>closed = closed q, current_batch = current_batch q @ zip ks ds,
         batch_size = batch_size q + payload (zip ks ds)\<rparr>, s)"
  using assms
proof (induction ks q arbitrary: s ds rule: queue_chunks.induct)
  case (1 q)
  then show ?case by (simp add: ret_apply answers_def)
next
  case (2 k ks q)
  then obtain d ds' where ds: "ds = d # ds'" and d: "cache_get (cache s) k = Ok d"
    and rest: "answers s ks ds'" by (auto simp: answers_def list_all2_Cons1)
  let ?q = "\<lparr>closed = closed q, current_batch = current_batch q @ [(k, d)], batch_size = batch_size q + length d\<rparr>"
  have push: "push_chunk k d q = ?q"
    using "2.prems"(2,3) ds by (simp add: push_chunk_def queue_ok_def)
  have ok: "queue_ok (push_chunk k d q)" using "2.prems"(2) by (rule queue_ok_push)
  have "payload (current_batch (push_chunk k d q)) + payload (zip ks ds') \<le> MAX_UPLOAD_SIZE"
    using "2.prems"(3) ds push by simp
  from "2.IH" [OF rest ok this] have "queue_chunks ks ?q s =
    (Ok \<lparr>closed = closed q, current_batch = current_batch q @ (k, d) # zip ks ds',
         batch_size = batch_size q + length d + payload (zip ks ds')\<rparr>, s)"
    using push by simp
  then show ?case using d ds push by (simp add: read_chunk_def and_then_def add.assoc)
qed

text \<open>Claim C40.
  The batches of an upload are cut by the size of their chunks alone, while every chunk is
  sent with 89 bytes of headers besides its id and the boundary: when a server asks for many
  short chunks (the lines of a cookbook), more than 58909 of them, all of it goes out as one
  batch although its body is over the five megabytes the server reads, and the server's
  stream ends before the end of the body.
\<close>

theorem batch_can_exceed_server_limit:
  assumes "answers s ks ds" "payload (zip ks ds) \<le> MAX_UPLOAD_SIZE" "58909 < length ks"
  shows "\<exists>q. queue_chunks ks \<lparr>closed = [], current_batch = [], batch_size = 0\<rparr> s = (Ok q, s)
    \<and> batches q = [zip ks ds]
    \<and> DATA_FORM_LIMIT < length (upload_body boundary (zip ks ds))
    \<and> capped_data_stream DATA_FORM_LIMIT 0 [Data (upload_body boundary (zip ks ds))]
        = [Data (take DATA_FORM_LIMIT (upload_body boundary (zip ks ds)))]"
proof -
  let ?q0 = "\<lparr>closed = [], current_batch = [], batch_size = 0\<rparr>"
  have "queue_ok ?q0" by (simp add: queue_ok_def)
  from queue_within_limit [OF assms(1) this] assms(2)
  have run: "queue_chunks ks ?q0 s =
      (Ok \<lparr>closed = [], current_batch = zip ks ds, batch_size = payload (zip ks ds)\<rparr>, s)" by simp
  have "length (zip ks ds) = length ks"
    using assms(1) by (simp add: answers_def list_all2_lengthD)
  then have "DATA_FORM_LIMIT < length (zip ks ds) * 89"
    using assms(3) by (simp add: DATA_FORM_LIMIT_def)
  then have "DATA_FORM_LIMIT < length (upload_body boundary (zip ks ds))"
    using upload_body_at_least [of "zip ks ds" boundary] by linarith
  with run show ?thesis by (simp add: batches_def)
qed

theorem batch_can_exceed_server_limit_witness:
  "\<exists>q. queue_chunks (replicate 60000 ''0162000000'') \<lparr>closed = [], current_batch = [], batch_size = 0\<rparr>
      hashed_client = (Ok q, hashed_client)
    \<and> (\<exists>b. batches q = [b] \<and> DATA_FORM_LIMIT < length (upload_body ''b'' b))"
proof -
  let ?ks = "replicate 60000 ''0162000000''" and ?ds = "replicate 60000 [98]"
  have "cache_get (cache hashed_client) ''0162000000'' = Ok [98]" by code_simp
  then have "answers hashed_client ?ks ?ds" by (simp add: answers_def list_all2_conv_all_nth)
  moreover have "payload (zip ?ks ?ds) = 60000" by (simp add: payload_def zip_replicate sum_list_replicate)
  then have "payload (zip ?ks ?ds) \<le> MAX_UPLOAD_SIZE" by (simp add: MAX_UPLOAD_SIZE_def)
  moreover have "58909 < length ?ks" by simp
  ultimately show ?thesis using batch_can_exceed_server_limit by blast
qed

section \<open>Own commits and remote changes\<close>

text \<open>Claim C39.
  A client that has not yet downloaded a change of another client, and that the server would
  list to it now, commits a file of its own: the server gives the commit a higher id, the
  client records it on its row, and from then on asks only for what comes after it. The other
  change is still the server's current record of its path, but no listing the client asks
  for will contain it.
\<close>

theorem own_upload_hides_remote_change:
  assumes "wf_rows (rows s)" "\<And>xs. set (row_order m xs) = set xs"
    and "server_view user (rows s) p = Some r" "latest_local e c < sr_id r"
    and "commit_handler x m user uid pl s = (Ok (CommitSuccess j), s')"
    and "rows s' \<noteq> rows s" "cp_path pl \<noteq> p"
    and "f \<in> set (records c)" "namespace_id f = namespace e"
  shows "r \<in> set (list_handler m user (latest_local e c) s)
    \<and> server_view user (rows s') p = Some r
    \<and> (let c' = c\<lparr>records := update_jid f j (records c)\<rparr> in
       j \<le> latest_local e c' \<and> r \<notin> set (list_handler m user (latest_local e c') s'))"
proof -
  let ?f = "from_payload_and_user_id pl user"
  let ?i = "next_id (gap m) (map sr_id (rows s))"
  from assms(5,6) have new: "j = ?i" "rows s' = rows s @ [inserted_row ?i ?f]"
    by (auto simp: commit_handler_def insert_new_record_eq Let_def
        split: res.splits if_splits option.splits)
  have above: "sr_id r < j"
    using server_view_SomeD(1) [OF assms(3)] new(1) next_id_above by fastforce
  have wf: "wf_rows (rows s')"
    using assms(1) new next_id_above by (fastforce simp: ids_sorted_def sorted_wrt_append inserted_row_def)
  have view: "server_view user (rows s') p = Some r"
    using assms(3,7) new(2) by (simp add: server_view_def inserted_row_def from_payload_and_user_id_def)
  let ?c = "c\<lparr>records := update_jid f j (records c)\<rparr>"
  have "f\<lparr>jid := Some j\<rparr> \<in> set (update_jid f j (records c))"
    using assms(8) by (force simp: update_jid_def)
  from latest_jid_upper [OF this, of "namespace e" j] assms(9)
  have j: "j \<le> latest_local e ?c" by (auto simp: latest_local_def)
  have "r \<in> set (list_handler m user (latest_local e c) s)"
    unfolding list_handler_def set_db_list [OF assms(1,2)]
    using assms(3,4) server_view_SomeD(2) [OF assms(3)] by simp
  moreover have "r \<notin> set (list_handler m user (latest_local e ?c) s')"
    unfolding list_handler_def set_db_list [OF wf assms(2)] using j above by simp
  ultimately show ?thesis using view j by (simp add: Let_def)
qed

theorem own_upload_hides_remote_change_witness:
  "\<exists>r (s' :: server) (c' :: client). server_view 1 (rows s') ''a.cook'' = Some r
    \<and> r \<in> set (list_handler sample_meta 1 (latest_local sample_sync pending_client) sample_server)
    \<and> r \<notin> set (list_handler sample_meta 1 (latest_local sample_sync c') s')"
proof -
  let ?pl = "\<lparr>cp_path = ''b.cook'', cp_deleted = True, cp_chunk_ids = []\<rparr>"
  let ?run = "commit_handler sample_upload_env sample_meta 1 ''u1'' ?pl sample_server"
  let ?r = "hd (rows sample_server)"
  have ev: "fst ?run = Ok (CommitSuccess 2)" "length (rows (snd ?run)) = 2" "length (rows sample_server) = 1"
    "server_view 1 (rows sample_server) ''a.cook'' = Some ?r"
    "latest_local sample_sync pending_client < sr_id ?r"
    "namespace_id (hd (records pending_client)) = namespace sample_sync" "records pending_client \<noteq> []"
    by code_simp+
  obtain s' where s': "?run = (Ok (CommitSuccess 2), s')" using ev(1) by (metis prod.collapse)
  have grew: "rows s' \<noteq> rows sample_server"
  proof
    assume "rows s' = rows sample_server"
    with s' ev(2,3) show False by simp
  qed
  have order: "set (row_order sample_meta xs) = set xs" for xs by (simp add: sample_meta_def)
  have other: "cp_path ?pl \<noteq> ''a.cook''" by simp
  have f: "hd (records pending_client) \<in> set (records pending_client)" using ev(7) by simp
  from own_upload_hides_remote_change [OF wf_sample_server order ev(4,5) s' grew other f ev(6)]
  show ?thesis unfolding Let_def by blast
qed

section \<open>Directories with the name of a file\<close>

text \<open>A pass that succeeds has hashed every pending row that is not a deletion.\<close>

lemma upload_file_hashed:
  assumes "upload_file e f q (c, v) = (Ok y, s')" "\<not> deleted f"
  shows "\<exists>ids. fst (hashify (ext e) (path f) c) = Ok ids"
  using assms by (auto simp: upload_file_def and_then_Ok_iff on_client_Ok_iff)

lemma upload_files_hashed:
  assumes "digest_ok (ext e)" "upload_files e fs q ac (c, v) = (Ok y, s')"
    "f \<in> set fs" "\<not> deleted f"
  shows "\<exists>c1 ids. tree_kept c c1 \<and> fst (hashify (ext e) (path f) c1) = Ok ids"
  using assms(2,3)
proof (induction fs arbitrary: q ac c v)
  case (Cons g fs)
  from Cons.prems(1) obtain q1 ok c1 v1 where
    s1: "upload_file e g q (c, v) = (Ok (q1, ok), (c1, v1))"
    and s2: "upload_files e fs q1 (ac \<and> ok) (c1, v1) = (Ok y, s')"
    unfolding upload_files_Cons by (auto elim!: and_then_OkE)
  have kept: "tree_kept c c1" using upload_file_spec [OF assms(1) s1] by blast
  show ?case
  proof (cases "f = g")
    case True
    with upload_file_hashed [OF s1] assms(4) show ?thesis using tree_kept_refl by blast
  next
    case False
    with Cons.prems(2) have "f \<in> set fs" by simp
    from Cons.IH [OF s2 this] kept tree_kept_trans show ?thesis by blast
  qed
qed simp

text \<open>A directory below the storage root whose name has a listed ending (\<open>notes.md\<close>) is taken
  for a file by the indexer: it gets a record waiting for upload. Hashing it fails, and from
  then on no upload pass succeeds, whatever the server answers.
\<close>

theorem directory_blocks_uploads:
  assumes "walker_ok w" "wf_table (records c)" "storage_ok w (base_path c) c" "digest_ok (ext e)"
    and "indexed w (base_path c) c p" "node_at c (full_path c p) = Some Dir"
    and "listed p" "registry_view (namespace e) (records c) p = None"
    and "check_index_once w g (namespace e) c = (res, c1)"
  shows "(\<exists>r \<in> set (updated_locally (namespace e) (records c1)). path r = p \<and> \<not> deleted r)
    \<and> hashify (ext e) p c1 = (Err (IoError p IsADirectory), c1)
    \<and> (\<forall>v b s'. check_upload_once e (c1, v) \<noteq> (Ok b, s'))"
proof -
  from check_index_once_spec [OF assms(1-3), of g "namespace e"] assms(9)
  have c1: "\<exists>rows. c1 = c\<lparr>records := rows\<rparr>" and ref: "refreshed w (namespace e) c (records c1)" by auto
  have disk: "disk_view w (base_path c) (namespace e) c p \<noteq> None"
    using assms(5) by (simp add: disk_view_def)
  then have "out_of_date w (namespace e) c p"
    using assms(8) by (auto simp: out_of_date_def changed_def live_view_def)
  from refreshed_changed [OF ref this] disk obtain r where
    r: "registry_view (namespace e) (records c1) p = Some r" "jid r = None" "\<not> deleted r"
    using disk_view_SomeD [of w "base_path c" "namespace e" c p]
    by (auto simp: created_row_def split: option.splits)
  have path: "path r = p" using view_SomeD(2) [OF r(1)] .
  have pending: "r \<in> set (updated_locally (namespace e) (records c1))"
    using r path set_updated_locally [OF refreshed_wf [OF ref]] by simp
  have dir: "node_at c2 (full_path c2 p) = Some Dir" if "tree_kept c1 c2" for c2
    using that c1 assms(6) tree_kept_node [of c1 c2] by (auto simp: full_path_def)
  have fails: "hashify (ext e) p c2 = (Err (IoError p IsADirectory), c2)" if "tree_kept c1 c2" for c2
    using assms(7) dir [OF that] by (rule hashify_directory)
  have "check_upload_once e (c1, v) \<noteq> (Ok b, s')" for v b s'
  proof
    assume "check_upload_once e (c1, v) = (Ok b, s')"
    then obtain y s2 where "upload_files e (updated_locally (namespace e) (records c1))
        \<lparr>closed = [], current_batch = [], batch_size = 0\<rparr> True (c1, v) = (Ok y, s2)"
      by (auto simp: check_upload_once_def Let_def elim!: and_then_OkE)
    from upload_files_hashed [OF assms(4) this pending r(3)] obtain c2 ids where
      "tree_kept c1 c2" "fst (hashify (ext e) p c2) = Ok ids" using path by auto
    with fails [of c2] show False by simp
  qed
  with pending path r(3) fails [OF tree_kept_refl] show ?thesis by blast
qed

text \<open>The sample directory with a directory that is named like a file.\<close>

definition notes_client :: client where
  "notes_client = sample_client
     \<lparr>files := files sample_client @ [(base_path sample_client @ [Normal ''n.md''], Dir)]\<rparr>"

theorem directory_blocks_uploads_witness:
  "\<exists>(c1 :: client). \<forall>v b s'. check_upload_once sample_sync (c1, v) \<noteq> (Ok b, s')"
proof -
  let ?b = "base_path notes_client"
  have "\<not> filter_eligible sample_walker ?b" by code_simp
  moreover have "\<forall>(p, n) \<in> set (files notes_client). strict_prefix ?b p \<longrightarrow>
      plain_path (path_string (drop (length ?b) p)) \<and>
      p = push_path ?b (path_string (drop (length ?b) p)) \<and>
      utf8_ok (to_bytes (path_string (drop (length ?b) p))) \<and>
      utf8_ok (to_bytes (normal_name (last p))) \<and>
      (case n of File b t \<Rightarrow> length b \<le> 3 | Dir \<Rightarrow> fst (dir_meta notes_client p) \<le> 3)"
    by code_simp
  moreover have "3 \<le> I64_MAX" by (simp add: I64_MAX_def)
  ultimately have st: "storage_ok sample_walker ?b notes_client"
    unfolding storage_ok_def by (fastforce split: node.splits)
  have wf: "wf_table (records notes_client)" using wf_sample_client by (simp add: notes_client_def)
  have ix: "indexed sample_walker ?b notes_client ''n.md''" by code_simp
  have ns: "namespace sample_sync = 1" "ext sample_sync = sample_externals"
    by (simp_all add: sample_sync_def)
  have ev: "node_at notes_client (full_path notes_client ''n.md'') = Some Dir" "listed ''n.md''"
    "registry_view (namespace sample_sync) (records notes_client) ''n.md'' = None"
    unfolding ns by code_simp+
  have dg: "digest_ok (ext sample_sync)" using ns digest_ok_sample by simp
  obtain res c1 where run: "check_index_once sample_walker (\<lambda>_. 0) (namespace sample_sync) notes_client = (res, c1)"
    by (metis prod.collapse)
  from directory_blocks_uploads [OF walker_ok_sample wf st dg ix ev run] show ?thesis by blast
qed

end
