(* ===== verification/ChunkerProps.thy ===== *)
theory ChunkerProps
  imports Samples
begin

text \<open>
  The properties of the chunker: cutting a file and writing it back, what a cache that
  evicts can and cannot spoil, the truncation on a missing chunk, and the clean-up of a
  delete. Each is followed by a closed instance on the sample directory.
\<close>

text \<open>Claim C18.
  For a file of a listed format, \<open>hashify\<close> returns the ids of a list of non-empty
  chunks whose concatenation is exactly the file's content, whatever lengths the reads of
  the file return and whatever the cache evicts; chunks of a text file are lines (a newline
  can only stand at the end), chunks of a binary file are at most one megabyte; and nothing
  but the cache changes.
\<close>

theorem hashify_cuts_file:
  assumes "digest_ok x" "listed path" "content_at s (full_path s path) = Some b"
  shows "\<exists>chunks s'. hashify x path s = (Ok (map (chunk_id x (hash_size_of path)) chunks), s')
    \<and> concat chunks = b \<and> cache_only s s'
    \<and> list_all (\<lambda>c. c \<noteq> [] \<and>
          (if is_text (components path) then NEWLINE \<notin> set (butlast c)
           else length c \<le> BINARY_CHUNK_SIZE)) chunks"
proof -
  let ?chunks = "chunks_of x (inserts s) path b"
  have "list_all (\<lambda>c. c \<noteq> [] \<and>
          (if is_text (components path) then NEWLINE \<notin> set (butlast c)
           else length c \<le> BINARY_CHUNK_SIZE)) ?chunks"
    using text_chunks_shape binary_chunks_shape by (auto simp: list_all_iff chunks_of_def)
  then show ?thesis
    using hashify_eq [OF assms] by (intro exI [of _ ?chunks] exI) (auto simp del: fun_upd_apply)
qed

theorem hashify_cuts_file_witness:
  "\<exists>chunks s'. hashify sample_externals ''d/a.cook'' sample_chunker =
      (Ok (map (chunk_id sample_externals 10) chunks), s')
    \<and> concat chunks = [97, 10, 98] \<and> cache_only sample_chunker s'
    \<and> list_all (\<lambda>c. c \<noteq> [] \<and>
          (if is_text (components ''d/a.cook'') then NEWLINE \<notin> set (butlast c)
           else length c \<le> BINARY_CHUNK_SIZE)) chunks"
  using hashify_cuts_file [OF digest_ok_sample listed_sample content_sample]
  by (simp only: hash_size_sample)

text \<open>Claim C8.
  With a cache that evicts nothing, and when no two different chunks of the file share an
  id, hashing a file and then saving the returned ids at any writable path produces a file
  with exactly the same content there, and changes the content of no other file.
\<close>

theorem hashify_save_roundtrip:
  assumes "digest_ok x" "listed path" "content_at s (full_path s path) = Some b"
    and "inj_on (chunk_id x (hash_size_of path)) (set (chunks_of x (inserts s) path b))"
    and "writable s (full_path s dest)"
  shows "\<exists>hs s1 s2. hashify (no_eviction x) path s = (Ok hs, s1)
    \<and> save (no_eviction x) dest hs s1 = (Ok (), s2)
    \<and> content_at s2 (full_path s dest) = Some b
    \<and> (\<forall>p. p \<noteq> full_path s dest \<longrightarrow> content_at s2 p = content_at s p)"
proof -
  let ?x = "no_eviction x" and ?n = "hash_size_of path" and ?dest = "full_path s dest"
  let ?cs = "chunks_of ?x (inserts s) path b"
  let ?s1 = "cc.store_all ?x (named ?x ?n ?cs) s"
  have same: "?cs = chunks_of x (inserts s) path b" "chunk_id ?x = chunk_id x" "digest_ok ?x"
    using assms(1) binary_chunks_cong [of ?x x]
    by (auto simp: chunks_of_def chunk_id_def digest_ok_def fun_eq_iff)
  have h: "hashify ?x path s = (Ok (map (chunk_id x ?n) ?cs), ?s1)"
    using hashify_eq [OF same(3) assms(2,3)] same(2) by simp
  have get: "cache_get (cache ?s1) (chunk_id x ?n c) = Ok c" if c: "c \<in> set ?cs" for c
  proof -
    have mem: "(chunk_id x ?n c, c) \<in> set (named ?x ?n ?cs)"
      using c same(2) by (auto simp: named_def)
    moreover have "chunk_id x ?n c \<noteq> []"
      using length_chunk_id [OF assms(1) hash_size_pos(2), of path c] hash_size_pos(1) [of path]
      by auto
    moreover have "u = c" if "(chunk_id x ?n c, u) \<in> set (named ?x ?n ?cs)" for u
      using that c assms(4) same(1,2) by (auto simp: named_def dest: inj_onD)
    ultimately show ?thesis by (rule rc.get_stored)
  qed
  have "answers ?s1 (map (chunk_id x ?n) ?cs) ?cs"
    using get by (auto simp: answers_def list_all2_conv_all_nth)
  moreover have frame: "cache_only s ?s1" by simp
  have w: "writable ?s1 ?dest" and fp: "full_path ?s1 dest = ?dest"
    using assms(5) by (auto simp: writable_def cache_only_views [OF frame]
        cache_only_node_at [OF frame])
  ultimately have "save ?x dest (map (chunk_id x ?n) ?cs) ?s1 =
    (Ok (), write_file ?dest b (after_dirs ?dest ?s1))"
    using save_ok [of ?s1 dest "map (chunk_id x ?n) ?cs" ?cs ?x] by simp
  with h show ?thesis
    using saved_content [OF w] cache_only_views(1) [OF frame] by fastforce
qed

theorem hashify_save_roundtrip_witness:
  "\<exists>hs s1 s2. hashify sample_externals ''d/a.cook'' sample_chunker = (Ok hs, s1)
    \<and> save sample_externals ''e/b.cook'' hs s1 = (Ok (), s2)
    \<and> content_at s2 (full_path sample_chunker ''e/b.cook'') = Some [97, 10, 98]
    \<and> (\<forall>p. p \<noteq> full_path sample_chunker ''e/b.cook'' \<longrightarrow>
          content_at s2 p = content_at sample_chunker p)"
proof -
  have "inj_on (chunk_id sample_externals 10) {[97, 10], [98]}"
    by (simp add: inj_on_def ids_sample)
  then have inj: "inj_on (chunk_id sample_externals (hash_size_of ''d/a.cook''))
      (set (chunks_of sample_externals (inserts sample_chunker) ''d/a.cook'' [97, 10, 98]))"
    by (simp add: chunks_sample hash_size_sample)
  have "makeable sample_chunker (butlast (full_path sample_chunker ''e/b.cook''))"
    unfolding makeable_code by code_simp
  moreover have "full_path sample_chunker ''e/b.cook'' \<noteq> []
      \<and> last (full_path sample_chunker ''e/b.cook'') \<noteq> RootDir
      \<and> node_at sample_chunker (full_path sample_chunker ''e/b.cook'') \<noteq> Some Dir"
    by code_simp
  ultimately have w: "writable sample_chunker (full_path sample_chunker ''e/b.cook'')"
    by (simp add: writable_def)
  show ?thesis
    using hashify_save_roundtrip [OF digest_ok_sample listed_sample content_sample inj w]
    by simp
qed

definition names_match :: "externals \<Rightarrow> 'z chunker_scheme \<Rightarrow> bool" where
  "names_match x s \<longleftrightarrow> cc.sound (\<lambda>k w. \<exists>n. k = chunk_id x n w) s"

lemma names_match_hashify:
  assumes "digest_ok x" "names_match x s"
  shows "names_match x (snd (hashify x path s))"
proof (cases "listed path \<and> content_at s (full_path s path) \<noteq> None")
  case True
  then obtain b where b: "content_at s (full_path s path) = Some b" by auto
  have "cc.sound (\<lambda>k w. \<exists>n. k = chunk_id x n w) (cc.store_all x (named x m cs) s)" for m cs
    using assms(2) unfolding names_match_def
    by (rule cc.sound_store_all) (auto simp: named_def)
  then show ?thesis
    using hashify_eq [OF assms(1) _ b] True by (simp add: names_match_def)
next
  case False
  then have "snd (hashify x path s) = s"
    by (cases "listed path"; cases "node_at s (full_path s path)")
       (auto simp: hashify_unlisted hashify_missing hashify_directory content_at_def
          split: node.splits)
  with assms(2) show ?thesis by simp
qed

text \<open>
  Whatever the cache evicts: if every cached chunk stands under one of its own truncated
  digests, the same holds after hashing any file, and when a \<open>save\<close> then succeeds, the
  file it wrote is the concatenation of chunks that carry, one by one, the requested ids
  (an empty id contributing nothing). An eviction can make \<open>save\<close> fail, never make it
  write other bytes.
\<close>

theorem evicting_cache_never_mixes_chunks:
  assumes "digest_ok x" "names_match x s" "snd (hashify x path s) = s1"
    and "writable s1 (full_path s1 dest)" "save x dest hs s1 = (Ok (), t)"
  shows "names_match x s1 \<and>
    (\<exists>chunks. content_at t (full_path s1 dest) = Some (concat chunks)
        \<and> list_all2 (\<lambda>h c. h = [] \<and> c = [] \<or> (\<exists>n. h = chunk_id x n c)) hs chunks)"
proof -
  have sound: "names_match x s1" using names_match_hashify [OF assms(1,2)] assms(3) by auto
  from save_OkD [OF assms(4,5)] obtain chunks where c: "answers s1 hs chunks"
    and t: "t = write_file (full_path s1 dest) (concat chunks) (after_dirs (full_path s1 dest) s1)"
    by blast
  have "h = [] \<and> b = [] \<or> (\<exists>n. h = chunk_id x n b)" if "cache_get (cache s1) h = Ok b" for h b
    using that sound by (cases "h = []") (auto simp: names_match_def cc.sound_def cc.get_empty)
  with c have "list_all2 (\<lambda>h c. h = [] \<and> c = [] \<or> (\<exists>n. h = chunk_id x n c)) hs chunks"
    unfolding answers_def by (auto elim!: list_all2_mono)
  then show ?thesis using sound saved_content [OF assms(4)] t by auto
qed

theorem evicting_cache_never_mixes_chunks_witness:
  "\<exists>t chunks. save sample_externals ''e/b.cook'' [''0162000000'', ''026b000000''] sample_hashed
        = (Ok (), t)
    \<and> content_at t (full_path sample_hashed ''e/b.cook'') = Some (concat chunks)
    \<and> list_all2 (\<lambda>h c. h = [] \<and> c = [] \<or> (\<exists>n. h = chunk_id sample_externals n c))
         [''0162000000'', ''026b000000''] chunks"
proof -
  have "names_match sample_externals sample_chunker"
    by (auto simp: names_match_def cc.sound_def cache_get_def sample_chunker_def)
  moreover obtain t where t:
    "save sample_externals ''e/b.cook'' [''0162000000'', ''026b000000''] sample_hashed = (Ok (), t)"
    using save_hashed_ok by (metis prod.collapse)
  ultimately show ?thesis
    using evicting_cache_never_mixes_chunks [OF digest_ok_sample _ refl, of sample_chunker
        "''d/a.cook''" "''e/b.cook''" "[''0162000000'', ''026b000000'']" t] writable_hashed
    unfolding sample_hashed_def by blast
qed

text \<open>When the cache does not have one of the chunks, \<open>save\<close> returns
  \<open>GetFromCacheError\<close>, but only after it has created and truncated the file: what was
  there is gone, and the file holds at most a prefix of the chunks before the missing one.
\<close>

theorem save_missing_chunk_truncates:
  assumes "writable s (full_path s path)" "answers s hs chunks" "h \<noteq> []" "cache s h = None"
  shows "\<exists>t k. save x path (hs @ h # hs') s = (Err GetFromCacheError, t)
    \<and> content_at t (full_path s path) = Some (take k (concat chunks))"
proof -
  let ?p = "full_path s path"
  have "answers (after_dirs ?p s) hs chunks"
    using assms(1,2) by (simp add: answers_after_dirs)
  moreover have "cache_get (cache (after_dirs ?p s)) h = Err GetFromCacheError"
    using assms(3,4) files_onlyD(1) [OF after_dirs_facts(1) [OF assms(1)]]
    by (simp add: cache_get_def)
  ultimately show ?thesis
    using saved_content [OF assms(1)]
    by (simp add: save_eq [OF assms(1)] write_chunks_missing) blast
qed

theorem save_missing_chunk_truncates_witness:
  "\<exists>t k. save sample_externals ''d/a.cook'' [''0162000000'', ''ffff''] sample_hashed
        = (Err GetFromCacheError, t)
    \<and> content_at t (full_path sample_hashed ''d/a.cook'') = Some (take k [98])"
proof -
  have "cache sample_hashed ''ffff'' = None"
    "cache_get (cache sample_hashed) ''0162000000'' = Ok [98]" by code_simp+
  moreover from this(2) have "answers sample_hashed [''0162000000''] [[98]]"
    by (simp add: answers_def)
  ultimately show ?thesis
    using save_missing_chunk_truncates [OF writable_hashed_old, of "[''0162000000'']" "[[98]]"
        "''ffff''" sample_externals "[]"] by simp
qed

text \<open>Claim C23.
  \<open>hashify\<close> succeeds exactly on a file (not a directory) of a listed format; it never
  panics, and when it fails nothing has changed: the error names the path and says whether
  the format is not listed, the file is missing, or the path is a directory.
\<close>

theorem hashify_fails_exactly:
  assumes "digest_ok x"
  shows "(\<exists>hs s'. hashify x path s = (Ok hs, s'))
      = (listed path \<and> content_at s (full_path s path) \<noteq> None)
    \<and> fst (hashify x path s) \<noteq> Panic
    \<and> (\<forall>e s'. hashify x path s = (Err e, s') \<longrightarrow> s' = s \<and>
          e = (if \<not> listed path then UnlistedFileFormat path
               else if node_at s (full_path s path) = Some Dir then IoError path IsADirectory
               else IoError path (missing_kind s (full_path s path))))"
proof (cases "listed path")
  case False
  then show ?thesis by (auto simp: hashify_unlisted)
next
  case True
  show ?thesis
  proof (cases "node_at s (full_path s path)")
    case None
    with True show ?thesis by (auto simp: hashify_missing)
  next
    case (Some n)
    then show ?thesis
      using True by (cases n) (auto simp: hashify_directory hashify_eq [OF assms])
  qed
qed

theorem hashify_fails_exactly_witness:
  "hashify sample_externals ''d'' sample_chunker = (Err (UnlistedFileFormat ''d''), sample_chunker)"
proof -
  have "\<not> listed ''d''" by code_simp
  moreover have "fst (hashify sample_externals ''d'' sample_chunker) \<noteq> Panic"
    "\<nexists>hs s'. hashify sample_externals ''d'' sample_chunker = (Ok hs, s')"
    using hashify_fails_exactly [OF digest_ok_sample, of "''d''" sample_chunker] \<open>\<not> listed ''d''\<close>
    by auto
  ultimately show ?thesis
    using hashify_fails_exactly [OF digest_ok_sample, of "''d''" sample_chunker]
    by (cases "hashify sample_externals ''d'' sample_chunker";
        cases "fst (hashify sample_externals ''d'' sample_chunker)") auto
qed

text \<open>Claim C24.
  Deleting a file with a plain relative path, in a well-formed tree: the file is gone;
  every other file keeps its content; the directories that disappear are exactly strict
  ancestors of the file strictly below the base path (the base itself never goes), and
  none of them that has become empty is left; the tree stays well formed, so nothing was
  removed from above something that is still there; nothing else about the state changes.
\<close>

theorem delete_cleans_up:
  assumes "wf_world s" "plain_path path" "content_at s (full_path s path) = Some b"
  shows "\<exists>s'. delete path s = (Ok (), s') \<and> files_only s s' \<and> wf_world s'
    \<and> content_at s' = (content_at s)(full_path s path := None)
    \<and> (\<forall>p. node_at s' p \<noteq> node_at s p \<longrightarrow> node_at s' p = None \<and>
          (p = full_path s path
           \<or> strict_prefix (base_path s) p \<and> strict_prefix p (full_path s path)))
    \<and> (\<forall>d. strict_prefix (base_path s) d \<longrightarrow> strict_prefix d (full_path s path) \<longrightarrow>
          node_at s' d = None \<or> has_child s' d)"
proof -
  let ?p = "full_path s path" and ?s1 = "drop_node (full_path s path) s"
  obtain s' where del: "delete path s = (Ok (), s')"
    and cl: "cleaned (base_path s) (butlast ?p) ?s1 s'"
    using delete_spec [OF assms] by blast
  have ne: "?p \<noteq> []" using assms(1,3) by (auto dest!: content_at_SomeD wf_worldD)
  have up: "prefix q (butlast ?p) \<longleftrightarrow> strict_prefix q ?p" for q
    using ne by (metis append_butlast_last_id prefix_snoc strict_prefix_def
        not_prefix_butlast)
  from cl have nodes: "\<And>q. node_at s' q = node_at ?s1 q \<or> (node_at s' q = None \<and>
      node_at ?s1 q = Some Dir \<and> strict_prefix (base_path s) q \<and> strict_prefix q ?p)"
    by (auto simp: cleaned_def up)
  have "content_at s' q = content_at ?s1 q" for q
    using nodes [of q] by (auto simp: content_at_def)
  then have "content_at s' = (content_at s)(?p := None)" by auto
  moreover have "files_only s s'"
    using cl files_only_trans [OF files_only_drop] by (auto simp: cleaned_def)
  moreover have "node_at s' q \<noteq> node_at s q \<longrightarrow> node_at s' q = None \<and>
          (q = ?p \<or> strict_prefix (base_path s) q \<and> strict_prefix q ?p)" for q
    using nodes [of q] by (auto split: if_splits)
  ultimately show ?thesis
    using del cl by (auto simp: cleaned_def up)
qed

theorem delete_cleans_up_witness:
  "\<exists>s'. delete ''d/a.cook'' sample_chunker = (Ok (), s')
    \<and> content_at s' = (content_at sample_chunker)(full_path sample_chunker ''d/a.cook'' := None)
    \<and> (node_at s' (sample_base @ [Normal ''d'']) = None
       \<or> has_child s' (sample_base @ [Normal ''d'']))"
proof -
  have b: "base_path sample_chunker = sample_base" by (simp add: sample_chunker_def)
  have below: "strict_prefix sample_base (sample_base @ [Normal ''d''])"
    "strict_prefix (sample_base @ [Normal ''d''])
      (sample_base @ [Normal ''d'', Normal ''a.cook''])"
    by (auto simp: strict_prefix_def)
  show ?thesis
    using delete_cleans_up [OF wf_sample plain_sample content_sample] below
    unfolding b full_path_sample by meson
qed

end
