(* ===== verification/Polling.thy ===== *)
theory Polling
  imports Metadata
begin

text \<open>
  Who a commit wakes (server/src/metadata/notification.rs and the poll handler of
  server/src/metadata/mod.rs) as a state machine: polls start, end (woken, timed out or at
  shutdown), are abandoned when their connection goes away, and commits notify. The state
  is the notifier and the polls in progress, each with the client's id and its notification
  object.
\<close>

record poll_state =
  hub :: notifier
  waiting :: "(string \<times> nat) set"

definition no_clients :: poll_state where
  "no_clients = \<lparr>hub = \<lparr>clients = [], fired = {}, fresh = 0\<rparr>, waiting = {}\<rparr>"

text \<open>
  A client has one poll at a time. An abandoned poll's handler is dropped where it waits, so
  it does not reach the removal of its entry.
\<close>

inductive poll_step :: "poll_state \<Rightarrow> poll_state \<Rightarrow> bool" where
  start: "u \<notin> fst ` waiting s \<Longrightarrow> register u (hub s) = (k, n) \<Longrightarrow>
    poll_step s (s\<lparr>hub := n, waiting := insert (u, k) (waiting s)\<rparr>)"
| finish: "(u, k) \<in> waiting s \<Longrightarrow>
    poll_step s (s\<lparr>hub := unregister u (hub s), waiting := waiting s - {(u, k)}\<rparr>)"
| abandon: "(u, k) \<in> waiting s \<Longrightarrow> poll_step s (s\<lparr>waiting := waiting s - {(u, k)}\<rparr>)"
| commit: "poll_step s (s\<lparr>hub := notify u (hub s)\<rparr>)"

inductive_cases poll_stepE: "poll_step s t"

inductive poll_reachable :: "poll_state \<Rightarrow> bool" where
  init: "poll_reachable no_clients"
| step: "poll_reachable s \<Longrightarrow> poll_step s t \<Longrightarrow> poll_reachable t"

definition poll_inv :: "poll_state \<Rightarrow> bool" where
  "poll_inv s \<longleftrightarrow>
     (\<forall>u k. active (hub s) u = Some k \<longrightarrow> k < fresh (hub s)) \<and>
     (\<forall>u v k. active (hub s) u = Some k \<longrightarrow> active (hub s) v = Some k \<longrightarrow> u = v) \<and>
     (\<forall>k \<in> fired (hub s). k < fresh (hub s)) \<and>
     (\<forall>u k. (u, k) \<in> waiting s \<longrightarrow> active (hub s) u = Some k)"

lemma poll_inv_init: "poll_inv no_clients"
  by (simp add: poll_inv_def no_clients_def active_def)

lemma poll_inv_step:
  assumes "poll_step s t" "poll_inv s"
  shows "poll_inv t"
  using assms
proof (cases rule: poll_step.cases)
  case (start u k n)
  show ?thesis
  proof (cases "active (hub s) u")
    case None
    with start have "k = fresh (hub s)"
      "n = (hub s)\<lparr>clients := AList.update u (fresh (hub s)) (clients (hub s)), fresh := Suc (fresh (hub s))\<rparr>"
      by (auto simp: register_def)
    moreover have "v \<noteq> u" if "(v, l) \<in> waiting s" for v l
      using that None assms(2) by (auto simp: poll_inv_def)
    ultimately show ?thesis
      using start(1) assms(2) by (auto simp: poll_inv_def split: if_splits) (fastforce+)?
  next
    case (Some l)
    with start have "n = hub s" "k = l" by (auto simp: register_def)
    with start(1) Some assms(2) show ?thesis by (auto simp: poll_inv_def)
  qed
next
  case (finish u k)
  have only: "v \<noteq> u" if "(v, l) \<in> waiting s - {(u, k)}" for v l
  proof
    assume "v = u"
    have w: "active (hub s) c = Some m" if "(c, m) \<in> waiting s" for c m
      using assms(2) that by (simp add: poll_inv_def)
    have "(u, l) \<in> waiting s" using that \<open>v = u\<close> by simp
    from w [OF this] w [OF finish(2)] have "l = k" by simp
    with that \<open>v = u\<close> show False by simp
  qed
  show ?thesis
    using finish(1) assms(2) only by (auto simp: poll_inv_def)
next
  case (abandon u k)
  then show ?thesis using assms(2) by (auto simp: poll_inv_def)
next
  case (commit u)
  then show ?thesis using assms(2) by (auto simp: poll_inv_def fired_notify)
qed

lemma poll_reachable_inv: "poll_reachable s \<Longrightarrow> poll_inv s"
  by (induction rule: poll_reachable.induct) (auto intro: poll_inv_init poll_inv_step)

section \<open>Properties\<close>



text \<open>A poll waits at most two minutes and at most what was asked for.\<close>

lemma clamp_bounds:
  "clamp_poll_seconds t \<le> 120" "clamp_poll_seconds t \<le> t"
  by (simp_all add: clamp_poll_seconds_def MAX_POLL_SECONDS_def)

lemma fired_by_commits:
  "fired (fold notify vs n) \<subseteq> fired n \<union> {k. \<exists>c. active n c = Some k}"
proof (induction vs arbitrary: n)
  case (Cons v vs)
  from Cons.IH [of "notify v n"] show ?case by (auto simp: fired_notify)
qed simp

text \<open>Claim C37.
  Two polls of one client share an entry, and the first to end takes it away from the other.
  The second waits on the same object; while both wait, a commit of any other client would wake
  it, but once the first has ended no commit of anybody does, and it sits out its time, which
  is at most two minutes.
\<close>

theorem overlapping_polls_lose_wakeup:
  assumes "poll_reachable p" "notifier s = hub p" "active (hub p) u = None"
    and "poll_start u t1 s = ((k1, w1), s1)" "poll_start u t2 s1 = ((k2, w2), s2)"
  shows "k2 = k1 \<and> (\<forall>v. v \<noteq> u \<longrightarrow> k2 \<in> fired (notify v (notifier s2)))
    \<and> (\<forall>vs. k2 \<notin> fired (fold notify vs (notifier (poll_finish u s2))))
    \<and> w2 \<le> 120 \<and> w2 \<le> t2"
proof -
  have inv: "poll_inv p" using assms(1) by (rule poll_reachable_inv)
  have k1: "k1 = fresh (hub p)" "notifier s1 = (hub p)\<lparr>clients := AList.update u (fresh (hub p)) (clients (hub p)),
      fresh := Suc (fresh (hub p))\<rparr>"
    using assms(2-4) by (auto simp: poll_start_def register_def)
  have k2: "k2 = k1" "notifier s2 = notifier s1" "w2 = clamp_poll_seconds t2"
    using assms(5) by (auto simp: poll_start_def register_def k1 active_def update_conv' split: prod.splits)
  let ?n = "notifier (poll_finish u s2)"
  have n: "active ?n = (active (notifier s1))(u := None)" "fired ?n = fired (hub p)"
    by (simp_all add: poll_finish_def k1 k2 unregister_def active_def delete_conv')
  have "k1 \<notin> fired (hub p)" "\<forall>c l. active (hub p) c = Some l \<longrightarrow> l \<noteq> k1"
    using inv by (auto simp: poll_inv_def k1)
  then have "k1 \<notin> fired ?n \<union> {k. \<exists>c. active ?n c = Some k}"
    by (auto simp: n k1)
  then have "\<forall>vs. k1 \<notin> fired (fold notify vs ?n)" using fired_by_commits by blast
  moreover have "k1 \<in> fired (notify v (notifier s2))" if "v \<noteq> u" for v
    using that by (auto simp: fired_notify k1 k2)
  ultimately show ?thesis using clamp_bounds by (simp add: k2)
qed

definition sample_polls :: server where
  "sample_polls = \<lparr>files = [], dir_meta = (\<lambda>_. (0, Timestamp 0 0)), clock = Timestamp 0 0,
     rows = [], notifier = hub no_clients\<rparr>"

theorem overlapping_polls_lose_wakeup_witness:
  "\<exists>s1 s2 w1 w2. poll_start ''u1'' 70 sample_polls = ((0, w1), s1) \<and> poll_start ''u1'' 70 s1 = ((0, w2), s2)
    \<and> 0 \<notin> fired (notify ''u2'' (notifier (poll_finish ''u1'' s2)))"
proof -
  obtain s1 w1 where a: "poll_start ''u1'' 70 sample_polls = ((0, w1), s1)"
    by (simp add: poll_start_def sample_polls_def register_def no_clients_def active_def)
  obtain s2 k w2 where b: "poll_start ''u1'' 70 s1 = ((k, w2), s2)" by (metis prod.collapse)
  have "notifier sample_polls = hub no_clients" "active (hub no_clients) ''u1'' = None"
    by (simp_all add: sample_polls_def no_clients_def active_def)
  from overlapping_polls_lose_wakeup [OF poll_reachable.init this a b]
  have "k = 0" "0 \<notin> fired (fold notify [''u2''] (notifier (poll_finish ''u1'' s2)))" by blast+
  with a b show ?thesis by auto
qed

end
