(* ===== verification/Faults.thy ===== *)
theory Faults
  imports MetadataProps
begin

text \<open>
  The metadata handlers when the database fails (\<open>Db::run\<close> of server/src/metadata/db.rs, the
  handlers of server/src/metadata/mod.rs, \<open>AppError\<close> of server/src/error.rs). A handler runs each
  query on a connection of its own: no connection is a panic, a failed query an error that is
  answered with a bare 500. What fails, for each query of a request in turn, is a parameter; a
  failed query has no effect.
\<close>

section \<open>Queries that fail\<close>

datatype db_fault = No_connection | Query_failed

definition app_error_response :: response where
  "app_error_response = plain_response 500"

definition db_run :: "db_fault option \<Rightarrow> 'a \<Rightarrow> (response, 'a) res" where
  "db_run fault x =
     (case fault of
        None \<Rightarrow> Ok x
      | Some Query_failed \<Rightarrow> Err app_error_response
      | Some No_connection \<Rightarrow> Panic)"

definition has_files_attempt ::
    "db_fault option \<Rightarrow> int \<Rightarrow> ('z server_scheme, response, bool) prog" where
  "has_files_attempt fault user = (\<lambda>s. lift_res (db_run fault (has_files_handler user s)) s)"

definition list_attempt ::
    "db_fault option \<Rightarrow> metadata_env \<Rightarrow> int \<Rightarrow> int \<Rightarrow> ('z server_scheme, response, server_record list) prog" where
  "list_attempt fault e user after = (\<lambda>s. lift_res (db_run fault (list_handler e user after s)) s)"

text \<open>A commit runs two queries, the second only for what is not recorded yet.\<close>

definition commit_attempt ::
    "(nat \<Rightarrow> db_fault option) \<Rightarrow> store_env \<Rightarrow> metadata_env \<Rightarrow> int \<Rightarrow> string \<Rightarrow> commit_payload \<Rightarrow>
     ('z server_scheme, response, commit_status) prog" where
  "commit_attempt fault x e user uid payload = (\<lambda>s.
     (case non_local_chunks (upload_dir x) payload s of
        Panic \<Rightarrow> (Panic, s)
      | Err er \<Rightarrow> (Err (plain_response (error_status er)), s)
      | Ok to_be_uploaded \<Rightarrow>
          if to_be_uploaded \<noteq> [] then (Ok (CommitNeedChunks (join_with [COMMA] to_be_uploaded)), s)
          else
            (let r = from_payload_and_user_id payload user in
             and_then (lift_res (db_run (fault 0) (latest_for_path (nf_user_id r) (nf_path r) (rows s)))) (\<lambda>existing.
               let insert = (\<lambda>s. and_then (lift_res (db_run (fault 1) (insert_new_record (gap e) r (rows s))))
                 (\<lambda>(i, rows') s. (Ok (CommitSuccess i), s\<lparr>rows := rows', notifier := notify uid (notifier s)\<rparr>)) s)
               in case existing of
                    Some old \<Rightarrow>
                      if sr_chunk_ids old = nf_chunk_ids r \<and> sr_deleted old = nf_deleted r
                      then ret (CommitSuccess (sr_id old)) else insert
                  | None \<Rightarrow> insert) s)))"

section \<open>An attempt is a commit or nothing\<close>

definition failed :: "('e, 'a) res \<Rightarrow> bool" where
  "failed r \<longleftrightarrow> (\<forall>a. r \<noteq> Ok a)"

lemma commit_attempt_cases:
  "(failed (fst (commit_attempt fault x e user uid p s)) \<and> snd (commit_attempt fault x e user uid p s) = s)
   \<or> (\<exists>a s'. commit_attempt fault x e user uid p s = (Ok a, s') \<and> commit_handler x e user uid p s = (Ok a, s'))"
  by (cases "fault 0"; cases "fault 1"; cases "the (fault 0)"; cases "the (fault 1)")
     (auto simp: commit_attempt_def commit_handler_def db_run_def and_then_def lift_res_def ret_def
       failed_def Let_def split: res.splits option.splits prod.splits)

lemma commit_attempt_faultless:
  assumes "fst (commit_handler x e user uid p s) = Ok a"
  shows "commit_attempt (\<lambda>_. None) x e user uid p s = (Ok a, snd (commit_handler x e user uid p s))"
  using assms
  by (auto simp: commit_attempt_def commit_handler_def db_run_def and_then_def lift_res_def ret_def
       Let_def split: res.splits option.splits prod.splits)


section \<open>Retries\<close>

text \<open>A client that repeats a commit, each time with other faults; the answers may be lost.\<close>

definition retried ::
    "store_env \<Rightarrow> metadata_env \<Rightarrow> int \<Rightarrow> commit_payload \<Rightarrow> ((nat \<Rightarrow> db_fault option) \<times> string) list \<Rightarrow>
     'z server_scheme \<Rightarrow> 'z server_scheme" where
  "retried x e user p tries s = fold (\<lambda>(fault, uid) s. snd (commit_attempt fault x e user uid p s)) tries s"

lemma attempt_after_success:
  assumes "wf_rows (rows s)" "\<forall>i \<in> set (split_on COMMA (cp_chunk_ids p)). id_ok i"
    and "commit_handler x e user uid p s = (Ok (CommitSuccess j), t)"
  shows "snd (commit_attempt fault x e user uid' p t) = t"
  using commit_attempt_cases [of fault x e user uid' p t] commit_idempotent [OF assms, of uid'] by auto

lemma retried_state:
  assumes "wf_rows (rows s)" "\<forall>i \<in> set (split_on COMMA (cp_chunk_ids p)). id_ok i"
  shows "retried x e user p tries s = s \<or>
    (\<exists>uid j. commit_handler x e user uid p s = (Ok (CommitSuccess j), retried x e user p tries s))"
proof (induction tries rule: rev_induct)
  case (snoc a tries)
  obtain fault uid where a: "a = (fault, uid)" by (cases a)
  let ?t = "retried x e user p tries s"
  have step: "retried x e user p (tries @ [a]) s = snd (commit_attempt fault x e user uid p ?t)"
    by (simp add: retried_def a)
  from snoc.IH show ?case
  proof
    assume same: "?t = s"
    have needs: "s' = s" if "commit_handler x e user uid p s = (Ok (CommitNeedChunks ids), s')" for ids s'
      using that by (auto simp: commit_handler_def Let_def split: res.splits option.splits if_splits prod.splits)
    from commit_attempt_cases [of fault x e user uid p s] show ?thesis
    proof
      assume "\<exists>a s'. commit_attempt fault x e user uid p s = (Ok a, s') \<and>
          commit_handler x e user uid p s = (Ok a, s')"
      then obtain st s' where r: "commit_attempt fault x e user uid p s = (Ok st, s')"
        "commit_handler x e user uid p s = (Ok st, s')" by blast
      show ?thesis
        using r needs unfolding step same by (cases st) auto
    qed (simp add: step same)
  next
    assume "\<exists>uid j. commit_handler x e user uid p s = (Ok (CommitSuccess j), ?t)"
    then obtain u j where ready: "commit_handler x e user u p s = (Ok (CommitSuccess j), ?t)" by blast
    from attempt_after_success [OF assms this] ready show ?thesis unfolding step by auto
  qed
qed (simp add: retried_def)

text \<open>Claim C12.
  A commit can be repeated until it is answered. Whatever fails of the database, an attempt is
  the whole commit or changes nothing: no row, no notification. So when a client repeats a
  commit any number of times, losing any of the answers, and the last attempt succeeds with an
  id, the journal has at most one row more than before the first, that row is the one with the
  id, and it is current for the path.
\<close>

theorem retries_commit_once:
  assumes "wf_rows (rows s)" "\<forall>i \<in> set (split_on COMMA (cp_chunk_ids p)). id_ok i"
    and "commit_attempt fault x e user uid p (retried x e user p tries s) = (Ok (CommitSuccess j), s')"
  shows "(rows s' = rows s \<or> (\<exists>r. rows s' = rows s @ [r] \<and> sr_id r = j))
    \<and> (\<exists>r. server_view user (rows s') (cp_path p) = Some r \<and> sr_id r = j
        \<and> sr_chunk_ids r = cp_chunk_ids p \<and> sr_deleted r = cp_deleted p)
    \<and> (\<forall>fault uid. failed (fst (commit_attempt fault x e user uid p s)) \<longrightarrow>
        snd (commit_attempt fault x e user uid p s) = s)"
proof -
  let ?t = "retried x e user p tries s"
  from assms(3) commit_attempt_cases [of fault x e user uid p ?t]
  have last: "commit_handler x e user uid p ?t = (Ok (CommitSuccess j), s')" by (auto simp: failed_def)
  have "\<exists>u. commit_handler x e user u p s = (Ok (CommitSuccess j), s')"
    using retried_state [OF assms(1,2), of x e user tries]
  proof
    assume "?t = s"
    with last show ?thesis by auto
  next
    assume "\<exists>uid j. commit_handler x e user uid p s = (Ok (CommitSuccess j), ?t)"
    then obtain u i where first: "commit_handler x e user u p s = (Ok (CommitSuccess i), ?t)" by blast
    from commit_idempotent [OF assms(1,2) this, of uid] last first show ?thesis by auto
  qed
  then obtain u where c: "commit_handler x e user u p s = (Ok (CommitSuccess j), s')" by blast
  have "(non_local_chunks (upload_dir x) p s :: (chunk_error, string list) res) = Ok []"
    using c by (auto simp: commit_handler_def split: res.splits if_splits)
  with c latest_for_path_view [OF assms(1), of user "cp_path p"]
  have "(rows s' = rows s \<or> (\<exists>r. rows s' = rows s @ [r] \<and> sr_id r = j))
    \<and> (\<exists>r. server_view user (rows s') (cp_path p) = Some r \<and> sr_id r = j
        \<and> sr_chunk_ids r = cp_chunk_ids p \<and> sr_deleted r = cp_deleted p)"
    by (auto simp: commit_handler_def Let_def insert_new_record_eq from_payload_and_user_id_def
        inserted_row_def server_view_def split: option.splits if_splits)
  moreover have "snd (commit_attempt fault x e user uid p s) = s"
    if "failed (fst (commit_attempt fault x e user uid p s))" for fault uid
    using commit_attempt_cases [of fault x e user uid p s] that by (auto simp: failed_def)
  ultimately show ?thesis by blast
qed

text \<open>The sample: an insert that fails, one whose answer is lost, and one that is answered.\<close>

theorem retries_commit_once_witness:
  "\<exists>j s'. commit_attempt (\<lambda>_. None) sample_upload_env sample_meta 1 ''u1''
      \<lparr>cp_path = ''b.cook'', cp_deleted = False, cp_chunk_ids = []\<rparr>
      (retried sample_upload_env sample_meta 1 \<lparr>cp_path = ''b.cook'', cp_deleted = False, cp_chunk_ids = []\<rparr>
        [(\<lambda>i. if i = 1 then Some Query_failed else None, ''u1''), (\<lambda>_. None, ''u1'')] sample_server) =
      (Ok (CommitSuccess j), s')
    \<and> length (rows s') \<le> 2"
proof -
  let ?p = "\<lparr>cp_path = ''b.cook'', cp_deleted = False, cp_chunk_ids = []\<rparr>"
  let ?tries = "[(\<lambda>i. if i = 1 then Some Query_failed else None, ''u1''), (\<lambda>_. None, ''u1'')]"
  let ?t = "retried sample_upload_env sample_meta 1 ?p ?tries sample_server"
  have ids: "\<forall>i \<in> set (split_on COMMA (cp_chunk_ids ?p)). id_ok i" by (simp add: id_ok_def)
  have here: "non_local_chunks (upload_dir sample_upload_env) ?p s = Ok []" for s :: server
    by (simp add: non_local_chunks_def is_present_def)
  have ok: "\<exists>j s'. commit_attempt (\<lambda>_. None) sample_upload_env sample_meta 1 ''u1'' ?p s = (Ok (CommitSuccess j), s')"
    for s :: server
    by (auto simp: commit_attempt_def here db_run_def and_then_def lift_res_def ret_def Let_def
        split: option.splits prod.splits)
  obtain j s' where c: "commit_attempt (\<lambda>_. None) sample_upload_env sample_meta 1 ''u1'' ?p ?t =
      (Ok (CommitSuccess j), s')" using ok by blast
  have "length (rows sample_server) = 1" by code_simp
  with retries_commit_once [OF wf_sample_server ids c] have "length (rows s') \<le> 2" by auto
  with c show ?thesis by blast
qed

end
