(* ===== verification/Racing.thy ===== *)
theory Racing
  imports MetadataProps
begin

text \<open>
  Commits that overlap. The handler \<open>commit\<close> of server/src/metadata/mod.rs awaits the database
  twice and takes the lock of the notifier last, so other requests run between its parts:
  \<open>commit_step\<close> is one part, and \<open>race\<close> any interleaving of the parts of any number of commits
  with each other and with whatever else the server does.
\<close>

section \<open>The parts of a commit\<close>

datatype commit_stage =
    Arrived
  | Looking
  | Inserting
  | Notifying int
  | Ended "(chunk_error, commit_status) res"

record commit_task =
  ct_user :: int
  ct_uuid :: string
  ct_payload :: commit_payload
  ct_stage :: commit_stage

definition new_commit :: "int \<Rightarrow> string \<Rightarrow> commit_payload \<Rightarrow> commit_task" where
  "new_commit user uid p = \<lparr>ct_user = user, ct_uuid = uid, ct_payload = p, ct_stage = Arrived\<rparr>"

definition commit_step ::
    "store_env \<Rightarrow> metadata_env \<Rightarrow> commit_task \<Rightarrow> server \<Rightarrow> commit_task \<times> server" where
  "commit_step x e t s =
     (let r = from_payload_and_user_id (ct_payload t) (ct_user t) in
      case ct_stage t of
        Arrived \<Rightarrow>
          (t\<lparr>ct_stage := (case non_local_chunks (upload_dir x) (ct_payload t) s of
              Panic \<Rightarrow> Ended Panic
            | Err er \<Rightarrow> Ended (Err er)
            | Ok to_be_uploaded \<Rightarrow>
                if to_be_uploaded = [] then Looking
                else Ended (Ok (CommitNeedChunks (join_with [COMMA] to_be_uploaded))))\<rparr>, s)
      | Looking \<Rightarrow>
          (t\<lparr>ct_stage := (case latest_for_path (nf_user_id r) (nf_path r) (rows s) of
              None \<Rightarrow> Inserting
            | Some old \<Rightarrow>
                if sr_chunk_ids old = nf_chunk_ids r \<and> sr_deleted old = nf_deleted r
                then Ended (Ok (CommitSuccess (sr_id old))) else Inserting)\<rparr>, s)
      | Inserting \<Rightarrow>
          (let (i, rows') = insert_new_record (gap e) r (rows s) in
           (t\<lparr>ct_stage := Notifying i\<rparr>, s\<lparr>rows := rows'\<rparr>))
      | Notifying i \<Rightarrow>
          (t\<lparr>ct_stage := Ended (Ok (CommitSuccess i))\<rparr>, s\<lparr>notifier := notify (ct_uuid t) (notifier s)\<rparr>)
      | Ended a \<Rightarrow> (t, s))"

inductive race ::
    "store_env \<Rightarrow> metadata_env \<Rightarrow> commit_task list \<times> server \<Rightarrow> commit_task list \<times> server \<Rightarrow> bool"
  for x e where
  turn: "commit_step x e t s = (t', s') \<Longrightarrow> race x e (us @ t # vs, s) (us @ t' # vs, s')"
| elsewhere: "rows s' = rows s \<Longrightarrow> race x e (ts, s) (ts, s')"

section \<open>Alone\<close>

lemma commit_steps_handler:
  assumes "ct_stage t = Arrived"
  shows "((\<lambda>(t, s). commit_step x e t s) ^^ 4) (t, s) =
    (let (a, s') = commit_handler x e (ct_user t) (ct_uuid t) (ct_payload t) s in (t\<lparr>ct_stage := Ended a\<rparr>, s'))"
  using assms
  by (auto simp: commit_step_def commit_handler_def numeral_eq_Suc Let_def insert_new_record_eq
      split: res.splits option.splits)

section \<open>Interleaved\<close>

definition asked :: "commit_task \<Rightarrow> int \<times> string \<times> string \<times> bool" where
  "asked t = (ct_user t, cp_path (ct_payload t), cp_chunk_ids (ct_payload t), cp_deleted (ct_payload t))"

definition recorded :: "server_record \<Rightarrow> int \<times> string \<times> string \<times> bool" where
  "recorded r = (sr_user_id r, sr_path r, sr_chunk_ids r, sr_deleted r)"

definition granted :: "commit_task \<Rightarrow> int option" where
  "granted t = (case ct_stage t of Notifying i \<Rightarrow> Some i | Ended (Ok (CommitSuccess i)) \<Rightarrow> Some i | _ \<Rightarrow> None)"

abbreviation open_task :: "commit_task \<Rightarrow> bool" where
  "open_task t \<equiv> ct_stage t \<in> {Arrived, Looking, Inserting}"

definition accounted :: "commit_task list \<Rightarrow> server_record list \<Rightarrow> commit_task list \<Rightarrow> server_record list \<Rightarrow> bool" where
  "accounted ts rs ts' rs' \<longleftrightarrow>
     wf_rows rs' \<and> map asked ts' = map asked ts
     \<and> (\<exists>new. rs' = rs @ new
          \<and> mset (map recorded new) + mset (map asked (filter open_task ts')) \<subseteq># mset (map asked ts))
     \<and> (\<forall>t \<in> set ts'. \<forall>i. granted t = Some i \<longrightarrow> (\<exists>r \<in> set rs'. sr_id r = i \<and> recorded r = asked t))"

text \<open>What a part does: nothing, or the insertion of the task's own row.\<close>

lemma commit_step_rows:
  assumes "commit_step x e t s = (t', s')" "wf_rows (rows s)"
    and "\<forall>i. granted t = Some i \<longrightarrow> (\<exists>r \<in> set (rows s). sr_id r = i \<and> recorded r = asked t)"
  shows "asked t' = asked t \<and> wf_rows (rows s')
    \<and> (\<forall>i. granted t' = Some i \<longrightarrow> (\<exists>r \<in> set (rows s'). sr_id r = i \<and> recorded r = asked t))
    \<and> ((rows s' = rows s \<and> (open_task t' \<longrightarrow> open_task t))
       \<or> (\<exists>r. rows s' = rows s @ [r] \<and> recorded r = asked t \<and> open_task t \<and> \<not> open_task t'))"
proof (cases "ct_stage t")
  case Arrived
  with assms show ?thesis
    by (auto simp: commit_step_def Let_def asked_def granted_def split: res.splits if_splits)
next
  case Looking
  with assms(1,2) show ?thesis
    using latest_for_path_view [OF assms(2), of "ct_user t" "cp_path (ct_payload t)"]
    by (auto simp: commit_step_def Let_def asked_def granted_def recorded_def from_payload_and_user_id_def
        dest: server_view_SomeD split: option.splits if_splits)
next
  case Inserting
  let ?i = "next_id (gap e) (map sr_id (rows s))"
  let ?r = "inserted_row ?i (from_payload_and_user_id (ct_payload t) (ct_user t))"
  from Inserting assms(1) have t': "t' = t\<lparr>ct_stage := Notifying ?i\<rparr>" "rows s' = rows s @ [?r]"
    by (auto simp: commit_step_def Let_def insert_new_record_eq)
  moreover have "recorded ?r = asked t" "sr_id ?r = ?i"
    by (simp_all add: recorded_def asked_def inserted_row_def from_payload_and_user_id_def)
  moreover have "wf_rows (rows s @ [?r])"
    using assms(2) by (auto simp: ids_sorted_def sorted_wrt_append inserted_row_def next_id_above)
  ultimately show ?thesis using Inserting by (auto simp: asked_def granted_def)
next
  case (Notifying i)
  with assms show ?thesis by (auto simp: commit_step_def Let_def asked_def granted_def)
next
  case (Ended a)
  with assms show ?thesis by (auto simp: commit_step_def Let_def)
qed

lemma race_accounted:
  assumes "race x e (ts', s') (ts'', s'')" "accounted ts rs ts' (rows s')"
  shows "accounted ts rs ts'' (rows s'')"
  using assms(1)
proof (cases rule: race.cases)
  case (turn t t' us vs)
  have st: "commit_step x e t s' = (t', s'')" and ts: "ts' = us @ t # vs" "ts'' = us @ t' # vs"
    using turn by simp_all
  from assms(2) obtain new where a: "wf_rows (rows s')" "map asked ts' = map asked ts" "rows s' = rs @ new"
    "mset (map recorded new) + mset (map asked (filter open_task ts')) \<subseteq># mset (map asked ts)"
    "\<forall>t \<in> set ts'. \<forall>i. granted t = Some i \<longrightarrow> (\<exists>r \<in> set (rows s'). sr_id r = i \<and> recorded r = asked t)"
    by (auto simp: accounted_def)
  from commit_step_rows [OF st a(1)] a(5) ts(1) have s: "asked t' = asked t" "wf_rows (rows s'')"
    "\<forall>i. granted t' = Some i \<longrightarrow> (\<exists>r \<in> set (rows s''). sr_id r = i \<and> recorded r = asked t)"
    "(rows s'' = rows s' \<and> (open_task t' \<longrightarrow> open_task t))
      \<or> (\<exists>r. rows s'' = rows s' @ [r] \<and> recorded r = asked t \<and> open_task t \<and> \<not> open_task t')" by simp_all
  have sub: "set (rows s') \<subseteq> set (rows s'')" using s(4) by auto
  have grants: "\<forall>u \<in> set ts''. \<forall>i. granted u = Some i \<longrightarrow> (\<exists>r \<in> set (rows s''). sr_id r = i \<and> recorded r = asked u)"
    using a(5) s(1,3) sub ts by fastforce
  have "\<exists>new. rows s'' = rs @ new
      \<and> mset (map recorded new) + mset (map asked (filter open_task ts'')) \<subseteq># mset (map asked ts)"
    using s(4)
  proof
    assume same: "rows s'' = rows s' \<and> (open_task t' \<longrightarrow> open_task t)"
    have "mset (map asked (filter open_task ts'')) \<subseteq># mset (map asked (filter open_task ts'))"
      using same s(1) ts by auto
    then have "mset (map recorded new) + mset (map asked (filter open_task ts'')) \<subseteq># mset (map asked ts)"
      using a(4) by (meson subset_mset.add_left_mono subset_mset.order_trans)
    with same a(3) show ?thesis by auto
  next
    assume "\<exists>r. rows s'' = rows s' @ [r] \<and> recorded r = asked t \<and> open_task t \<and> \<not> open_task t'"
    then obtain r where r: "rows s'' = rs @ new @ [r]" "recorded r = asked t" "open_task t" "\<not> open_task t'"
      using a(3) by auto
    then have "mset (map recorded (new @ [r])) + mset (map asked (filter open_task ts'')) =
        mset (map recorded new) + mset (map asked (filter open_task ts'))"
      using ts by simp
    with r(1) a(4) show ?thesis by metis
  qed
  with a(2) s(1,2) grants ts show ?thesis by (simp add: accounted_def)
next
  case elsewhere
  with assms(2) show ?thesis by simp
qed

lemma races_accounted:
  assumes "(race x e)\<^sup>*\<^sup>* (ts, s) (ts', s')" "wf_rows (rows s)" "\<forall>t \<in> set ts. ct_stage t = Arrived"
  shows "accounted ts (rows s) ts' (rows s')"
  using assms(1)
proof (induction rule: rtranclp_induct2)
  case refl
  have "filter open_task ts = ts" using assms(3) by (simp add: filter_id_conv)
  with assms(2,3) show ?case by (auto simp: accounted_def granted_def)
next
  case (step ts1 s1 ts2 s2)
  then show ?case by (blast intro: race_accounted)
qed

text \<open>The turns of two tasks, and a schedule of them.\<close>

fun turns :: "store_env \<Rightarrow> metadata_env \<Rightarrow> bool list \<Rightarrow> commit_task \<times> commit_task \<times> server \<Rightarrow> commit_task \<times> commit_task \<times> server" where
  "turns x e [] z = z"
| "turns x e (True # bs) (t, u, s) = (let (t', s') = commit_step x e t s in turns x e bs (t', u, s'))"
| "turns x e (False # bs) (t, u, s) = (let (u', s') = commit_step x e u s in turns x e bs (t, u', s'))"

lemma turns_race:
  "turns x e bs (t, u, s) = (t', u', s') \<Longrightarrow> (race x e)\<^sup>*\<^sup>* ([t, u], s) ([t', u'], s')"
proof (induction x e bs "(t, u, s)" arbitrary: t u s rule: turns.induct)
  case (2 x e bs t u s)
  obtain t1 s1 where c: "commit_step x e t s = (t1, s1)" by (cases "commit_step x e t s")
  have "race x e ([t, u], s) ([t1, u], s1)" using race.turn [OF c, of "[]" "[u]"] by simp
  with 2 c show ?case by (simp add: converse_rtranclp_into_rtranclp)
next
  case (3 x e bs t u s)
  obtain u1 s1 where c: "commit_step x e u s = (u1, s1)" by (cases "commit_step x e u s")
  have "race x e ([t, u], s) ([t, u1], s1)" using race.turn [OF c, of "[t]" "[]"] by simp
  with 3 c show ?case by (simp add: converse_rtranclp_into_rtranclp)
qed simp

section \<open>Properties\<close>

text \<open>Claim C13.
  Commits that overlap are recorded as they are answered. However the parts of any number of
  commits interleave, with each other and with whatever else the server does: ids of rows stay
  increasing, rows are only appended, each commit appends at most one row, its own, and from
  the moment it notifies the other clients (so before any of them asks) the row that its answer
  names is in the journal, with its user, path, chunks and flag.
\<close>

theorem overlapping_commits_recorded:
  assumes "(race x e)\<^sup>*\<^sup>* (ts, s) (ts', s')" "wf_rows (rows s)" "\<forall>t \<in> set ts. ct_stage t = Arrived"
  shows "wf_rows (rows s') \<and> map asked ts' = map asked ts
    \<and> (\<exists>new. rows s' = rows s @ new \<and> mset (map recorded new) \<subseteq># mset (map asked ts))
    \<and> (\<forall>t \<in> set ts'. \<forall>i. ct_stage t = Notifying i \<or> ct_stage t = Ended (Ok (CommitSuccess i)) \<longrightarrow>
        (\<exists>r \<in> set (rows s'). sr_id r = i \<and> recorded r = asked t))"
  using races_accounted [OF assms]
  by (fastforce simp: accounted_def granted_def intro: subset_mset.order_trans [rotated])

text \<open>The sample: two clients commit different files at once, in turns.\<close>

abbreviation (input) sample_commit :: "string \<Rightarrow> string \<Rightarrow> commit_task" where
  "sample_commit uid p \<equiv> new_commit 1 uid \<lparr>cp_path = p, cp_deleted = False, cp_chunk_ids = []\<rparr>"

abbreviation (input) sample_turns :: "commit_task \<times> commit_task \<times> server" where
  "sample_turns \<equiv> turns sample_upload_env sample_meta [True, False, False, True, True, False]
     (sample_commit ''u1'' ''b.cook'', sample_commit ''u2'' ''c.cook'', sample_server)"

lemma sample_turns_stage: "ct_stage (fst sample_turns) = Notifying 2"
  by code_simp

theorem overlapping_commits_recorded_witness:
  "ct_stage (fst sample_turns) = Notifying 2
   \<and> (\<exists>r \<in> set (rows (snd (snd sample_turns))). sr_id r = 2 \<and> sr_path r = ''b.cook'')"
proof -
  obtain t u s where z: "sample_turns = (t, u, s)" by (metis prod_cases3)
  have arrived: "\<forall>t \<in> set [sample_commit ''u1'' ''b.cook'', sample_commit ''u2'' ''c.cook'']. ct_stage t = Arrived"
    by (simp add: new_commit_def)
  note r = overlapping_commits_recorded [OF turns_race [OF z] wf_sample_server arrived]
  have st: "ct_stage t = Notifying 2" using sample_turns_stage z by simp
  with r obtain q where q: "q \<in> set (rows s)" "sr_id q = 2" "recorded q = asked t" by auto
  moreover have "asked t = asked (sample_commit ''u1'' ''b.cook'')" using r by simp
  ultimately have "sr_path q = ''b.cook''" by (simp add: recorded_def asked_def new_commit_def)
  with z st q show ?thesis by auto
qed

text \<open>Claim C26.
  The check for a commit that repeats the current record is not atomic with the insertion.
  Where a commit would add a row, two of the same commits that overlap can both add it: both
  look before either inserts, both are answered with success, and the journal has the record
  twice, under two ids, while one after the other they would give one row and one id.
\<close>

theorem overlapping_commits_duplicate:
  assumes "commit_handler x e user uid p s = (Ok (CommitSuccess i), t)" "rows t \<noteq> rows s"
  shows "\<exists>ts' s' r r'. (race x e)\<^sup>*\<^sup>* ([new_commit user uid p, new_commit user uid' p], s) (ts', s')
    \<and> map ct_stage ts' = [Ended (Ok (CommitSuccess (sr_id r))), Ended (Ok (CommitSuccess (sr_id r')))]
    \<and> rows s' = rows s @ [r, r'] \<and> recorded r = recorded r' \<and> sr_id r = i \<and> i < sr_id r'"
proof -
  let ?f = "from_payload_and_user_id p user"
  let ?i = "next_id (gap e) (map sr_id (rows s))"
  let ?r = "inserted_row ?i ?f"
  let ?j = "next_id (gap e) (map sr_id (rows s @ [?r]))"
  let ?r' = "inserted_row ?j ?f"
  have here: "(non_local_chunks (upload_dir x) p s :: (chunk_error, string list) res) = Ok []"
    using assms(1) by (auto simp: commit_handler_def split: res.splits if_splits)
  have old: "latest_for_path user (cp_path p) (rows s) = None \<or>
      (\<exists>r. latest_for_path user (cp_path p) (rows s) = Some r \<and>
         \<not> (sr_chunk_ids r = cp_chunk_ids p \<and> sr_deleted r = cp_deleted p))"
    using assms
    by (auto simp: commit_handler_def Let_def from_payload_and_user_id_def split: res.splits option.splits if_splits)
  have i: "i = ?i" using assms old
    by (auto simp: commit_handler_def Let_def here from_payload_and_user_id_def insert_new_record_eq split: option.splits)
  obtain t1 t2 s' where run: "turns x e [True, False, True, False, True, False, True, False]
      (new_commit user uid p, new_commit user uid' p, s) = (t1, t2, s')" by (metis prod_cases3)
  then have ends: "ct_stage t1 = Ended (Ok (CommitSuccess ?i))" "ct_stage t2 = Ended (Ok (CommitSuccess ?j))"
    "rows s' = rows s @ [?r, ?r']"
    using old by (auto simp: commit_step_def new_commit_def Let_def here insert_new_record_eq
        from_payload_and_user_id_def inserted_row_def split: option.splits)
  have "sr_id ?r = ?i" "sr_id ?r' = ?j" "recorded ?r = recorded ?r'"
    by (simp_all add: inserted_row_def recorded_def)
  moreover have "?i < ?j" by (rule next_id_above) (simp add: inserted_row_def)
  ultimately show ?thesis using turns_race [OF run] ends i
    by (intro exI [of _ "[t1, t2]"] exI [of _ s'] exI [of _ ?r] exI [of _ ?r']) simp
qed

theorem overlapping_commits_duplicate_witness:
  "\<exists>ts' s' r r'. (race sample_upload_env sample_meta)\<^sup>*\<^sup>*
      ([sample_commit ''u1'' ''b.cook'', sample_commit ''u1'' ''b.cook''], sample_server) (ts', s')
    \<and> rows s' = rows sample_server @ [r, r'] \<and> recorded r = recorded r' \<and> sr_id r < sr_id r'"
proof -
  let ?p = "\<lparr>cp_path = ''b.cook'', cp_deleted = False, cp_chunk_ids = []\<rparr>"
  have "fst (commit_handler sample_upload_env sample_meta 1 ''u1'' ?p sample_server) = Ok (CommitSuccess 2)"
    "rows (snd (commit_handler sample_upload_env sample_meta 1 ''u1'' ?p sample_server)) \<noteq> rows sample_server"
    by code_simp+
  then obtain t where "commit_handler sample_upload_env sample_meta 1 ''u1'' ?p sample_server = (Ok (CommitSuccess 2), t)"
    "rows t \<noteq> rows sample_server" by (metis prod.collapse)
  from overlapping_commits_duplicate [OF this, of "''u1''"] show ?thesis by metis
qed

end
