(* ===== verification/Integrity.thy ===== *)
theory Integrity
  imports ServerProps EndToEndProps
begin

text \<open>
  What the server keeps of its own data under any sequence of requests, whoever sends them:
  the journal only grows, and as long as uploads arrive whole every record's chunks stay
  stored. An upload that breaks off, or one with other content under the same id, shows that
  stored chunks are not protected beyond that.
\<close>

section \<open>Trees that only gain nodes\<close>

definition gains :: "'z world_scheme \<Rightarrow> 'z world_scheme \<Rightarrow> bool" where
  "gains w w' \<longleftrightarrow> files_only w w' \<and> (\<forall>p. node_at w p \<noteq> None \<longrightarrow> node_at w' p \<noteq> None)"

lemma reflp_gains [prog_intros]: "reflp gains"
  by (auto intro: reflpI simp: gains_def)

lemma transp_gains [prog_intros]: "transp gains"
  by (auto intro!: transpI simp: gains_def intro: files_only_trans)

lemma gains_refl [simp]: "gains w w"
  by (simp add: gains_def)

lemma gains_trans: "gains u v \<Longrightarrow> gains v w \<Longrightarrow> gains u w"
  using transp_gains by (rule transpD)

lemma gains_put [simp]: "gains w (put_node p n w)"
  by (simp add: gains_def)

lemma gains_write [simp]: "gains w (write_file p b w)"
  by (simp add: write_file_def)

lemma gains_make_dirs: "gains w (snd (make_dirs qs w))"
proof (induction qs arbitrary: w)
  case (Cons q qs)
  have "gains w (snd (make_dirs qs (put_node q Dir w)))"
    using gains_put Cons.IH by (rule gains_trans)
  with Cons.IH show ?case by (auto split: option.splits node.splits)
qed (simp add: prog_simps)

lemma keeps_gains_create_dir_all [prog_intros]: "keeps gains (create_dir_all p)"
  by (simp add: keeps_def create_dir_all_def gains_make_dirs)

lemma keeps_gains_create_file [prog_intros]: "keeps gains (create_file p)"
  by (auto simp: keeps_def create_file_def split: option.splits)

lemma gains_write_pieces:
  assumes "\<And>p n. \<not> write_fails x p n"
  shows "gains w (write_pieces x p bs n written there w)"
proof (induction bs arbitrary: n written w)
  case (Cons b bs)
  let ?w = "if there then write_file p (written @ b) w else w"
  have "gains w ?w" by simp
  from this Cons.IH [where n = "Suc n" and written = "written @ b" and w = ?w] have
    "gains w (write_pieces x p bs (Suc n) (written @ b) there ?w)" by (rule gains_trans)
  with assms show ?case by simp
qed simp

lemma keeps_gains_store_field:
  assumes "\<And>p n. \<not> write_fails x p n" "field_complete f"
  shows "keeps gains (store_field x f)"
proof -
  have "keeps gains (\<lambda>w. let w' = write_pieces x p (field_pieces f) 0 [] True w in
      if field_complete f then (Ok (), w') else (Panic, snd (remove_file p w')))" for p
    using assms by (simp add: keeps_def Let_def gains_write_pieces)
  then show ?thesis
    unfolding store_field_def by (auto intro!: prog_intros split: option.split)
qed

lemma keeps_for_each_in:
  assumes "reflp R" "transp R" "\<And>x. x \<in> set xs \<Longrightarrow> keeps R (body x)"
  shows "keeps R (for_each body xs)"
  using assms(3) by (induction xs) (auto intro!: keeps_ret keeps_and_then assms(1,2))


section \<open>One request\<close>

definition present :: "server_env \<Rightarrow> string \<Rightarrow> server \<Rightarrow> bool" where
  "present E c s \<longleftrightarrow> is_present (upload_dir (store E)) c s = (Ok True :: (unit, bool) res)"

definition has_chunks :: "server_env \<Rightarrow> server_record \<Rightarrow> server \<Rightarrow> bool" where
  "has_chunks E r s \<longleftrightarrow> (\<forall>c \<in> set (split_on Metadata.COMMA (sr_chunk_ids r)). present E c s)"

definition whole :: "server_env \<Rightarrow> request \<Rightarrow> bool" where
  "whole E rq \<longleftrightarrow> (\<forall>b. \<forall>f \<in> set (multer (store E) b (capped_data_stream DATA_FORM_LIMIT 0 [Data (req_body rq)])).
     field_complete f)"

lemma present_iff:
  "is_present d c s = (Ok True :: ('e, bool) res) \<longleftrightarrow> c = [] \<or> (\<exists>p. file_path d c = (Ok p :: (unit, pathbuf) res) \<and> node_at s p \<noteq> None)"
  by (auto simp: is_present_def exists_path_def file_path_def Let_def split: res.splits if_splits)

lemma missing_none:
  "(missing_ids d cs s :: ('e, string list) res) = Ok [] \<Longrightarrow> c \<in> set cs \<Longrightarrow>
    (is_present d c s :: ('e, bool) res) = Ok True"
  by (induction cs) (auto split: res.splits if_splits)

lemma has_chunks_gains:
  assumes "gains s s'" "has_chunks E r s"
  shows "has_chunks E r s'"
  using assms by (fastforce simp: has_chunks_def present_def present_iff gains_def)

lemma has_chunks_update [simp]:
  "has_chunks E r (s\<lparr>rows := rs, notifier := n\<rparr>) = has_chunks E r s"
  "has_chunks E r (s\<lparr>notifier := n\<rparr>) = has_chunks E r s"
  "has_chunks E r (s\<lparr>rows := rs\<rparr>) = has_chunks E r s"
  by (simp_all add: has_chunks_def present_def present_iff node_at_def)

inductive served :: "server_env \<Rightarrow> server \<Rightarrow> server \<Rightarrow> bool" for E where
  stored: "gains s s' \<Longrightarrow> served E s s'"
| recorded: "has_chunks E r s \<Longrightarrow> \<forall>q \<in> set (rows s). sr_id q < sr_id r \<Longrightarrow>
    served E s (s\<lparr>rows := rows s @ [r], notifier := n\<rparr>)"
| noticed: "served E s (s\<lparr>notifier := n\<rparr>)"

lemma served_same [simp]: "served E s s"
  by (rule served.stored) simp

lemma commit_leaves_served: "served E s (snd (commit_handler (store E) (meta E) u client_id p s))"
proof (cases "non_local_chunks (upload_dir (store E)) p s :: (chunk_error, string list) res")
  case (Ok cs)
  let ?i = "next_id (gap (meta E)) (map sr_id (rows s))"
  let ?r = "inserted_row ?i (from_payload_and_user_id p u)"
  have "has_chunks E ?r s" if "cs = []"
    using missing_none [of "upload_dir (store E)" "split_on Metadata.COMMA (cp_chunk_ids p)" s] Ok that
    by (auto simp: has_chunks_def present_def non_local_chunks_def inserted_row_def
        from_payload_and_user_id_def present_iff)
  then have "served E s (s\<lparr>rows := rows s @ [?r], notifier := notify client_id (notifier s)\<rparr>)" if "cs = []"
    using that by (intro served.recorded) (auto simp: inserted_row_def next_id_above)
  with Ok show ?thesis
    by (auto simp: commit_handler_def Let_def insert_new_record_eq split: option.splits)
qed (simp_all add: commit_handler_def)

lemma upload_leaves_served:
  assumes "\<And>p n. \<not> write_fails (store E) p n" "whole E rq"
  shows "served E s (snd (upload_chunks (store E) ct [Data (req_body rq)] s))"
    and "served E s (snd (upload_chunks_deprecated (store E) ct [Data (req_body rq)] s))"
proof -
  have "keeps gains (for_each (store_field (store E))
      (multer (store E) b (capped_data_stream DATA_FORM_LIMIT 0 [Data (req_body rq)])))" for b
    using assms by (intro keeps_for_each_in reflp_gains transp_gains keeps_gains_store_field)
      (auto simp: whole_def simp del: capped_data_stream.simps)
  then have "keeps gains (upload_chunks (store E) ct [Data (req_body rq)])"
    "keeps gains (upload_chunks_deprecated (store E) ct [Data (req_body rq)])"
    unfolding upload_chunks_def upload_chunks_deprecated_def
    by (auto intro!: keeps_throw keeps_panic reflp_gains split: option.split simp del: capped_data_stream.simps)
  then show "served E s (snd (upload_chunks (store E) ct [Data (req_body rq)] s))"
    "served E s (snd (upload_chunks_deprecated (store E) ct [Data (req_body rq)] s))"
    by (auto intro: served.stored dest: keepsD)
qed


section \<open>Any request\<close>

lemma served_and_then:
  assumes "snd (m s) = s" "\<And>a. served E s (snd (f a s))"
  shows "served E s (snd (and_then m f s))"
  using assms by (auto simp: and_then_apply split: res.splits)

lemma same_state [simp]:
  "snd (entitled E rq s) = s" "snd (plain_user E rq s) = s" "snd (query d q s) = s"
  "snd (form g rq s) = s" "snd (text_body rq s) = s"
  by (auto simp: entitled_def plain_user_def query_def form_def text_body_def buffered_def prog_simps
      split: res.splits option.splits)

lemma same_and_then:
  assumes "snd (m s) = s" "\<And>a. snd (f a s) = s"
  shows "snd (and_then m f s) = s"
  using assms by (auto simp: and_then_apply split: res.splits)

lemma same_map_err [simp]: "snd (map_err g m s) = snd (m s)"
  by (auto simp: map_err_apply split: res.splits)

lemma served_tail:
  assumes "served E s (snd (m s))" "\<And>a t. snd (f a t) = t"
  shows "served E s (snd (and_then m f s))"
  using assms by (auto simp: and_then_apply split: res.splits)

lemma handle_served:
  assumes "\<And>p n. \<not> write_fails (store E) p n" "whole E rq"
  shows "served E s (snd (handle E r q rq s))"
proof (cases r)
  case UploadDeprecated
  then show ?thesis
    using upload_leaves_served(2) [OF assms]
    by (simp add: handle_def upload_route_def)
       (intro served_and_then served_tail; simp add: prog_simps)
next
  case Upload
  then show ?thesis
    using upload_leaves_served(1) [OF assms]
    by (simp add: handle_def upload_route_def)
       (intro served_and_then served_tail; simp add: prog_simps)
next
  case Commit
  then show ?thesis
    by (simp add: handle_def commit_route_def)
       (intro served_and_then served_tail; simp add: prog_simps commit_leaves_served)
next
  case Poll
  then show ?thesis
    by (simp add: handle_def poll_route_def)
       (intro served_and_then; auto simp: prog_simps poll_start_def poll_finish_def split: prod.splits
         intro: served.noticed)
next
  case Download
  have "snd (download_route E rq s) = s"
    unfolding download_route_def by (intro same_and_then) (simp_all add: prog_simps)
  with Download show ?thesis by (simp add: handle_def)
next
  case (Retrieve i)
  have "snd (retrieve_route E i rq s) = s"
    unfolding retrieve_route_def by (intro same_and_then) (auto simp: prog_simps split: option.split)
  with Retrieve show ?thesis by (simp add: handle_def)
next
  case HasFiles
  have "snd (has_files_route E rq s) = s"
    unfolding has_files_route_def by (intro same_and_then) (simp_all add: prog_simps)
  with HasFiles show ?thesis by (simp add: handle_def)
next
  case Listing
  have "snd (list_route E q rq s) = s"
    unfolding list_route_def by (intro same_and_then) (simp_all add: prog_simps)
  with Listing show ?thesis by (simp add: handle_def)
qed

lemma serve_served:
  assumes "\<And>p n. \<not> write_fails (store E) p n" "whole E rq"
  shows "served E s (snd (serve E rq s))"
proof -
  have "snd (serve E rq s) = s \<or> (\<exists>r q. snd (serve E rq s) = snd (handle E r q rq s))"
    by (auto simp: serve_def split: prod.splits option.splits res.splits) (metis snd_conv)+
  then show ?thesis using handle_served [OF assms] by fastforce
qed


section \<open>Sequences of requests\<close>

definition requests :: "server_env \<Rightarrow> request list \<Rightarrow> server \<Rightarrow> server" where
  "requests E rqs s = fold (\<lambda>rq s. snd (serve E rq s)) rqs s"

definition sound :: "server_env \<Rightarrow> server \<Rightarrow> bool" where
  "sound E s \<longleftrightarrow> wf_rows (rows s) \<and> (\<forall>r \<in> set (rows s). has_chunks E r s)"

lemma served_sound:
  assumes "served E s s'" "sound E s"
  shows "sound E s' \<and> (\<exists>new. rows s' = rows s @ new)"
  using assms(1)
proof (cases rule: served.cases)
  case stored
  then have "rows s' = rows s"
    unfolding gains_def files_only_def by (metis server.select_convs(1) server.surjective world.update_convs(1))
  with assms(2) has_chunks_gains [OF stored] show ?thesis by (simp add: sound_def)
next
  case (recorded r n)
  then have "wf_rows (rows s @ [r])"
    using assms(2) by (auto simp: sound_def ids_sorted_def sorted_wrt_append)
  with recorded assms(2) show ?thesis by (auto simp: sound_def)
qed (use assms(2) in \<open>simp add: sound_def\<close>)

lemma requests_snoc: "requests E (rqs @ [rq]) s = snd (serve E rq (requests E rqs s))"
  by (simp add: requests_def)

text \<open>Claim C11.
  The journal never names a chunk the server does not have. Whatever requests arrive, in any
  order, from anybody, with or without a valid token: as long as uploads arrive whole and
  writes do not fail, the records keep their ids increasing, the rows that were there stay as
  they are, and every chunk that any record, current or not, of any user names is stored.
\<close>

theorem server_integrity:
  assumes "\<And>p n. \<not> write_fails (store E) p n" "\<forall>rq \<in> set rqs. whole E rq"
    and "wf_rows (rows s)" "\<forall>r \<in> set (rows s). has_chunks E r s"
  shows "wf_rows (rows (requests E rqs s))
    \<and> (\<exists>new. rows (requests E rqs s) = rows s @ new)
    \<and> (\<forall>r \<in> set (rows (requests E rqs s)). \<forall>c \<in> set (split_on Metadata.COMMA (sr_chunk_ids r)).
        is_present (upload_dir (store E)) c (requests E rqs s) = (Ok True :: (unit, bool) res))"
proof -
  have "sound E (requests E rqs s) \<and> (\<exists>new. rows (requests E rqs s) = rows s @ new)"
    using assms(2)
  proof (induction rqs rule: rev_induct)
    case Nil
    then show ?case using assms(3,4) by (simp add: requests_def sound_def)
  next
    case (snoc rq rqs)
    then have IH: "sound E (requests E rqs s)" "\<exists>new. rows (requests E rqs s) = rows s @ new" by simp_all
    have "served E (requests E rqs s) (requests E (rqs @ [rq]) s)"
      unfolding requests_snoc using assms(1) snoc.prems by (intro serve_served) simp_all
    from served_sound [OF this IH(1)] IH(2) show ?case by auto
  qed
  then show ?thesis by (simp add: sound_def has_chunks_def present_def)
qed

text \<open>The sample: a commit that comes too early, the upload of its chunk, the commit again.\<close>

definition upload_sample :: request where
  "upload_sample = \<lparr>req_method = POST, req_url = ''/chunks/upload'',
     req_headers = [(''authorization'', ''Bearer t''), (''content-type'', ''multipart/form-data; boundary=X'')],
     req_body = upload_body ''X'' [(''ab1'', [97, 10])]\<rparr>"

definition commit_sample :: request where
  "commit_sample = \<lparr>req_method = POST, req_url = ''/metadata/commit?uuid=u'',
     req_headers = [(''authorization'', ''Bearer t''), (''content-type'', ''application/x-www-form-urlencoded'')],
     req_body = to_bytes (pack [[''deleted'', ''false''], [''chunk_ids'', ''ab1''], [''path'', ''a.cook'']])\<rparr>"

lemma read_parts_complete: "\<forall>f \<in> set (read_parts b bs). field_complete f"
proof (induction b bs rule: read_parts.induct)
  case (1 b bs)
  let ?r = "drop (length (part_head b)) bs"
  let ?r2 = "drop (length (takeWhile (\<lambda>x. x \<noteq> of_char QUOTE) ?r) + length part_tail) ?r"
  show ?case
  proof (cases "prefix (part_head b) bs")
    case True
    with 1 [of ?r _ ?r2] show ?thesis
      by (cases "find_window (delimiter b) ?r2") (simp_all add: read_parts.simps [of b bs] Let_def del: drop_drop)
  qed (simp add: read_parts.simps [of b bs])
qed

lemma whole_loop: "whole loop_server rq"
  using read_parts_complete
  by (auto simp: whole_def loop_server_def read_multipart_def simp del: capped_data_stream.simps split: res.splits)

lemma sample_rows:
  "map sr_chunk_ids (rows (requests loop_server [commit_sample, upload_sample, commit_sample] bare_server)) = [''ab1'']"
  by code_simp

theorem server_integrity_witness:
  "is_present (Some ''/up'') ''ab1''
     (requests loop_server [commit_sample, upload_sample, commit_sample] bare_server) = (Ok True :: (unit, bool) res)
   \<and> wf_rows (rows (requests loop_server [commit_sample, upload_sample, commit_sample] bare_server))"
proof -
  let ?s = "requests loop_server [commit_sample, upload_sample, commit_sample] bare_server"
  have no: "\<not> write_fails (store loop_server) p n" for p n by (simp add: loop_server_def)
  have rows: "wf_rows (rows bare_server)" "\<forall>r \<in> set (rows bare_server). has_chunks loop_server r bare_server"
    by (simp_all add: bare_server_def ids_sorted_def)
  have whole: "\<forall>rq \<in> set [commit_sample, upload_sample, commit_sample]. whole loop_server rq"
    using whole_loop by blast
  from sample_rows obtain r where r: "r \<in> set (rows ?s)" "sr_chunk_ids r = ''ab1''" by auto
  have "''ab1'' \<in> set (split_on Metadata.COMMA (sr_chunk_ids r))" unfolding r(2) by code_simp
  moreover have "upload_dir (store loop_server) = Some ''/up''" by (simp add: loop_server_def)
  ultimately show ?thesis using server_integrity [OF no whole rows] r(1) by metis
qed

lemma store_field_broken:
  assumes "field_name f = Some i" "alnum i" "\<not> field_complete f"
    and "\<And>n. \<not> write_fails x (stored_at (upload_dir x) i) n"
    and wr: "writable w (stored_at (upload_dir x) i)"
  shows "store_field x f w = (Panic, drop_node (stored_at (upload_dir x) i)
    (write_file (stored_at (upload_dir x) i) (concat (field_pieces f)) (after_dirs (stored_at (upload_dir x) i) w)))"
proof -
  let ?p = "stored_at (upload_dir x) i"
  have "write_pieces x ?p (field_pieces f) 0 [] True (after_dirs ?p w) =
      write_file ?p (concat (field_pieces f)) (after_dirs ?p w)"
    using write_pieces_ok [OF assms(4), of "field_pieces f" 0 "[]" "after_dirs ?p w"]
    by (simp add: after_dirs_write [OF wr])
  moreover have "i \<noteq> []" using assms(2) by (simp add: alnum_def)
  ultimately show ?thesis
    using assms(1,3)
    by (simp add: store_field_def file_path_alnum [OF assms(2)] lift_res_def
        create_then_write [OF wr] and_then_Pair and_then_def [of "\<lambda>s. (Ok ?p, s)"] remove_file_def write_file_def)
qed

text \<open>Claim C25.
  A stored chunk is not protected. A field named by the id of a chunk that some record names,
  of whatever user, replaces the chunk's content by its own when it arrives whole, since the
  server does not compare the id with a digest; and when it breaks off, the handler panics
  after it has removed the chunk, and the record names a chunk the server no longer has.
\<close>

theorem stored_chunks_unprotected:
  fixes s :: server
  assumes "store_ok (upload_dir (store E)) s" "field_name f = Some i" "alnum i"
    and "\<And>n. \<not> write_fails (store E) (stored_at (upload_dir (store E)) i) n"
    and "r \<in> set (rows s)" "i \<in> set (split_on Metadata.COMMA (sr_chunk_ids r))"
  shows "let (a, s') = store_field (store E) f s in r \<in> set (rows s')
    \<and> (field_complete f \<longrightarrow> a = Ok () \<and>
        content_at s' (stored_at (upload_dir (store E)) i) = Some (concat (field_pieces f)))
    \<and> (\<not> field_complete f \<longrightarrow> a = Panic \<and> \<not> has_chunks E r s')"
proof -
  let ?p = "stored_at (upload_dir (store E)) i"
  let ?w = "write_file ?p (concat (field_pieces f)) (after_dirs ?p s)"
  have wr: "writable s ?p" using assms(1,3) by (simp add: store_ok_def)
  have "files_only s ?w" using after_dirs_facts(1) [OF wr] files_only_write by (rule files_only_trans)
  then have rows: "rows ?w = rows s" "rows (drop_node ?p ?w) = rows s"
    unfolding files_only_def drop_node_def
    by (metis server.select_convs(1) server.surjective world.update_convs(1))+
  show ?thesis
  proof (cases "field_complete f")
    case True
    have "content_at ?w ?p = Some (concat (field_pieces f))" by (simp add: content_at_def write_file_def)
    with True store_field_ok [OF assms(2,3) True assms(4) wr] rows(1) assms(5) show ?thesis by simp
  next
    case False
    have "\<not> present E i (drop_node ?p ?w)"
      using assms(3) by (simp add: present_def present_iff file_path_alnum alnum_def)
    then have "\<not> has_chunks E r (drop_node ?p ?w)" using assms(6) unfolding has_chunks_def by blast
    with False store_field_broken [OF assms(2,3) False assms(4) wr] rows(2) assms(5) show ?thesis by simp
  qed
qed

text \<open>The sample: a field for the chunk of the record that breaks off after a byte.\<close>

definition hit_server :: server where
  "hit_server = sample_server\<lparr>rows :=
     [\<lparr>sr_id = 1, sr_user_id = 1, sr_chunk_ids = ''ab1,c'', sr_deleted = False, sr_path = ''a.cook''\<rparr>]\<rparr>"

theorem stored_chunks_unprotected_witness:
  "let f = \<lparr>field_name = Some ''c'', field_pieces = [[1]], field_complete = False\<rparr>;
       (a, s') = store_field sample_upload_env f hit_server
   in a = Panic \<and> \<not> has_chunks (loop_server\<lparr>store := sample_upload_env\<rparr>) (hd (rows hit_server)) s'"
proof -
  let ?E = "loop_server\<lparr>store := sample_upload_env\<rparr>"
  let ?f = "\<lparr>field_name = Some ''c'', field_pieces = [[1]], field_complete = False\<rparr>"
  have node: "node_at hit_server p = node_at sample_server p" for p
    by (simp add: node_at_def hit_server_def)
  have "store_ok (upload_dir sample_upload_env) hit_server"
    using store_ok_sample_server
    by (simp add: store_ok_def wf_world_def writable_def makeable_def dir_at_def node)
  then have ok: "store_ok (upload_dir (store ?E)) hit_server" by simp
  have "alnum ''c''" by code_simp
  moreover have "\<not> write_fails (store ?E) (stored_at (upload_dir (store ?E)) ''c'') n" for n
    by (simp add: sample_upload_env_def)
  moreover have "hd (rows hit_server) \<in> set (rows hit_server)" by (simp add: hit_server_def)
  moreover have "''c'' \<in> set (split_on Metadata.COMMA (sr_chunk_ids (hd (rows hit_server))))" by code_simp
  ultimately show ?thesis
    using stored_chunks_unprotected [OF ok, where f = ?f and i = "''c''"] by (simp add: split_beta Let_def)
qed

end
