(* ===== verification/Conflicts.thy ===== *)
theory Conflicts
  imports EndToEndProps SessionProps
begin

text \<open>
  Two clients that change the same path, and a deletion whose two halves come apart: what the
  passes of client/src/syncer.rs and client/src/indexer.rs make of them, one after the other.
\<close>

section \<open>The same path on both sides\<close>

text \<open>Claim C28.
  Of two changes of one path the last to be synchronised wins, and nobody is told. A client has
  a local change waiting, the server a newer record of the same path from another client. When
  the client downloads first, the file becomes the server's, and the local change is gone: its
  content from the disk, its row from what is to be uploaded. When it uploads first, its change
  becomes the server's current record of the path, with its own content, and what the other
  client had committed is history.
\<close>

theorem last_sync_wins:
  assumes "check_index_once w (id_gap e) (namespace e) c0 = (Ok b, c)"
    and "hosted E user e v" "complete E user v" "wf_table (records c)"
    and "f \<in> set (updated_locally (namespace e) (records c))" "\<not> deleted f"
    and "record_of user v (path f) = Some (i, del, ids)" "latest_local e c < i"
  shows "(fetchable E user e c v \<longrightarrow> (\<exists>c'. run_download_once e (c, v) = (Ok (), (c', v))
      \<and> content_at c' (full_path c (path f)) =
          (if del then None else Some (stored_content (chunk_at E v) (split_on Syncer.COMMA ids)))
      \<and> path f \<notin> path ` set (updated_locally (namespace e) (records c'))))
    \<and> (sendable e c v \<and> no_clash E e c v \<longrightarrow>
        (\<exists>c' v' j ids'. run_upload_once w e (c0, v) = (Ok (), (c', v'))
          \<and> record_of user v' (path f) = Some (j, False, ids')
          \<and> Some (stored_content (chunk_at E v') (split_on Syncer.COMMA ids')) = content_at c (full_path c (path f))))"
proof (intro conjI impI)
  assume fetch: "fetchable E user e c v"
  let ?d = "\<lparr>rr_id = i, rr_path = path f, rr_deleted = del, rr_chunk_ids = ids\<rparr>"
  have new: "?d \<in> news (record_of user v) (latest_local e c)" using assms(7,8) by (simp add: news_def)
  from downloaded_from_server [OF assms(2,3) fetch] obtain ds c' where
    r: "check_download_once e (c, v) = (Ok (ds \<noteq> []), (c', v))"
    "set ds = news (record_of user v) (latest_local e c)"
    "\<forall>d \<in> set ds. received e c c' (chunk_at E v) d" "wf_table (records c) \<longrightarrow> wf_table (records c')" by blast
  have got: "received e c c' (chunk_at E v) ?d" using r(2,3) new by blast
  then have there: "content_at c' (full_path c (path f)) =
      (if del then None else Some (stored_content (chunk_at E v) (split_on Syncer.COMMA ids)))"
    by (auto simp: received_def record_ids_def file_at_content split: if_splits)
  from got obtain q where "registry_view (namespace e) (records c') (path f) = Some q" "jid q = Some i"
    by (auto simp: received_def)
  then have "path f \<notin> path ` set (updated_locally (namespace e) (records c'))"
    using set_updated_locally [of "records c'" "namespace e"] r(4) assms(4) by auto
  moreover have "run_download_once e (c, v) = (Ok (), (c', v))"
    using r(1) by (simp add: run_download_once_def and_then_def ret_def)
  ultimately show "\<exists>c'. run_download_once e (c, v) = (Ok (), (c', v))
      \<and> content_at c' (full_path c (path f)) =
          (if del then None else Some (stored_content (chunk_at E v) (split_on Syncer.COMMA ids)))
      \<and> path f \<notin> path ` set (updated_locally (namespace e) (records c'))" using there by blast
next
  assume "sendable e c v \<and> no_clash E e c v"
  then have s: "sendable e c v" "no_clash E e c v" by blast+
  from uploaded_to_server [OF assms(2) s(1) assms(3) s(2)] obtain c' v' where
    r: "upload_passes e (c, v) = (Ok (), (c', v'))"
    "\<forall>f \<in> set (updated_locally (namespace e) (records c)). \<exists>j ids.
        record_of user v' (path f) = Some (j, deleted f, ids) \<and> 0 < j \<and>
        registry_view (namespace e) (records c') (path f) = Some (f\<lparr>jid := Some j\<rparr>) \<and>
        (\<not> deleted f \<longrightarrow> Some (stored_content (chunk_at E v') (split_on Syncer.COMMA ids)) =
          content_at c (full_path c (path f)))" by blast
  from r(2) assms(5,6) obtain j ids' where f: "record_of user v' (path f) = Some (j, False, ids')"
    "Some (stored_content (chunk_at E v') (split_on Syncer.COMMA ids')) = content_at c (full_path c (path f))"
    by fastforce
  with f run_upload_once_eq [OF assms(1), of v] r(1)
  show "\<exists>c' v' j ids'. run_upload_once w e (c0, v) = (Ok (), (c', v'))
          \<and> record_of user v' (path f) = Some (j, False, ids')
          \<and> Some (stored_content (chunk_at E v') (split_on Syncer.COMMA ids')) = content_at c (full_path c (path f))"
    by (intro exI [of _ c'] exI [of _ v'] exI [of _ j] exI [of _ ids']) simp
qed

text \<open>
  A server on which another client has deleted \<open>d/a.cook\<close>, which the sample client has on disk,
  with an own change that waits.
\<close>

definition deleted_server :: server where
  "deleted_server = bare_server\<lparr>rows :=
     [\<lparr>sr_id = 1, sr_user_id = 7, sr_chunk_ids = [], sr_deleted = True, sr_path = ''d/a.cook''\<rparr>]\<rparr>"

definition gone_record :: response_record where
  "gone_record = \<lparr>rr_id = 1, rr_path = ''d/a.cook'', rr_deleted = True, rr_chunk_ids = []\<rparr>"

lemma deleted_server_node: "node_at deleted_server p = node_at bare_server p"
  by (simp add: node_at_def deleted_server_def)

lemma deleted_server_facts:
  "chunk_at loop_server deleted_server i = None"
  "record_of 7 deleted_server = [''d/a.cook'' \<mapsto> (1, True, [])]"
proof -
  show "chunk_at loop_server deleted_server i = None"
    using bare_facts(1) [of i] by (simp add: chunk_at_def content_at_def deleted_server_node split: if_splits)
  show "record_of 7 deleted_server = [''d/a.cook'' \<mapsto> (1, True, [])]"
    by (rule ext) (simp add: record_of_def deleted_server_def server_view_def latest_def)
qed

lemma hosted_deleted: "hosted loop_server 7 (loop_sync u ns) deleted_server"
proof -
  have "server_ok loop_server bare_server" using hosted_bare by (simp add: hosted_def)
  then have "server_ok loop_server deleted_server"
    unfolding server_ok_def store_ok_def wf_world_def writable_def makeable_def dir_at_def deleted_server_node
    by (simp add: deleted_server_def ids_sorted_def)
  then show ?thesis using linked_loop by (simp add: hosted_def)
qed

lemma news_deleted: "news (record_of 7 deleted_server) 0 = {gone_record}"
  by (auto simp: news_def deleted_server_facts gone_record_def split: if_splits)

lemma complete_deleted: "complete loop_server 7 deleted_server"
  unfolding complete_def news_deleted by (simp add: all_stored_def gone_record_def)

lemma deleted_queue:
  "fst (upload_files sync_a [pending_row] empty_queue True (pending_client, deleted_server)) =
   Ok (\<lparr>closed = [], current_batch = [(''026b000000'', [97, 10]), (''0162000000'', [98])], batch_size = 3\<rparr>, False)"
  by code_simp

lemma sendable_deleted: "sendable sync_a pending_client deleted_server"
proof -
  have "batches_fit batch_fits sync_a pending_client deleted_server"
    unfolding batches_fit_def loop_sync_fields pending_todo deleted_queue
    using pending_batch_fits by (simp add: batches_def loop_sync_def)
  with sendable_pending show ?thesis by (simp add: sendable_def)
qed

lemma no_clash_deleted: "no_clash loop_server sync_a pending_client deleted_server"
  unfolding no_clash_def Let_def loop_sync_fields pending_todo list.set deleted_server_facts pending_known by auto

lemma latest_pending: "latest_local sync_a pending_client = 0"
  by code_simp

lemma fetchable_deleted: "fetchable loop_server 7 sync_a pending_client deleted_server"
proof -
  have "node_at pending_client (full_path pending_client ''d/a.cook'') \<noteq> Some Dir"
    using pending_row_facts(1,5) by (auto simp: content_at_def)
  then have "room_for pending_client st {gone_record}" for st
    by (simp add: room_for_def warmable_def place_free_def gone_record_def)
  moreover have "fetch_fits fits st sync_a ds pending_client v" if "distinct ds" "set ds = {gone_record}"
    for fits st v and ds :: "response_record list"
  proof -
    from that have "ds = [gone_record]" by (cases ds; cases "tl ds") auto
    moreover have "cache pending_client = Map.empty"
      by (simp add: pending_client_def sample_chunker_def chunker.defs)
    ultimately show ?thesis by (simp add: fetch_fits_def gone_record_def ret_def list_all_iff)
  qed
  ultimately show ?thesis
    using digest_ok_sample by (simp add: fetchable_def Let_def latest_pending news_deleted)
qed

theorem last_sync_wins_witness:
  "(\<exists>c'. run_download_once sync_a (pending_client, deleted_server) = (Ok (), (c', deleted_server))
      \<and> content_at c' (full_path pending_client ''d/a.cook'') = None)
   \<and> (\<exists>c' v' j ids. run_upload_once sample_walker sync_a (pending_client, deleted_server) = (Ok (), (c', v'))
      \<and> record_of 7 v' ''d/a.cook'' = Some (j, False, ids))"
proof -
  have todo: "pending_row \<in> set (updated_locally (namespace sync_a) (records pending_client))"
    by (simp add: pending_todo)
  have live: "\<not> deleted pending_row" using pending_row_facts(2) by simp
  have rec: "record_of 7 deleted_server (path pending_row) = Some (1, True, [])"
    by (simp add: pending_row_facts(1) deleted_server_facts)
  have late: "latest_local sync_a pending_client < 1" by (simp add: latest_pending)
  note r = last_sync_wins [OF index_pending_a hosted_deleted complete_deleted wf_pending_client todo live rec late,
      unfolded pending_row_facts(1)]
  from r [THEN conjunct1] fetchable_deleted have
    "\<exists>c'. run_download_once sync_a (pending_client, deleted_server) = (Ok (), (c', deleted_server))
      \<and> content_at c' (full_path pending_client ''d/a.cook'') = None" by auto
  moreover from r [THEN conjunct2] sendable_deleted no_clash_deleted have
    "\<exists>c' v' j ids. run_upload_once sample_walker sync_a (pending_client, deleted_server) = (Ok (), (c', v'))
      \<and> record_of 7 v' ''d/a.cook'' = Some (j, False, ids)" by blast
  ultimately show ?thesis by blast
qed

section \<open>Half a deletion\<close>

lemma record_deletion_eq:
  "record_deletion e d c = (Ok (exists_file (rr_path d) c),
     c\<lparr>records := delete_records (id_gap e)
        [build_delete_form (rr_path d) (clock c) (rr_id d) (namespace e)] (records c)\<rparr>)"
  by (simp add: record_deletion_def set_records_def and_then_def prog_simps exists_file_def full_path_def exists_path_def)

lemma indexed_exists: "indexed w (base_path c) c p \<Longrightarrow> exists_file p c"
  by (auto simp: indexed_def walked_def exists_file_def exists_path_def full_path_def node_at_def)

text \<open>An index pass after the first half: the file is taken for a new one.\<close>

lemma cut_deletion_indexed:
  assumes "walker_ok w" "wf_table (records c)" "storage_ok w (base_path c) c"
    and "indexed w (base_path c) c (rr_path d)" "record_deletion e d c = (Ok present, c1)"
    and "check_index_once w (id_gap e) (namespace e) c1 = (Ok b, c2)"
  shows "files c2 = files c" "base_path c2 = base_path c" "cache c2 = cache c" "wf_table (records c2)"
    "\<exists>f \<in> set (updated_locally (namespace e) (records c2)). path f = rr_path d \<and> \<not> deleted f"
proof -
  let ?form = "build_delete_form (rr_path d) (clock c) (rr_id d) (namespace e)"
  have c1: "c1 = c\<lparr>records := delete_records (id_gap e) [?form] (records c)\<rparr>"
    using assms(5) by (simp add: record_deletion_eq)
  have wf: "wf_table (records c1)" using assms(2) by (simp add: c1)
  have same: "files c1 = files c" "base_path c1 = base_path c" "dir_meta c1 = dir_meta c" by (simp_all add: c1)
  have "storage_ok w (base_path c1) c1" using assms(3) unfolding storage_ok_def same .
  from check_index_once_spec [OF assms(1) wf this, of "id_gap e" "namespace e"] assms(6) obtain rows where
    c2: "c2 = c1\<lparr>records := rows\<rparr>" and r: "refreshed w (namespace e) c1 rows" by auto
  show "files c2 = files c" "base_path c2 = base_path c" "cache c2 = cache c" by (simp_all add: c2 c1)
  show wf2: "wf_table (records c2)" using refreshed_wf [OF r] by (simp add: c2)
  obtain i where "registry_view (namespace e) (records c1) (rr_path d) = Some (deleted_row i ?form)"
    using deletes.latest_ins_touched [of "[?form]" ?form "\<lambda>r. namespace_id r = namespace e" "id_gap e" "records c"]
    by (auto simp: registry_view_def c1 deleted_row_def build_delete_form_def)
  then have dead: "live_view (namespace e) (records c1) (rr_path d) = None"
    by (simp add: live_view_def deleted_row_def build_delete_form_def)
  have "indexed w (base_path c1) c1 (rr_path d)" using assms(4) unfolding indexed_def same .
  then obtain x where x: "disk_view w (base_path c1) (namespace e) c1 (rr_path d) = Some x"
    by (simp add: disk_view_def)
  note dx = disk_view_SomeD [OF x]
  with dead have "out_of_date w (namespace e) c1 (rr_path d)" by (simp add: out_of_date_def changed_def x)
  from refreshed_changed [OF r this] x obtain j where
    "registry_view (namespace e) rows (rr_path d) = Some (created_row j x)" by auto
  then have "created_row j x \<in> set (updated_locally (namespace e) (records c2))"
    using dx wf2 by (simp add: set_updated_locally c2 created_row_def)
  then show "\<exists>f \<in> set (updated_locally (namespace e) (records c2)). path f = rr_path d \<and> \<not> deleted f"
    by (rule bexI [rotated]) (simp add: dx created_row_def)
qed

text \<open>Claim C27.
  A deletion that is cut in half is undone for everybody. A download records another client's
  deletion in the registry before it removes the file. If the program ends in between, or the
  removal fails, the next run does not remove the file: the index pass takes it for a new one,
  and the upload makes it the server's current record of the path again, live and with the old
  content, in the place of the other client's deletion.
\<close>

theorem cut_deletion_undone:
  assumes "walker_ok w" "wf_table (records c)" "storage_ok w (base_path c) c"
    and "indexed w (base_path c) c (rr_path d)" "record_deletion e d c = (Ok present, c1)"
    and "record_of user v (rr_path d) = Some (rr_id d, True, rr_chunk_ids d)"
    and "check_index_once w (id_gap e) (namespace e) c1 = (Ok b, c2)"
    and "hosted E user e v" "complete E user v" "sendable e c2 v" "no_clash E e c2 v"
  shows "present \<and> files c1 = files c
    \<and> (\<exists>c' v' j ids. run_upload_once w e (c1, v) = (Ok (), (c', v')) \<and> files c' = files c
        \<and> record_of user v' (rr_path d) = Some (j, False, ids)
        \<and> Some (stored_content (chunk_at E v') (split_on Syncer.COMMA ids)) =
            content_at c (full_path c (rr_path d)))"
proof -
  note ix = cut_deletion_indexed [OF assms(1-5,7)]
  from ix(5) obtain f where f: "f \<in> set (updated_locally (namespace e) (records c2))"
    "path f = rr_path d" "\<not> deleted f" by blast
  from uploaded_to_server [OF assms(8,10,9,11)] obtain c' v' where
    r: "upload_passes e (c2, v) = (Ok (), (c', v'))" "tree_kept c2 c'"
    "\<forall>f \<in> set (updated_locally (namespace e) (records c2)). \<exists>j ids.
        record_of user v' (path f) = Some (j, deleted f, ids) \<and> 0 < j \<and>
        registry_view (namespace e) (records c') (path f) = Some (f\<lparr>jid := Some j\<rparr>) \<and>
        (\<not> deleted f \<longrightarrow> Some (stored_content (chunk_at E v') (split_on Syncer.COMMA ids)) =
          content_at c2 (full_path c2 (path f)))" by blast
  from r(3) f obtain j ids where j: "record_of user v' (rr_path d) = Some (j, False, ids)"
    "Some (stored_content (chunk_at E v') (split_on Syncer.COMMA ids)) = content_at c2 (full_path c2 (rr_path d))"
    by fastforce
  have "content_at c2 (full_path c2 (rr_path d)) = content_at c (full_path c (rr_path d))"
    by (simp add: content_at_def node_at_def full_path_def ix(1,2))
  moreover have "files c' = files c" using tree_keptD [OF r(2)] ix(1) by simp
  moreover have "present" "files c1 = files c"
    using assms(5) indexed_exists [OF assms(4)] by (auto simp: record_deletion_eq)
  ultimately show ?thesis
    using run_upload_once_eq [OF assms(7), of v] r(1) j
    by (intro conjI exI [of _ c'] exI [of _ v'] exI [of _ j] exI [of _ ids]) simp_all
qed

text \<open>The sample client after half of the deletion, and after the next index pass.\<close>

definition half_client :: client where
  "half_client = snd (record_deletion sync_a gone_record pending_client)"

definition again_client :: client where
  "again_client = snd (check_index_once sample_walker (\<lambda>_. 0) 1 half_client)"

definition again_row :: file_record where
  "again_row = hd (updated_locally 1 (records again_client))"

lemma walker_storage_pending: "storage_ok sample_walker (base_path pending_client) pending_client"
proof -
  have same: "files pending_client = files sample_client" "base_path pending_client = base_path sample_client"
    "dir_meta pending_client = dir_meta sample_client"
    by (simp_all add: pending_client_def sample_client_def chunker.defs)
  show ?thesis using storage_sample_client unfolding storage_ok_def same .
qed

lemma again_queue:
  "fst (upload_files sync_a [again_row] empty_queue True (again_client, deleted_server)) =
   Ok (\<lparr>closed = [], current_batch = [(''026b000000'', [97, 10]), (''0162000000'', [98])], batch_size = 3\<rparr>, False)"
  by code_simp

lemma again_facts:
  "updated_locally 1 (records again_client) = [again_row]"
  "path again_row = ''d/a.cook''" "deleted again_row = False"
  "content_at again_client (full_path again_client (path again_row)) = Some [97, 10, 98]"
  "chunk_list sample_externals again_client again_row = [[97, 10], [98]]"
  "fst (check_index_once sample_walker (\<lambda>_. 0) 1 half_client) = Ok True"
  "commit_fits sync_a (path again_row) (deleted again_row)
      (commit_ids sample_externals again_client again_row) = True"
  by code_simp+

lemma half_deletion: "record_deletion sync_a gone_record pending_client = (Ok True, half_client)"
proof -
  have "fst (record_deletion sync_a gone_record pending_client) = Ok True" by code_simp
  then show ?thesis unfolding half_client_def prod_eq_iff fst_conv snd_conv by (intro conjI refl)
qed

lemma index_again: "check_index_once sample_walker (id_gap sync_a) (namespace sync_a) half_client = (Ok True, again_client)"
  unfolding loop_sync_fields again_client_def prod_eq_iff again_facts(6) fst_conv snd_conv by (intro conjI refl)

lemma indexed_gone: "indexed sample_walker (base_path pending_client) pending_client (rr_path gone_record)"
proof -
  have "disk_view sample_walker (base_path pending_client) 1 pending_client (rr_path gone_record) \<noteq> None"
    by code_simp
  then show ?thesis by (simp add: disk_view_def split: if_splits)
qed

lemmas again_indexed = cut_deletion_indexed [OF walker_ok_sample wf_pending_client walker_storage_pending
    indexed_gone half_deletion index_again]

lemma sendable_again: "sendable sync_a again_client deleted_server"
proof -
  have "batches_fit batch_fits sync_a again_client deleted_server"
    unfolding batches_fit_def loop_sync_fields again_facts(1) again_queue
    using pending_batch_fits by (simp add: batches_def loop_sync_def)
  moreover have "listed (path again_row)" using pending_row_facts(1,3) again_facts(2) by simp
  moreover have "is_text (components (path again_row))" using pending_row_facts(1,4) again_facts(2) by simp
  ultimately show ?thesis
    using digest_ok_sample again_indexed(4) again_facts(2-5,7)
    by (simp add: sendable_def again_facts(1) uploadable_def steady_def)
qed

lemma no_clash_again: "no_clash loop_server sync_a again_client deleted_server"
proof -
  have "cache again_client = Map.empty"
    unfolding again_indexed(3) by (simp add: pending_client_def sample_chunker_def chunker.defs)
  moreover have "hash_size_of (path again_row) = 10" by code_simp
  ultimately have "known sample_externals again_client {again_row} i d \<longleftrightarrow>
      (i, d) \<in> {(''026b000000'', [97, 10]), (''0162000000'', [98])}" for i d
    using again_facts(3,5) ids_sample by (auto simp: known_def)
  then show ?thesis
    unfolding no_clash_def Let_def loop_sync_fields again_facts(1) list.set deleted_server_facts by auto
qed

theorem cut_deletion_undone_witness:
  "\<exists>c' v' j ids. run_upload_once sample_walker sync_a (half_client, deleted_server) = (Ok (), (c', v'))
     \<and> record_of 7 v' ''d/a.cook'' = Some (j, False, ids)
     \<and> stored_content (chunk_at loop_server v') (split_on Syncer.COMMA ids) = [97, 10, 98]"
proof -
  have rec: "record_of 7 deleted_server (rr_path gone_record) = Some (rr_id gone_record, True, rr_chunk_ids gone_record)"
    by (simp add: deleted_server_facts gone_record_def)
  have there: "content_at pending_client (full_path pending_client (rr_path gone_record)) = Some [97, 10, 98]"
    using pending_row_facts(1,5) by (simp add: gone_record_def)
  from cut_deletion_undone [OF walker_ok_sample wf_pending_client walker_storage_pending indexed_gone half_deletion
      rec index_again hosted_deleted complete_deleted sendable_again no_clash_again] there
  show ?thesis by (auto simp: gone_record_def)
qed

end
