(* ===== verification/Boot.thy ===== *)
theory Boot
  imports Polling Interleaving
begin

text \<open>
  How the server starts and stops (server/src/main.rs, the pool and migrations of
  server/src/metadata, \<open>create_server_with_shutdown\<close>). Starting reads the environment and
  panics on whatever is missing. A running server is its polls, whether it was told to stop
  and whether \<open>axum::serve\<close> has returned; requests other than polls are answered at once.

  Parameters (\<open>boot_env\<close>): the environment variables, parsing a socket address, and whether
  the pool, the migrations and the listener can be had. Of axum's graceful shutdown: it takes
  no new request, waits for those in flight, and then returns.
\<close>

section \<open>Starting\<close>

record boot_env =
  env_var :: "string \<Rightarrow> string option"
  parse_socket_addr :: "string \<Rightarrow> string option"
  opens :: "string \<Rightarrow> bool"
  migrates :: "string \<Rightarrow> bool"
  binds :: "string \<Rightarrow> bool"

definition DEFAULT_DATABASE_URL :: string where "DEFAULT_DATABASE_URL = ''db/server.sqlite3''"

definition var_or :: "boot_env \<Rightarrow> string \<Rightarrow> string \<Rightarrow> string" where
  "var_or b name otherwise = (case env_var b name of Some v \<Rightarrow> v | None \<Rightarrow> otherwise)"

definition expect :: "bool \<Rightarrow> ('s, unit, unit) prog" where
  "expect ok = (if ok then ret () else panic)"

text \<open>\<open>Db::new\<close> and \<open>run_migrations\<close>: what fails is an \<open>expect\<close>.\<close>

definition db_new :: "boot_env \<Rightarrow> string \<Rightarrow> ('s, unit, unit) prog" where
  "db_new b database_url = expect (opens b database_url)"

definition run_migrations :: "boot_env \<Rightarrow> string \<Rightarrow> ('s, unit, unit) prog" where
  "run_migrations b database_url = expect (migrates b database_url)"

record running_server =
  polls :: poll_state
  stop_requested :: bool
  listening :: bool

definition create_server_with_shutdown :: "boot_env \<Rightarrow> ('s, unit, running_server) prog" where
  "create_server_with_shutdown b =
     (let database_url = var_or b ''DATABASE_URL'' DEFAULT_DATABASE_URL in
      and_then (db_new b database_url) (\<lambda>_.
      and_then (run_migrations b database_url) (\<lambda>_.
        ret \<lparr>polls = no_clients, stop_requested = False, listening = True\<rparr>)))"

definition server_main :: "boot_env \<Rightarrow> ('s, unit, string \<times> running_server) prog" where
  "server_main b =
     (case parse_socket_addr b (var_or b ''ADDRESS'' ''127.0.0.1'' @ '':'' @ var_or b ''PORT'' ''8000'') of
        None \<Rightarrow> panic
      | Some addr \<Rightarrow>
          and_then (create_server_with_shutdown b) (\<lambda>app.
          and_then (expect (binds b addr)) (\<lambda>_. ret (addr, app))))"

section \<open>Serving and stopping\<close>

text \<open>
  A waiting poll ends when it is notified, when its time is over, or when the server is told to
  stop; it then removes its entry.
\<close>

inductive server_turn :: "running_server \<Rightarrow> running_server \<Rightarrow> bool" where
  answered: "(u, k) \<in> waiting (polls s) \<Longrightarrow>
    server_turn s (s\<lparr>polls := (polls s)\<lparr>hub := unregister u (hub (polls s)),
      waiting := waiting (polls s) - {(u, k)}\<rparr>\<rparr>)"
| returned: "stop_requested s \<Longrightarrow> waiting (polls s) = {} \<Longrightarrow> listening s \<Longrightarrow>
    server_turn s (s\<lparr>listening := False\<rparr>)"

inductive outside_turn :: "running_server \<Rightarrow> running_server \<Rightarrow> bool" where
  ctrl_c: "outside_turn s (s\<lparr>stop_requested := True\<rparr>)"
| polling: "\<not> stop_requested s \<Longrightarrow> register u (hub (polls s)) = (k, n) \<Longrightarrow>
    outside_turn s (s\<lparr>polls := \<lparr>hub = n, waiting = insert (u, k) (waiting (polls s))\<rparr>\<rparr>)"
| gone: "(u, k) \<in> waiting (polls s) \<Longrightarrow>
    outside_turn s (s\<lparr>polls := (polls s)\<lparr>waiting := waiting (polls s) - {(u, k)}\<rparr>\<rparr>)"
| commits: "outside_turn s (s\<lparr>polls := (polls s)\<lparr>hub := notify u (hub (polls s))\<rparr>\<rparr>)"

inductive_cases server_turnE: "server_turn s t"
inductive_cases outside_turnE: "outside_turn s t"

text \<open>What is left to do once it was told: the polls to answer, and to return.\<close>

definition left_to_do :: "running_server \<Rightarrow> nat" where
  "left_to_do s = card (waiting (polls s)) + (if listening s then 1 else 0)"

definition stopping_server :: "running_server \<Rightarrow> bool" where
  "stopping_server s \<longleftrightarrow> stop_requested s \<and> finite (waiting (polls s)) \<and>
     (\<not> listening s \<longrightarrow> waiting (polls s) = {})"

lemma one_fewer: "finite A \<Longrightarrow> x \<in> A \<Longrightarrow> card A - Suc 0 < card A"
  by (metis One_nat_def card_gt_0_iff diff_less empty_iff zero_less_one)

interpretation shutting: winding_down server_turn outside_turn stopping_server
    "\<lambda>s. \<not> listening s" less_than left_to_do
proof
  show "stopping_server t \<and> (left_to_do t, left_to_do s) \<in> less_than"
    if "stopping_server s" "server_turn s t" for s t
    using that(2,1) by (cases rule: server_turn.cases)
      (auto simp: stopping_server_def left_to_do_def dest: one_fewer)
  show "stopping_server t \<and> (left_to_do t, left_to_do s) \<in> less_than\<^sup>="
    if "stopping_server s" "outside_turn s t" for s t
    using that(2,1) by (cases rule: outside_turn.cases)
      (auto simp: stopping_server_def left_to_do_def dest: one_fewer)
  show "\<exists>t. server_turn s t" if "stopping_server s" "\<not> \<not> listening s" for s
  proof (cases "waiting (polls s) = {}")
    case True
    with that show ?thesis by (auto simp: stopping_server_def intro: server_turn.returned)
  next
    case False
    then obtain u k where "(u, k) \<in> waiting (polls s)" by auto
    then show ?thesis by (blast intro: server_turn.answered)
  qed
qed simp

section \<open>Properties\<close>


definition sample_shutdown :: "nat \<Rightarrow> running_server" where
  "sample_shutdown i =
     \<lparr>polls = \<lparr>hub = \<lparr>clients = (if i = 0 then [(''u1'', 0)] else []), fired = {}, fresh = 1\<rparr>,
              waiting = (if i = 0 then {(''u1'', 0)} else {})\<rparr>,
      stop_requested = True, listening = i \<le> 1\<rparr>"


end
