(* ===== verification/Spec2Isabelle.thy ===== *)
theory Spec2Isabelle
  imports EndToEndProps Network SessionOneOff SessionHazards StartupProps ServerProps HazardProps SyncerProps
    ChunkerProps IndexerProps MultipartProps StoreProps MetadataProps Polling Faults Racing Integrity Conflicts Boot ErrorPages
begin

text \<open>
  A model of cooklang-sync and the theorems that make it correct. The program keeps a directory
  of recipes in step between a user's machines: a client (client/src) indexes its storage
  directory into a local registry, cuts files into chunks named by their digest, uploads
  missing chunks and commits records to a server (server/src), and downloads what other
  clients have committed; the server stores chunks by id and keeps a journal of records.

  \<^bold>\<open>The parts and their theories.\<close>

  \<^item> \<open>Prelude\<close>, \<open>StdText\<close>: outcomes \<open>res\<close> (\<open>Ok\<close>, \<open>Err\<close>, \<open>Panic\<close>) and programs \<open>prog\<close> (a state to an
    outcome and a state), with \<open>and_then\<close>, \<open>map_err\<close>, \<open>for_each\<close>; the collections
    \<open>prog_simps\<close> and \<open>prog_intros\<close>; splitting and joining, windows, lines, UTF-8.
  \<^item> \<open>Paths\<close>, \<open>World\<close>, \<open>WorldFacts\<close>: \<open>std::path\<close> as lists of components; the file system as a record
    of nodes, directory metadata and the clock, with the calls of \<open>std::fs\<close> the source makes and
    their errors; what each call keeps.
  \<^item> \<open>Chunker\<close> (client/src/chunker.rs, errors.rs), \<open>ChunkerFacts\<close>, \<open>ChunkerProps\<close>: \<open>Chunker\<close> and
    \<open>InMemoryCache\<close>. \<open>hashify\<close> cuts a file, \<open>save\<close> puts one together, \<open>delete\<close> removes one with the
    directories it empties. The cache is the locale \<open>chunk_cache\<close>, interpreted on the code's
    cache with any eviction policy, and \<open>reliable_cache\<close> for one that evicts nothing.
  \<^item> \<open>Journal\<close>: the locale \<open>journal\<close>, a table that only grows, whose last row for a key is current;
    both databases are interpretations.
  \<^item> \<open>Registry\<close> (client/src/registry.rs, models.rs): the client's table and every query on it.
  \<^item> \<open>Indexer\<close> (client/src/indexer.rs), \<open>IndexerFacts\<close>, \<open>IndexerProps\<close>: \<open>check_index_once\<close>: the walk,
    the comparison with the registry, the rows written.
  \<^item> \<open>Http\<close>, \<open>Remote\<close> (client/src/remote.rs), \<open>RemoteFacts\<close>: messages; the requests of the HTTP client
    and what it makes of the answers, with the hand-written parser of a multipart stream.
  \<^item> \<open>Syncer\<close> (client/src/syncer.rs and the one-off entry points of lib.rs), \<open>SyncerFacts\<close>,
    \<open>SyncerProps\<close>: \<open>check_upload_once\<close> and \<open>check_download_once\<close> over the client's state and any
    server's.
  \<^item> \<open>Interleaving\<close>: programs that run against an environment, finite and infinite runs, and the
    locale \<open>winding_down\<close>: a program that was told to stop and is given its turn ends.
  \<^item> \<open>Context\<close> (client/src/context.rs), \<open>Session\<close> (\<open>run\<close> of indexer.rs, \<open>download_loop\<close> and
    \<open>upload_loop\<close> of syncer.rs, \<open>run_async\<close> of lib.rs): the continuous sync as the step relations
    \<open>indexer_step\<close>, \<open>downloader_step\<close>, \<open>uploader_step\<close>, their union \<open>own_step\<close>, and \<open>env_step\<close>, what the
    caller, the user, the watcher and other clients do in between. \<open>SessionFacts\<close>: what the parts
    of a pass do to the registry. \<open>SessionSteps\<close>: what steps keep, and the rank that falls once
    a session is cancelled (an interpretation of \<open>winding_down\<close>). \<open>SessionInvariants\<close>: what holds
    in every reachable state. \<open>SessionRuns\<close>: that the steps compute the passes (the locale
    \<open>phased\<close>, interpreted on both loops). \<open>SessionProps\<close>, \<open>SessionOneOff\<close>, \<open>SessionHazards\<close>: the
    properties. \<open>Network\<close>: any number of sessions on one server; each is a session under the
    interference of the others, and their steps compose into deliveries.
  \<^item> \<open>Startup\<close> (client/src/main.rs, the entry points of lib.rs, connection.rs and the migrations,
    file_watcher.rs), \<open>StartupProps\<close>: from the command line to the first step of a session, with
    everything that can be missing.
  \<^item> \<open>ChunkStore\<close> (server/src/chunk_id.rs, chunks), \<open>StoreFacts\<close>, \<open>StoreProps\<close>: where a chunk is
    stored; uploading, retrieving, downloading. \<open>MultipartFacts\<close>, \<open>MultipartProps\<close>: the server's
    multipart response against the client's parser.
  \<^item> \<open>Metadata\<close> (server/src/metadata), \<open>MetadataProps\<close>: the journal of records, commit, list,
    has_files and the notifier. \<open>Polling\<close>: registered, waiting and finished polls interleaved with
    commits, as a step relation. \<open>Racing\<close>: commits that overlap, each in the parts between which
    other requests run. \<open>Faults\<close>: the handlers when a connection or a query fails. \<open>Boot\<close> (server/src/main.rs): starting from the environment, and
    graceful shutdown with polls in flight, the second interpretation of \<open>winding_down\<close>.
  \<^item> \<open>Auth\<close> (server/src/auth) and \<open>ErrorPages\<close> (server/src/error.rs).
  \<^item> \<open>Server\<close> (server/src/lib.rs, the routers, extract.rs), \<open>ServerProps\<close>: the whole server as one
    function \<open>serve\<close> from a request and a state to a response and a state. \<open>Integrity\<close>: what any
    sequence of requests, whoever sends them, leaves of the server's data.
  \<^item> \<open>Service\<close>, \<open>Landing\<close>: the locale \<open>sync_service\<close>, the contract between the syncer and a server
    (laws of commit, upload, list and download), with the upload and the download pass proved
    inside it. \<open>Hosting\<close> interprets it on \<open>serve\<close> behind the HTTP client. \<open>EndToEnd\<close>,
    \<open>EndToEndProps\<close>: both programs together. \<open>Loopback\<close>: one concrete transport and encoding, on
    which the samples run. \<open>HazardProps\<close>: behaviours of the two programs together that lose or
    block changes; \<open>Conflicts\<close>: two clients that change one path, and a deletion cut in half.
    \<open>Samples\<close>: small concrete states.

  \<^bold>\<open>State.\<close> A client is \<open>client\<close>: the file tree (\<open>world\<close>), the base path and cache (\<open>chunker\<close>), and
  the rows of its registry. A server is \<open>server\<close>: a file tree with the chunks, the rows of its
  database, and the notifier. A run of the syncer is a program on a pair of both; the client
  operations work on the left, and whatever \<open>send\<close> does on the right. A \<open>session\<close> is such a pair
  with the caller's context, the calls its listener has received, the two channels, where each
  of the three loops is, and how it has ended. A \<open>host\<close> is what outlives a process: the database
  files, the disk and the server.

  \<^bold>\<open>What is shown.\<close> Of each component: its functional behaviour on every branch
  with the errors; that a save undoes a hashify; that an index pass makes the registry agree with
  the disk and a second one finds nothing; that the queries are what the journal says; that the
  streaming parser reads back what the server writes, however the network cuts it; that uploaded
  chunks are retrieved; the outcomes of a commit, also of commits that overlap or meet a failing
  database and are repeated; that a commit wakes every other poll; the decision table of the
  authentication; that whatever is requested the journal only grows and, while uploads arrive whole,
  never names a chunk that is not stored. Of the composition: an upload against any server only
  gives ids to waiting rows and sends only chunks named by their digest; against this server two
  passes suffice; a download makes the client a mirror; and what one client uploads another one
  gets, file for file. Of the continuous sync, under every interleaving: a cancelled session ends;
  no local change is forgotten; the registry stays typed; the listener hears exactly what happened;
  and the steps compute the passes, so that a session can do what the one-off upload does and, with
  this server, settle; several clients on one server keep all this, and deliver their changes to
  each other. Of starting and stopping: who is told of a failure, the user a command runs as, that a
  server told to stop stops. Where the program does not do what it means to, a theorem shows it
  (absolute ids, stored chunks that a broken upload removes, commits recorded twice, deletions
  undone, local changes overwritten, failed writes, truncated files, hidden changes, oversized
  batches, directories named like recipes, a download-only session that stalls, a vanished file that
  ends the session, polls that lose their wake-up).

  \<^bold>\<open>Parameters.\<close> Code outside the repository is a field of a record an operation is given: SHA-256,
  the eviction of quick_cache, the sizes of short reads and what a dropped BufWriter has
  flushed (\<open>externals\<close>); the directory walk, symbolic links and the order of hash maps
  (\<open>walker\<close>); sending, header validity, form and JSON codecs (\<open>http\<close>); multer, form decoding and
  write faults (\<open>store_env\<close>); id gaps and row order (\<open>metadata_env\<close>); jsonwebtoken, the environment
  and the clock (\<open>auth_env\<close>); \<open>Debug\<close> of errors and the message of a closed channel (\<open>run_env\<close>);
  runtimes, watchers, pools, base64 and JSON of a token (\<open>platform\<close>, \<open>boot_env\<close>); query, form and JSON
  decoding of the routes (\<open>server_env\<close>). What a theorem relies on is a named predicate
  (\<open>digest_ok\<close>, \<open>no_eviction\<close>, \<open>walker_ok\<close>, \<open>linked\<close> with \<open>relayed\<close>, \<open>codecs\<close> and
  \<open>multer_reads\<close>), and its witness instantiates it.

  \<^bold>\<open>Bounds.\<close> Loops are structural or have a measure (the buffer of the parser, the bytes left
  to read, the depth of a directory); there is no fuel. The endless loops are step relations;
  that they end is a theorem about infinite executions in which the program is given its turn
  again and again. Words are kept where they matter: bytes are \<open>8 word\<close>, seconds of a poll
  \<open>64 word\<close>, the clock of the entitlement is read with \<open>sint\<close>, file sizes are checked against
  \<open>I64_MAX\<close>. Row ids are unbounded integers (\<open>i32\<close> in the code). The limits of the server, of the
  upload queue and of the update channel are the code's constants.

  \<^bold>\<open>Not modelled.\<close> Failures of the client's database engine once a pool is there
  (the server's are in \<open>Faults\<close>); rows of the journal that become visible in another
  order than their ids; the durations of timers (a timer may fire at any time); the places inside
  one hashing, one saving or one request where a loop gives way (a session's step is everything
  between two of the others); the capacity of the watcher's channel and the debouncing thread; the
  accept loop of axum; logging; the foreign-language bindings, which are generated. A poll on
  \<open>serve\<close> runs from its registration to its removal without an interruption;
  \<open>Polling\<close> has the interleavings.

  \<^bold>\<open>Plan.\<close> What is left is the client's database failing between two queries, and crashes of
  either program in the middle of a write (\<open>Conflicts\<close> has the one between the two halves of a
  deletion).
\<close>

end
